(* ===== verification/Prelude.thy ===== *)
theory Prelude
  imports Main "HOL-Library.Word"
begin

text \<open>
  Shared ground of the Chunos development: the C integer types of
  include/os/types.h, the error numbers of include/os/errno.h that the kernel
  returns, the alignment macros of include/os/bound.h, typed memory, and the
  generic facts on words and lists the components use.

  Conventions.  An \<open>unsigned long\<close>, a \<open>u32\<close> and a pointer is a
  \<^typ>\<open>32 word\<close> (both supported targets, i386 and ARMv4, are 32-bit), and its
  arithmetic wraps.  A signed \<open>int\<close>, \<open>long\<close> or \<open>size_t\<close> (which this
  kernel declares as \<open>int\<close>) is an \<^typ>\<open>int\<close>; the conversions between the
  two are written out with \<^const>\<open>sint\<close> and \<^const>\<open>word_of_int\<close>.
  Signed overflow is undefined in C and outside of the model.  A function that
  returns an error number returns the same negative integer here.  A call that
  does not return, or that dereferences a null pointer, is the value
  \<^const>\<open>None\<close>.
\<close>

unbundle bit_operations_syntax

named_theorems word_arith \<open>facts that move word terms to nat and int\<close>
named_theorems align_simps \<open>facts about the alignment macros\<close>

section \<open>Types\<close>

type_synonym u8 = "8 word"
type_synonym u16 = "16 word"
type_synonym u32 = "32 word"
type_synonym addr = "32 word"

text \<open>Memory seen as an array of 32-bit words: bitmaps and page tables live here.\<close>

type_synonym word_mem = "addr \<Rightarrow> u32"

section \<open>Error numbers\<close>

abbreviation (input) EPERM :: int where "EPERM \<equiv> 1"
abbreviation (input) ENOENT :: int where "ENOENT \<equiv> 2"
abbreviation (input) EIO :: int where "EIO \<equiv> 5"
abbreviation (input) ENXIO :: int where "ENXIO \<equiv> 6"
abbreviation (input) EAGAIN :: int where "EAGAIN \<equiv> 11"
abbreviation (input) ENOMEM :: int where "ENOMEM \<equiv> 12"
abbreviation (input) EFAULT :: int where "EFAULT \<equiv> 14"
abbreviation (input) EBUSY :: int where "EBUSY \<equiv> 16"
abbreviation (input) ENODEV :: int where "ENODEV \<equiv> 19"
abbreviation (input) ENOTDIR :: int where "ENOTDIR \<equiv> 20"
abbreviation (input) EINVAL :: int where "EINVAL \<equiv> 22"
abbreviation (input) EMFILE :: int where "EMFILE \<equiv> 24"
abbreviation (input) EFBIG :: int where "EFBIG \<equiv> 27"
abbreviation (input) ENOSPC :: int where "ENOSPC \<equiv> 28"
abbreviation (input) ETIMEDOUT :: int where "ETIMEDOUT \<equiv> 110"

section \<open>Alignment macros\<close>

text \<open>The macros are untyped in C; the same definition serves words and integers.\<close>

definition align :: "'a::ring_bit_operations \<Rightarrow> 'a \<Rightarrow> 'a" where
  "align num sz = (num + (sz - 1)) AND NOT (sz - 1)"

definition min_align :: "'a::ring_bit_operations \<Rightarrow> 'a \<Rightarrow> 'a" where
  "min_align num sz = num AND NOT (sz - 1)"

definition is_align :: "'a::ring_bit_operations \<Rightarrow> 'a \<Rightarrow> bool" where
  "is_align base bound = (base AND (bound - 1) = 0)"

definition page_nr :: "int \<Rightarrow> int" where
  "page_nr sz = drop_bit 12 (align sz 4096)"

section \<open>Words\<close>

lemma and_not_mask_eq:
  fixes x :: "'a::ring_bit_operations"
  shows "x AND NOT (mask n) = push_bit n (drop_bit n x)"
  by (rule bit_eqI) (auto simp: bit_simps)

lemma min_align_pow2 [align_simps]: "min_align x (2 ^ k) = push_bit k (drop_bit k x)"
  by (simp add: min_align_def and_not_mask_eq flip: mask_eq_exp_minus_1)

lemma align_pow2 [align_simps]: "align x (2 ^ k) = min_align (x + (2 ^ k - 1)) (2 ^ k)"
  by (simp add: align_def min_align_def)

lemma is_align_pow2 [align_simps]: "is_align x (2 ^ k) \<longleftrightarrow> take_bit k x = 0"
  by (simp add: is_align_def take_bit_eq_mask flip: mask_eq_exp_minus_1)

lemma is_align_min_align [align_simps]: "is_align (min_align x (2 ^ k)) (2 ^ k)"
  by (simp add: align_simps take_bit_push_bit)

lemma is_align_align [align_simps]: "is_align (align x (2 ^ k)) (2 ^ k)"
  by (simp only: align_pow2 is_align_min_align)

lemma unat_min_align [word_arith]:
  fixes x :: "'a::len word"
  shows "unat (min_align x (2 ^ k)) = unat x div 2 ^ k * 2 ^ k"
proof -
  have "unat (push_bit k (drop_bit k x)) = take_bit LENGTH('a) (push_bit k (unat (drop_bit k x)))"
    by (rule unsigned_push_bit_eq)
  also have "unat (drop_bit k x) = unat x div 2 ^ k"
    unfolding unat_drop_bit_eq by (rule drop_bit_eq_div)
  also have "take_bit LENGTH('a) (push_bit k (unat x div 2 ^ k)) = unat x div 2 ^ k * 2 ^ k"
  proof -
    have "unat x div 2 ^ k * 2 ^ k \<le> unat x" by simp
    also have "unat x < 2 ^ LENGTH('a)" by (rule unsigned_less)
    finally show ?thesis by (simp add: push_bit_eq_mult take_bit_nat_eq_self)
  qed
  finally show ?thesis by (simp add: min_align_pow2)
qed

lemma min_align_le: fixes x :: "'a::len word" shows "min_align x (2 ^ k) \<le> x"
  by (simp add: word_le_nat_alt unat_min_align)

lemma align_int_bounds:
  fixes x :: int
  shows "x \<le> align x (2 ^ k)" and "align x (2 ^ k) < x + 2 ^ k"
proof -
  let ?s = "2 ^ k :: int"
  have eq: "align x ?s = (x + (?s - 1)) div ?s * ?s"
    by (simp add: align_simps push_bit_eq_mult drop_bit_eq_div)
  have "(x + (?s - 1)) div ?s * ?s + (x + (?s - 1)) mod ?s = x + (?s - 1)"
    by (rule div_mult_mod_eq)
  moreover have "0 \<le> (x + (?s - 1)) mod ?s" "(x + (?s - 1)) mod ?s < ?s" by simp_all
  ultimately show "x \<le> align x ?s" "align x ?s < x + ?s" unfolding eq by linarith+
qed

lemma unat_u32_less [word_arith]: "unat (x :: u32) < 2 ^ 32"
  using unsigned_less [where ?'a = nat and w = x] by simp

lemma unat_word_of_nat [word_arith]: "i < 2 ^ 32 \<Longrightarrow> unat (word_of_nat i :: u32) = i"
  by (simp add: unat_of_nat)

lemma uint_word_of_int_u32 [word_arith]: "0 \<le> i \<Longrightarrow> i < 2 ^ 32 \<Longrightarrow> uint (word_of_int i :: u32) = i"
  by (rule word_of_int_inverse) simp_all

lemma unat_word_of_int_u32 [word_arith]: "0 \<le> i \<Longrightarrow> i < 2 ^ 32 \<Longrightarrow> unat (word_of_int i :: u32) = nat i"
  unfolding unat_eq_nat_uint by (simp only: uint_word_of_int_u32)

lemma sint_word_of_int_u32 [word_arith]:
  "- (2 ^ 31) \<le> i \<Longrightarrow> i < 2 ^ 31 \<Longrightarrow> sint (word_of_int i :: u32) = i"
  unfolding sint_sbintrunc' by (rule signed_take_bit_int_eq_self) simp_all

lemma sint_u32_range [word_arith]: "- (2 ^ 31) \<le> sint (x :: u32)" "sint (x :: u32) < 2 ^ 31"
  using sint_ge [of x] sint_lt [of x] by simp_all

lemma sint_eq_uint_u32 [word_arith]: "uint (x :: u32) < 2 ^ 31 \<Longrightarrow> sint x = uint x"
  using sint_word_of_int_u32 [of "uint x"] uint_ge_0 [of x] by simp

text \<open>Small flags stored in the low bits of an aligned address can be taken apart again.\<close>

lemma or_flags_and_mask:
  fixes pa :: u32
  assumes "take_bit k pa = 0" "take_bit j c = c" "j \<le> i" "i \<le> k"
  shows "(pa OR c) AND NOT (mask i) = pa"
proof (rule bit_eqI)
  fix n assume "possible_bit TYPE(u32) n"
  then have n: "n < 32" by simp
  have "\<not> bit pa n" if "n < k" using assms(1) that by (metis bit_take_bit_iff bit_0_eq bot_apply bot_boolE)
  moreover have "\<not> bit c n" if "j \<le> n" using assms(2) that by (metis bit_take_bit_iff not_le)
  ultimately show "bit ((pa OR c) AND NOT (mask i)) n = bit pa n"
    using assms(3,4) n by (auto simp: bit_simps)
qed

lemma or_flags_take_low:
  fixes pa :: u32
  assumes "take_bit k pa = 0" "take_bit j c = c" "j \<le> k"
  shows "(pa OR c) AND mask j = c"
proof (rule bit_eqI)
  fix n assume "possible_bit TYPE(u32) n"
  then have n: "n < 32" by simp
  have "\<not> bit pa n" if "n < k" using assms(1) that by (metis bit_take_bit_iff bit_0_eq bot_apply bot_boolE)
  moreover have "\<not> bit c n" if "j \<le> n" using assms(2) that by (metis bit_take_bit_iff not_le)
  ultimately show "bit ((pa OR c) AND mask j) n = bit c n"
    using assms(3) n by (cases "j \<le> n") (auto simp: bit_simps)
qed

lemma take_bit_add_0:
  fixes x y :: "'a::len word"
  shows "take_bit n x = 0 \<Longrightarrow> take_bit n y = 0 \<Longrightarrow> take_bit n (x + y) = 0"
  unfolding take_bit_eq_0_iff by (rule dvd_add)

lemma take_bit_mult_pow: "take_bit n (2 ^ n * x :: 'a::len word) = 0"
  unfolding take_bit_eq_0_iff by simp

section \<open>Lists\<close>

lemma nth_list_update_any: "xs[i := x] ! j = (if i = j \<and> j < length xs then x else xs ! j)"
  by (cases "i < length xs") (auto simp: nth_list_update list_update_beyond)

lemma foldl_invariant:
  assumes "I s" and "\<And>s x. I s \<Longrightarrow> x \<in> set xs \<Longrightarrow> I (f s x)"
  shows "I (foldl f s xs)"
  using assms by (induction xs arbitrary: s) simp_all

end
