(* ===== verification/Bitops.thy ===== *)
theory Bitops
  imports Prelude
begin

text \<open>
  kernel/bitops.c and include/os/bitops.h: bit operations on an array of 32-bit
  words in memory, and the search for a run of equal bits that the page
  allocator is built on.  A bitmap is the address of its first word; the words
  live in a \<^typ>\<open>word_mem\<close>, so that two bitmaps can overlap exactly when they
  do in the kernel.  The last section shows how far a search can be trusted.
\<close>

section \<open>Definitions\<close>

datatype bit_ops = BITS_CLEAR | BITS_SET | BITS_READ

text \<open>\<open>sizeof\<close> is unsigned, so the division converts \<open>n\<close> to unsigned first.\<close>

definition get_bit_pos :: "int \<Rightarrow> u32 \<times> nat" where
  "get_bit_pos n = ((word_of_int n :: u32) div 32, unat ((word_of_int n :: u32) mod 32))"

fun op_bits :: "word_mem \<Rightarrow> addr \<Rightarrow> int \<Rightarrow> bit_ops \<Rightarrow> int \<times> word_mem" where
  "op_bits m bit_map n ops =
     (if bit_map = 0 then (- EINVAL, m)
      else let (x, y) = get_bit_pos n; p = bit_map + 4 * x in
        case ops of
          BITS_CLEAR \<Rightarrow> (0, m(p := m p AND NOT (push_bit y 1)))
        | BITS_SET \<Rightarrow> (0, m(p := m p OR push_bit y 1))
        | BITS_READ \<Rightarrow> (uint (drop_bit y (m p AND push_bit y 1)), m))"

definition clear_bit :: "word_mem \<Rightarrow> addr \<Rightarrow> int \<Rightarrow> word_mem" where
  "clear_bit m bit_map n = snd (op_bits m bit_map n BITS_CLEAR)"

definition set_bit :: "word_mem \<Rightarrow> addr \<Rightarrow> int \<Rightarrow> word_mem" where
  "set_bit m bit_map n = snd (op_bits m bit_map n BITS_SET)"

definition read_bit :: "word_mem \<Rightarrow> addr \<Rightarrow> int \<Rightarrow> int" where
  "read_bit m bit_map n = fst (op_bits m bit_map n BITS_READ)"

definition bits_to_long :: "int \<Rightarrow> u32" where
  "bits_to_long n = ((word_of_int n + 8) AND 0xffffffc0) div 32"

definition init_bitmap :: "word_mem \<Rightarrow> addr \<Rightarrow> int \<Rightarrow> word_mem" where
  "init_bitmap m bitmap n = foldl (\<lambda>m i. clear_bit m bitmap i) m [0..n - 1]"

text \<open>The \<open>while (1)\<close> loop, with its three variables as arguments.\<close>

partial_function (option) find_free_loop ::
  "word_mem \<Rightarrow> addr \<Rightarrow> int \<Rightarrow> int \<Rightarrow> int \<Rightarrow> int \<Rightarrow> int \<Rightarrow> bool \<Rightarrow> int \<Rightarrow> int option" where
  "find_free_loop m bmap start value map_nr count i again run =
     (let hit = (read_bit m bmap i = value);
          run = (if hit then run + 1 else 0) in
      if hit \<and> run = count then Some (i + 1 - count)
      else
        let wrap = (i = map_nr - 1);
            again = (again \<or> wrap);
            run = (if wrap then 0 else run);
            i = (if wrap then 0 else i) in
        if again \<and> i = start then Some (- ENOSPC)
        else find_free_loop m bmap start value map_nr count (i + 1) again run)"

definition bitmap_find_free_base ::
  "word_mem \<Rightarrow> addr \<Rightarrow> int \<Rightarrow> int \<Rightarrow> int \<Rightarrow> int \<Rightarrow> int option" where
  "bitmap_find_free_base m bmap start value map_nr count =
     find_free_loop m bmap start value map_nr count start False 0"

section \<open>A bitmap as an array of booleans\<close>

text \<open>The indices a C \<open>int\<close> can hold without being negative.\<close>

abbreviation bit_index :: "int \<Rightarrow> bool" where
  "bit_index n \<equiv> 0 \<le> n \<and> n < 2 ^ 31"

definition bit_word :: "addr \<Rightarrow> int \<Rightarrow> addr" where
  "bit_word bm n = bm + 4 * word_of_int (n div 32)"

lemma get_bit_pos_eq:
  assumes "bit_index n"
  shows "get_bit_pos n = (word_of_int (n div 32), nat (n mod 32))"
proof -
  have u: "uint (word_of_int n :: u32) = n"
    using assms by (simp add: word_of_int_inverse)
  have "uint ((word_of_int n :: u32) div 32) = n div 32"
    "uint ((word_of_int n :: u32) mod 32) = n mod 32"
    by (simp_all add: uint_div_distrib uint_mod_distrib u)
  then show ?thesis
    unfolding get_bit_pos_def by (metis word_of_int_uint unat_eq_nat_uint)
qed

lemma bit_word_inj:
  assumes "bit_index n" "bit_index k" "bit_word bm n = bit_word bm k"
  shows "n div 32 = k div 32"
proof -
  have r: "0 \<le> i div 32 \<and> i div 32 < 2 ^ 26" if "bit_index i" for i :: int
    using that by auto
  have "uint (4 * (word_of_int (i div 32) :: u32)) = 4 * (i div 32)" if "bit_index i" for i
    using r [OF that] by (simp add: uint_word_arith_bintrs take_bit_int_eq_self uint_word_of_int)
  then show ?thesis using assms unfolding bit_word_def by (metis add_left_cancel mult_cancel_left zero_neq_numeral)
qed

lemma read_bit_eq:
  assumes "bm \<noteq> 0" "bit_index n"
  shows "read_bit m bm n = of_bool (bit (m (bit_word bm n)) (nat (n mod 32)))"
proof -
  have "drop_bit y (w AND push_bit y 1) = (of_bool (bit w y) :: u32)" for w :: u32 and y
    by (rule bit_eqI) (auto simp: bit_simps dest: bit_imp_le_length)
  then show ?thesis
    using assms by (simp add: read_bit_def get_bit_pos_eq bit_word_def Let_def)
qed

lemma set_bit_eq:
  assumes "bm \<noteq> 0" "bit_index n"
  shows "set_bit m bm n = m(bit_word bm n := m (bit_word bm n) OR push_bit (nat (n mod 32)) 1)"
  using assms by (simp add: set_bit_def get_bit_pos_eq bit_word_def Let_def)

lemma clear_bit_eq:
  assumes "bm \<noteq> 0" "bit_index n"
  shows "clear_bit m bm n = m(bit_word bm n := m (bit_word bm n) AND NOT (push_bit (nat (n mod 32)) 1))"
  using assms by (simp add: clear_bit_def get_bit_pos_eq bit_word_def Let_def)

lemma bit_pos_inj: "(n :: int) div 32 = k div 32 \<Longrightarrow> nat (n mod 32) = nat (k mod 32) \<Longrightarrow> n = k"
  by (metis div_mult_mod_eq mod_int_pos_iff nat_eq_iff2 not_numeral_le_zero pos_mod_sign zero_less_numeral eq_nat_nat_iff)

lemma nat_mod_32 [simp]: "nat ((n :: int) mod 32) < 32"
  by (simp add: nat_less_iff)

lemma bit_word_frame:
  assumes "bit_index n" "bit_index k" "n \<noteq> k" "bit_word bm n = bit_word bm k"
  shows "nat (n mod 32) \<noteq> nat (k mod 32)"
  using bit_word_inj [of n k bm] bit_pos_inj [of n k] assms by blast

text \<open>
  What a client may rely on, whatever the representation of the bits: a read
  gives 0 or 1, and sees exactly the last write to its own index.
\<close>

locale bit_array =
  fixes rd :: "'m \<Rightarrow> int \<Rightarrow> int"
    and st :: "'m \<Rightarrow> int \<Rightarrow> 'm"
    and cl :: "'m \<Rightarrow> int \<Rightarrow> 'm"
    and ok :: "int \<Rightarrow> bool"
  assumes rd_bool: "ok n \<Longrightarrow> rd m n = 0 \<or> rd m n = 1"
    and rd_st: "ok n \<Longrightarrow> ok k \<Longrightarrow> rd (st m n) k = (if k = n then 1 else rd m k)"
    and rd_cl: "ok n \<Longrightarrow> ok k \<Longrightarrow> rd (cl m n) k = (if k = n then 0 else rd m k)"
begin

lemma rd_st_all:
  assumes "\<forall>n \<in> set ns. ok n" "ok k"
  shows "rd (foldl st m ns) k = (if k \<in> set ns then 1 else rd m k)"
  using assms by (induction ns arbitrary: m) (auto simp: rd_st)

lemma rd_cl_all:
  assumes "\<forall>n \<in> set ns. ok n" "ok k"
  shows "rd (foldl cl m ns) k = (if k \<in> set ns then 0 else rd m k)"
  using assms by (induction ns arbitrary: m) (auto simp: rd_cl)

lemma st_then_cl:
  assumes "\<forall>n \<in> set ns. ok n" "\<forall>n \<in> set ns. rd m n = 0" "ok k"
  shows "rd (foldl cl (foldl st m ns) ns) k = rd m k"
  using assms by (simp add: rd_st_all rd_cl_all)

end

definition bitmap_ok :: "addr \<Rightarrow> int \<Rightarrow> bool" where
  "bitmap_ok bm n \<longleftrightarrow> bm \<noteq> 0 \<and> bit_index n"

text \<open>
  Reads at a null bitmap are the error number, so the interface holds at every
  non-null bitmap.
\<close>

interpretation bits: bit_array
  "\<lambda>m. read_bit m bm" "\<lambda>m. set_bit m bm" "\<lambda>m. clear_bit m bm" "bitmap_ok bm" for bm
proof unfold_locales
  fix m n k
  assume "bitmap_ok bm n"
  then show "read_bit m bm n = 0 \<or> read_bit m bm n = 1"
    by (simp add: bitmap_ok_def read_bit_eq)
next
  fix m n k
  assume "bitmap_ok bm n" "bitmap_ok bm k"
  then show "read_bit (set_bit m bm n) bm k = (if k = n then 1 else read_bit m bm k)"
    using bit_word_frame [of n k bm]
    by (auto simp: bitmap_ok_def read_bit_eq set_bit_eq bit_simps)
next
  fix m n k
  assume "bitmap_ok bm n" "bitmap_ok bm k"
  then show "read_bit (clear_bit m bm n) bm k = (if k = n then 0 else read_bit m bm k)"
    using bit_word_frame [of n k bm]
    by (auto simp: bitmap_ok_def read_bit_eq clear_bit_eq bit_simps)
qed

section \<open>The search for a run of bits\<close>

definition run_at :: "word_mem \<Rightarrow> addr \<Rightarrow> int \<Rightarrow> int \<Rightarrow> int \<Rightarrow> bool" where
  "run_at m bm v count r \<longleftrightarrow> (\<forall>k \<in> {r..<r + count}. read_bit m bm k = v)"

text \<open>
  The state of a pass that began at \<open>b\<close> and has reached \<open>i\<close>: the last
  \<open>run\<close> bits match, the run cannot be extended to the left, and no full run
  has been passed.
\<close>

definition scan_inv :: "word_mem \<Rightarrow> addr \<Rightarrow> int \<Rightarrow> int \<Rightarrow> int \<Rightarrow> int \<Rightarrow> int \<Rightarrow> bool" where
  "scan_inv m bm v count b i run \<longleftrightarrow>
     0 \<le> run \<and> run \<le> i - b \<and> run < count
     \<and> (\<forall>k \<in> {i - run..<i}. read_bit m bm k = v)
     \<and> (run < i - b \<longrightarrow> read_bit m bm (i - run - 1) \<noteq> v)
     \<and> (\<forall>r. b \<le> r \<and> r + count \<le> i \<longrightarrow> \<not> run_at m bm v count r)"

lemma scan_inv_start: "0 < count \<Longrightarrow> scan_inv m bm v count b b 0"
  by (auto simp: scan_inv_def)

lemma scan_hit:
  assumes "scan_inv m bm v count b i run" "read_bit m bm i = v" "run + 1 \<noteq> count"
  shows "scan_inv m bm v count b (i + 1) (run + 1)"
proof -
  have "\<not> run_at m bm v count r" if "b \<le> r" "r + count \<le> i + 1" for r
  proof (cases "r + count \<le> i")
    case True
    then show ?thesis using assms(1) that by (simp add: scan_inv_def)
  next
    case False
    then have "i - run - 1 \<in> {r..<r + count}" "run < i - b"
      using assms that by (auto simp: scan_inv_def)
    then show ?thesis using assms(1) unfolding run_at_def scan_inv_def by blast
  qed
  moreover have "{i - run..<i + 1} = insert i {i - run..<i}"
    using assms(1) by (auto simp: scan_inv_def)
  ultimately show ?thesis using assms by (auto simp: scan_inv_def)
qed

lemma scan_miss:
  assumes "scan_inv m bm v count b i run" "read_bit m bm i \<noteq> v"
  shows "scan_inv m bm v count b (i + 1) 0"
proof -
  have "\<not> run_at m bm v count r" if "b \<le> r" "r + count \<le> i + 1" for r
  proof (cases "r + count \<le> i")
    case True
    then show ?thesis using assms(1) that by (simp add: scan_inv_def)
  next
    case False
    then have "i \<in> {r..<r + count}" using assms(1) that by (auto simp: scan_inv_def)
    then show ?thesis using assms(2) unfolding run_at_def by blast
  qed
  then show ?thesis using assms by (auto simp: scan_inv_def)
qed

lemma scan_found:
  assumes "scan_inv m bm v count b i run" "read_bit m bm i = v" "run + 1 = count"
  shows "b \<le> i + 1 - count \<and> run_at m bm v count (i + 1 - count)"
proof -
  have "{i + 1 - count..<i + 1 - count + count} = insert i {i - run..<i}"
    using assms(1,3) by (auto simp: scan_inv_def)
  then show ?thesis using assms by (simp add: scan_inv_def run_at_def)
qed

lemma scan_done:
  assumes "scan_inv m bm v count b i run" "b \<le> r" "r + count \<le> i"
  shows "\<not> run_at m bm v count r"
  using assms by (simp add: scan_inv_def)

text \<open>
  What the caller gets: a run inside the map, or the error with no run between
  \<open>start\<close> and the end of the map and none between index 1 and \<open>start\<close>.
\<close>

definition find_result :: "word_mem \<Rightarrow> addr \<Rightarrow> int \<Rightarrow> int \<Rightarrow> int \<Rightarrow> int \<Rightarrow> int \<Rightarrow> bool" where
  "find_result m bm start v map_nr count r \<longleftrightarrow>
     (if r = - ENOSPC
      then \<forall>s. start \<le> s \<and> s + count \<le> map_nr \<or> 1 \<le> s \<and> s + count \<le> start + 1
                 \<longrightarrow> \<not> run_at m bm v count s
      else 0 \<le> r \<and> r + count \<le> map_nr \<and> run_at m bm v count r)"

lemma find_second_pass:
  assumes "scan_inv m bm v count 1 i run" "1 \<le> i" "i \<le> start" "start < map_nr - 1"
    and "\<forall>s. start \<le> s \<and> s + count \<le> map_nr \<longrightarrow> \<not> run_at m bm v count s"
  shows "\<exists>r. find_free_loop m bm start v map_nr count i True run = Some r
             \<and> find_result m bm start v map_nr count r"
  using assms
proof (induction "nat (start - i)" arbitrary: i run rule: less_induct)
  case less
  let ?run' = "if read_bit m bm i = v then run + 1 else 0"
  show ?case
  proof (cases "read_bit m bm i = v \<and> run + 1 = count")
    case True
    then have "find_free_loop m bm start v map_nr count i True run = Some (i + 1 - count)"
      by (subst find_free_loop.simps) simp
    then show ?thesis using scan_found [OF less.prems(1)] True less.prems
      by (auto simp: find_result_def)
  next
    case False
    have inv: "scan_inv m bm v count 1 (i + 1) ?run'"
      using less.prems(1) False by (auto intro: scan_hit scan_miss)
    have step: "find_free_loop m bm start v map_nr count i True run =
        (if i = start then Some (- ENOSPC)
         else find_free_loop m bm start v map_nr count (i + 1) True ?run')"
      using False less.prems by (subst find_free_loop.simps) (auto simp: Let_def)
    show ?thesis
    proof (cases "i = start")
      case True
      then show ?thesis using step less.prems scan_done [OF inv] by (auto simp: find_result_def)
    next
      case False
      then show ?thesis using step less.hyps [OF _ inv] less.prems by auto
    qed
  qed
qed

lemma find_first_pass:
  assumes "scan_inv m bm v count start i run" "0 \<le> start" "start \<le> i" "i < map_nr"
    and "start = 0 \<or> start < map_nr - 1"
  shows "\<exists>r. find_free_loop m bm start v map_nr count i False run = Some r
             \<and> find_result m bm start v map_nr count r"
  using assms
proof (induction "nat (map_nr - i)" arbitrary: i run rule: less_induct)
  case less
  let ?run' = "if read_bit m bm i = v then run + 1 else 0"
  show ?case
  proof (cases "read_bit m bm i = v \<and> run + 1 = count")
    case True
    then have "find_free_loop m bm start v map_nr count i False run = Some (i + 1 - count)"
      by (subst find_free_loop.simps) simp
    then show ?thesis using scan_found [OF less.prems(1)] True less.prems
      by (auto simp: find_result_def)
  next
    case False
    have inv: "scan_inv m bm v count start (i + 1) ?run'"
      using less.prems(1) False by (auto intro: scan_hit scan_miss)
    have c: "0 < count" using less.prems(1) by (simp add: scan_inv_def)
    have step: "find_free_loop m bm start v map_nr count i False run =
        (if i = map_nr - 1
         then if start = 0 then Some (- ENOSPC)
              else find_free_loop m bm start v map_nr count 1 True 0
         else find_free_loop m bm start v map_nr count (i + 1) False ?run')"
      using False by (subst find_free_loop.simps) (auto simp: Let_def)
    consider "i = map_nr - 1" "start = 0" | "i = map_nr - 1" "start \<noteq> 0" | "i \<noteq> map_nr - 1"
      by blast
    then show ?thesis
    proof cases
      case 1
      then show ?thesis using step scan_done [OF inv] c by (auto simp: find_result_def)
    next
      case 2
      then show ?thesis using step scan_done [OF inv] less.prems
          find_second_pass [OF scan_inv_start [OF c], of start map_nr] by auto
    next
      case 3
      then show ?thesis using step less.hyps [OF _ inv] less.prems by auto
    qed
  qed
qed

definition stuck_inv :: "word_mem \<Rightarrow> addr \<Rightarrow> int \<Rightarrow> int \<Rightarrow> int \<Rightarrow> int \<Rightarrow> int \<Rightarrow> int \<Rightarrow> bool" where
  "stuck_inv m bm start v map_nr count i run \<longleftrightarrow>
     start = map_nr - 1 \<and> 1 \<le> i \<and> i < map_nr \<and> 0 < start \<and> 0 < count \<and> 0 \<le> run \<and> run < i
     \<and> (\<forall>k \<in> {i - run..<i}. read_bit m bm k = v)
     \<and> (\<forall>s. 1 \<le> s \<and> s + count \<le> map_nr \<longrightarrow> \<not> run_at m bm v count s)"

lemma stuck_inv_no_hit:
  assumes "stuck_inv m bm start v map_nr count i run"
  shows "\<not> (read_bit m bm i = v \<and> run + 1 = count)"
proof
  assume a: "read_bit m bm i = v \<and> run + 1 = count"
  have "{i + 1 - count..<i + 1 - count + count} = insert i {i - run..<i}"
    using a assms by (auto simp: stuck_inv_def)
  then have "run_at m bm v count (i + 1 - count)" using a assms by (auto simp: run_at_def stuck_inv_def)
  then show False using assms a by (auto simp: stuck_inv_def)
qed

lemma stuck_inv_step:
  assumes "stuck_inv m bm start v map_nr count i run"
  shows "stuck_inv m bm start v map_nr count (if i = map_nr - 1 then 1 else i + 1)
           (if i = map_nr - 1 \<or> read_bit m bm i \<noteq> v then 0 else run + 1)"
proof -
  have "{i - run..<i + 1} = insert i {i - run..<i}" using assms by (auto simp: stuck_inv_def)
  then show ?thesis using assms by (auto simp: stuck_inv_def)
qed

lemma find_free_loop_stuck:
  assumes "find_free_loop m bm start v map_nr count i again run = Some r"
  shows "\<not> stuck_inv m bm start v map_nr count i run"
  using assms
proof (rule find_free_loop.raw_induct [rotated])
  fix f m bm start v map_nr count i again run r
  assume IH: "\<And>m bm start v map_nr count i again run r.
      f m bm start v map_nr count i again run = Some r \<Longrightarrow>
      \<not> stuck_inv m bm start v map_nr count i run"
    and eq: "(let hit = read_bit m bm i = v; run = if hit then run + 1 else 0
       in if hit \<and> run = count then Some (i + 1 - count)
          else let wrap = i = map_nr - 1; again = again \<or> wrap; run = if wrap then 0 else run;
                   i = if wrap then 0 else i
               in if again \<and> i = start then Some (- 28)
                  else f m bm start v map_nr count (i + 1) again run) = Some r"
  show "\<not> stuck_inv m bm start v map_nr count i run"
  proof
    assume st: "stuck_inv m bm start v map_nr count i run"
    have "0 < start" "start = map_nr - 1" using st by (auto simp: stuck_inv_def)
    then have "f m bm start v map_nr count (if i = map_nr - 1 then 1 else i + 1)
        (again \<or> i = map_nr - 1) (if i = map_nr - 1 \<or> read_bit m bm i \<noteq> v then 0 else run + 1) = Some r"
      using eq stuck_inv_no_hit [OF st] by (auto simp: Let_def split: if_splits)
    then show False using IH stuck_inv_step [OF st] by blast
  qed
qed

lemma find_free_base_total:
  assumes "0 \<le> start" "start < map_nr" "start = 0 \<or> start < map_nr - 1" "0 < count"
  shows "\<exists>r. bitmap_find_free_base m bm start v map_nr count = Some r
             \<and> find_result m bm start v map_nr count r"
  unfolding bitmap_find_free_base_def
  using find_first_pass [OF scan_inv_start] assms by simp

lemma find_free_base_hangs:
  assumes "1 < map_nr" "0 < count"
    and "\<forall>s. 1 \<le> s \<and> s + count \<le> map_nr \<longrightarrow> \<not> run_at m bm v count s"
  shows "bitmap_find_free_base m bm (map_nr - 1) v map_nr count = None"
proof -
  have "find_free_loop m bm (map_nr - 1) v map_nr count (map_nr - 1) False 0 \<noteq> Some r" for r
    using find_free_loop_stuck [of m bm "map_nr - 1" v map_nr count "map_nr - 1" False 0 r] assms
    by (auto simp: stuck_inv_def)
  then show ?thesis unfolding bitmap_find_free_base_def by (meson option.exhaust)
qed

section \<open>The size of a bitmap\<close>

lemma uint_bits_to_long:
  assumes "0 \<le> n" "n < 2 ^ 31"
  shows "uint (bits_to_long n) = 2 * ((n + 8) div 64)"
proof -
  have m: "w AND 0xffffffc0 = min_align w (2 ^ 6)" for w :: u32
    unfolding min_align_def by (rule arg_cong [of _ _ "\<lambda>k. w AND k"]) simp
  have u: "uint (word_of_int n + 8 :: u32) = n + 8"
    using assms by (intro word_of_int_inverse) simp_all
  have "uint (min_align (word_of_int n + 8 :: u32) (2 ^ 6)) = (n + 8) div 64 * 64"
    using arg_cong [OF unat_min_align [of "word_of_int n + 8 :: u32" 6], of int]
    by (simp add: u zdiv_int)
  then show ?thesis unfolding bits_to_long_def m by (simp add: uint_div_distrib)
qed

lemma bits_to_long_room:
  assumes "0 \<le> n" "n < 2 ^ 31"
  shows "n \<le> 32 * uint (bits_to_long n) \<longleftrightarrow> n mod 64 = 0 \<or> 56 \<le> n mod 64"
proof -
  define q r where qr: "q = n div 64" "r = n mod 64"
  have n: "n = 64 * q + r" "0 \<le> r" "r < 64" by (simp_all add: qr)
  have "(n + 8) div 64 = (if 56 \<le> r then q + 1 else q)"
    using int_div_pos_eq [of "n + 8" 64 "q + 1" "r - 56"] int_div_pos_eq [of "n + 8" 64 q "r + 8"] n
    by auto
  then have "32 * uint (bits_to_long n) = (if 56 \<le> r then 64 * q + 64 else 64 * q)"
    using assms by (simp add: uint_bits_to_long)
  then show ?thesis using n unfolding qr(2) [symmetric] by auto
qed

section \<open>Properties\<close>



text \<open>
  A search that starts at the last index of the map, in a map that has no run
  of the wanted length above index 0, never returns: the loop resets the index to 0
  before it compares it with \<open>start\<close>, so the comparison never succeeds.
\<close>

theorem bitmap_find_free_base_stuck:
  assumes "1 < map_nr" "0 < count"
    and "\<forall>s. 1 \<le> s \<and> s + count \<le> map_nr \<longrightarrow> \<not> run_at m bm v count s"
  shows "bitmap_find_free_base m bm (map_nr - 1) v map_nr count = None"
  by (rule find_free_base_hangs [OF assms])

theorem bitmap_find_free_base_stuck_witness:
  "bitmap_find_free_base (\<lambda>_. - 1) 0x1000 63 0 64 1 = None"
proof -
  have "\<not> run_at (\<lambda>_. - 1) 0x1000 0 1 s" if "1 \<le> s" "s + 1 \<le> 64" for s :: int
    using that by (auto simp: run_at_def read_bit_eq)
  then show ?thesis using bitmap_find_free_base_stuck [of 64 1 "\<lambda>_. - 1" "0x1000" 0] by simp
qed

text \<open>
  \<open>bits_to_long n\<close> is the number of 32-bit words a bitmap of \<open>n\<close> bits is given.
  It is enough for \<open>n\<close> bits exactly when \<open>n\<close> is a multiple of 64 or at most eight
  below the next one; for every other size the words reserved are too few (none
  at all for 8 or for 32 bits).
\<close>

theorem bits_to_long_enough:
  assumes "0 \<le> n" "n < 2 ^ 31"
  shows "n \<le> 32 * uint (bits_to_long n) \<longleftrightarrow> n mod 64 = 0 \<or> 56 \<le> n mod 64"
  by (rule bits_to_long_room [OF assms])

theorem bits_to_long_enough_witness:
  "\<not> (32 :: int) \<le> 32 * uint (bits_to_long 32) \<and> (64 :: int) \<le> 32 * uint (bits_to_long 64)"
  using bits_to_long_enough [of 32] bits_to_long_enough [of 64] by simp

end
