(* ===== verification/Klist.thy ===== *)
theory Klist
  imports Prelude
begin

text \<open>
  include/os/list.h: the circular doubly linked lists every subsystem uses.  A
  list node is an address; the two pointer fields of all nodes are the two
  functions of a store, so that aliasing is visible.  The operations are the
  assignments of the C code in their order.  The refinement lemmas show that on a
  well-formed list they are the list operations their names promise, and that
  they leave every separate list alone.
\<close>

section \<open>Definitions\<close>

record list_heap =
  lnext :: "addr \<Rightarrow> addr"
  lpre :: "addr \<Rightarrow> addr"

definition set_next :: "addr \<Rightarrow> addr \<Rightarrow> list_heap \<Rightarrow> list_heap" where
  "set_next p q h = h\<lparr>lnext := (lnext h)(p := q)\<rparr>"

definition set_pre :: "addr \<Rightarrow> addr \<Rightarrow> list_heap \<Rightarrow> list_heap" where
  "set_pre p q h = h\<lparr>lpre := (lpre h)(p := q)\<rparr>"

definition init_list :: "list_heap \<Rightarrow> addr \<Rightarrow> list_heap" where
  "init_list h l = set_pre l l (set_next l l h)"

definition list_add :: "list_heap \<Rightarrow> addr \<Rightarrow> addr \<Rightarrow> list_heap" where
  "list_add h head new =
     (let h = set_pre (lnext h head) new h;
          h = set_next new (lnext h head) h;
          h = set_pre new head h
      in set_next head new h)"

definition list_add_tail :: "list_heap \<Rightarrow> addr \<Rightarrow> addr \<Rightarrow> list_heap" where
  "list_add_tail h head new =
     (let h = set_next (lpre h head) new h;
          h = set_next new head h;
          h = set_pre new (lpre h head) h
      in set_pre head new h)"

definition list_del :: "list_heap \<Rightarrow> addr \<Rightarrow> list_heap" where
  "list_del h l =
     (let h = set_pre (lnext h l) (lpre h l) h
      in set_next (lpre h l) (lnext h l) h)"

definition list_del_tail :: "list_heap \<Rightarrow> addr \<Rightarrow> list_heap" where
  "list_del_tail h head =
     (let h = set_next (lpre h (lpre h head)) head h
      in set_pre head (lpre h (lpre h head)) h)"

definition is_list_empty :: "list_heap \<Rightarrow> addr \<Rightarrow> bool" where
  "is_list_empty h head \<longleftrightarrow> lnext h head = head"

definition is_list_last :: "list_heap \<Rightarrow> addr \<Rightarrow> addr \<Rightarrow> bool" where
  "is_list_last h head l \<longleftrightarrow> lnext h l = head"

definition list_next :: "list_heap \<Rightarrow> addr \<Rightarrow> addr" where
  "list_next h l = lnext h l"

definition list_prve :: "list_heap \<Rightarrow> addr \<Rightarrow> addr" where
  "list_prve h l = lpre h l"

text \<open>\<open>list_for_each\<close> with a body that leaves the links alone: the nodes it visits.\<close>

partial_function (option) for_each_from :: "list_heap \<Rightarrow> addr \<Rightarrow> addr \<Rightarrow> addr list option" where
  "for_each_from h head l =
     (if l = head then Some []
      else Option.bind (for_each_from h head (lnext h l)) (\<lambda>xs. Some (l # xs)))"

definition list_for_each :: "list_heap \<Rightarrow> addr \<Rightarrow> addr list option" where
  "list_for_each h head = for_each_from h head (lnext h head)"

section \<open>Well-formed lists\<close>

text \<open>A chain from \<open>a\<close> through \<open>xs\<close> to \<open>b\<close>, with the back links.\<close>

fun seg :: "list_heap \<Rightarrow> addr \<Rightarrow> addr list \<Rightarrow> addr \<Rightarrow> bool" where
  "seg h a [] b \<longleftrightarrow> lnext h a = b \<and> lpre h b = a"
| "seg h a (x # xs) b \<longleftrightarrow> lnext h a = x \<and> lpre h x = a \<and> seg h x xs b"

definition dlist :: "list_heap \<Rightarrow> addr \<Rightarrow> addr list \<Rightarrow> bool" where
  "dlist h head xs \<longleftrightarrow> distinct (head # xs) \<and> seg h head xs head"

lemma heap_simps [simp]:
  "lnext (set_next p q h) = (lnext h)(p := q)" "lpre (set_next p q h) = lpre h"
  "lpre (set_pre p q h) = (lpre h)(p := q)" "lnext (set_pre p q h) = lnext h"
  by (simp_all add: set_next_def set_pre_def)

lemma seg_set_next [simp]: "p \<noteq> a \<Longrightarrow> p \<notin> set xs \<Longrightarrow> seg (set_next p q h) a xs b = seg h a xs b"
  by (induction xs arbitrary: a) auto

lemma seg_set_pre [simp]: "p \<noteq> b \<Longrightarrow> p \<notin> set xs \<Longrightarrow> seg (set_pre p q h) a xs b = seg h a xs b"
  by (induction xs arbitrary: a) auto

lemma seg_append: "seg h a (xs @ x # ys) b \<longleftrightarrow> seg h a xs x \<and> seg h x ys b"
  by (induction xs arbitrary: a) auto

lemma seg_pre: "seg h a xs b \<Longrightarrow> lpre h b = last (a # xs)"
  by (induction xs arbitrary: a) auto

lemma seg_next: "seg h a xs b \<Longrightarrow> lnext h a = hd (xs @ [b])"
  by (cases xs) auto

lemma seg_snoc: "seg h a (xs @ [x]) b \<longleftrightarrow> seg h a xs x \<and> lnext h x = b \<and> lpre h b = x"
  by (simp add: seg_append)

text \<open>Redirecting the last forward link of a chain to a new end.\<close>

lemma seg_retarget_last:
  assumes "seg h a xs b" "distinct (a # xs)" "c \<notin> set xs" "b \<notin> set xs"
  shows "seg (set_next (last (a # xs)) c (set_pre c (last (a # xs)) h)) a xs c"
  using assms
proof (induction xs arbitrary: a)
  case (Cons x xs)
  then have "last (x # xs) \<noteq> a" by (metis distinct.simps(2) last_in_set list.discI)
  with Cons show ?case by (cases "c = x") auto
qed simp

lemma dlist_add:
  assumes "dlist h l xs" "n \<noteq> l" "n \<notin> set xs"
  shows "dlist (list_add h l n) l (n # xs)"
  using assms by (cases xs) (auto simp: dlist_def list_add_def Let_def)

lemma dlist_add_tail:
  assumes "dlist h l xs" "n \<noteq> l" "n \<notin> set xs"
  shows "dlist (list_add_tail h l n) l (xs @ [n])"
  using assms
  by (cases xs rule: rev_cases) (auto simp: dlist_def list_add_tail_def Let_def seg_append)

lemma dlist_del:
  assumes "dlist h l (xs @ x # ys)"
  shows "dlist (list_del h x) l (xs @ ys)"
proof -
  define a b where ab: "a = last (l # xs)" "b = hd (ys @ [l])"
  have d: "distinct (l # xs @ x # ys)" and s: "seg h l xs x" "seg h x ys l"
    using assms by (auto simp: dlist_def seg_append)
  have a: "a \<in> insert l (set xs)" using last_in_set [of "l # xs"] by (simp add: ab)
  have h: "list_del h x = set_next a b (set_pre b a h)"
    using seg_pre [OF s(1)] seg_next [OF s(2)] d by (cases ys) (auto simp: ab list_del_def Let_def)
  have "seg (list_del h x) l (xs @ ys) l"
  proof (cases ys)
    case Nil
    then show ?thesis using seg_retarget_last [OF s(1), of l] d h ab by simp
  next
    case (Cons y zs)
    then have "seg (list_del h x) l xs y"
      using seg_retarget_last [OF s(1), of y] d h ab by simp
    moreover have "b = y" "a \<notin> set (y # zs)" using a d Cons by (auto simp: ab(2))
    then have "seg (list_del h x) y zs l" using s(2) d h Cons by auto
    ultimately show ?thesis using Cons by (simp add: seg_append)
  qed
  then show ?thesis using d by (simp add: dlist_def)
qed

lemma dlist_del_tail:
  assumes "dlist h l (xs @ [x])"
  shows "dlist (list_del_tail h l) l xs"
proof -
  have "lpre h l = x" "lnext h x = l" "lpre h x \<noteq> x"
    using assms seg_pre [of h l xs x] last_in_set [of "l # xs"]
    by (auto simp: dlist_def seg_append split: if_splits)
  then have "list_del_tail h l = list_del h x"
    by (simp add: list_del_tail_def list_del_def Let_def set_next_def set_pre_def)
  then show ?thesis using dlist_del [of h l xs x "[]"] assms by simp
qed

lemma dlist_init: "dlist (init_list h l) l []"
  by (simp add: dlist_def init_list_def)

lemma dlist_empty: "dlist h l xs \<Longrightarrow> is_list_empty h l \<longleftrightarrow> xs = []"
  by (cases xs) (auto simp: dlist_def is_list_empty_def)

lemma dlist_first: "dlist h l (x # xs) \<Longrightarrow> list_next h l = x"
  by (auto simp: dlist_def list_next_def)

lemma dlist_last: "dlist h l (xs @ x # ys) \<Longrightarrow> is_list_last h l x \<longleftrightarrow> ys = []"
  by (cases ys) (auto simp: dlist_def is_list_last_def seg_append)

lemma for_each_from_seg:
  assumes "seg h a xs l" "l \<notin> set xs"
  shows "for_each_from h l (lnext h a) = Some xs"
  using assms
  by (induction xs arbitrary: a) (subst for_each_from.simps, force)+

section \<open>Frame: what an operation leaves alone\<close>

lemma seg_links:
  assumes "seg h a xs b"
  shows "lnext h a \<in> insert b (set xs)" "lpre h b \<in> insert a (set xs)"
  using seg_next [OF assms] seg_pre [OF assms]
  by (cases xs; auto)+

lemma dlist_links:
  assumes "dlist h l xs" "x \<in> insert l (set xs)"
  shows "lnext h x \<in> insert l (set xs)" "lpre h x \<in> insert l (set xs)"
proof -
  have "lnext h x \<in> insert l (set xs) \<and> lpre h x \<in> insert l (set xs)"
  proof (cases "x = l")
    case True
    then show ?thesis using assms seg_links [of h l xs l] by (auto simp: dlist_def)
  next
    case False
    then obtain ys zs where "xs = ys @ x # zs" using assms(2) by (meson insertE split_list)
    then show ?thesis using assms seg_links [of h l ys x] seg_links [of h x zs l]
      by (auto simp: dlist_def seg_append)
  qed
  then show "lnext h x \<in> insert l (set xs)" "lpre h x \<in> insert l (set xs)" by simp_all
qed

definition separate :: "addr \<Rightarrow> addr list \<Rightarrow> addr \<Rightarrow> addr list \<Rightarrow> bool" where
  "separate l xs k ys \<longleftrightarrow> set (l # xs) \<inter> set (k # ys) = {}"

lemma dlist_frame:
  assumes "dlist h k ys" "\<forall>p \<in> set (k # ys). lnext h' p = lnext h p \<and> lpre h' p = lpre h p"
  shows "dlist h' k ys"
proof -
  have "seg h' a ys k" if "seg h a ys k" "\<forall>p \<in> set (a # k # ys). lnext h' p = lnext h p \<and> lpre h' p = lpre h p"
    for a using that by (induction ys arbitrary: a) auto
  then show ?thesis using assms by (auto simp: dlist_def)
qed

lemma dlist_add_frame:
  assumes "dlist h l xs" "dlist h k ys" "separate k ys l (n # xs)"
  shows "dlist (list_add h l n) k ys"
  using assms(2)
proof (rule dlist_frame)
  have "lnext h l \<in> insert l (set xs)" using dlist_links(1) [OF assms(1)] by simp
  then show "\<forall>p \<in> set (k # ys). lnext (list_add h l n) p = lnext h p \<and> lpre (list_add h l n) p = lpre h p"
    using assms(3) unfolding separate_def by (auto simp: list_add_def Let_def)
qed

lemma dlist_add_tail_frame:
  assumes "dlist h l xs" "dlist h k ys" "separate k ys l (n # xs)"
  shows "dlist (list_add_tail h l n) k ys"
  using assms(2)
proof (rule dlist_frame)
  have "lpre h l \<in> insert l (set xs)" using dlist_links(2) [OF assms(1)] by simp
  then show "\<forall>p \<in> set (k # ys). lnext (list_add_tail h l n) p = lnext h p \<and> lpre (list_add_tail h l n) p = lpre h p"
    using assms(3) unfolding separate_def by (auto simp: list_add_tail_def Let_def)
qed

lemma dlist_del_frame:
  assumes "dlist h l xs" "x \<in> set xs" "dlist h k ys" "separate k ys l xs"
  shows "dlist (list_del h x) k ys"
  using assms(3)
proof (rule dlist_frame)
  have "lnext h x \<in> insert l (set xs)" "lpre h x \<in> insert l (set xs)"
    using dlist_links [OF assms(1)] assms(2) by simp_all
  then show "\<forall>p \<in> set (k # ys). lnext (list_del h x) p = lnext h p \<and> lpre (list_del h x) p = lpre h p"
    using assms(4) unfolding separate_def by (auto simp: list_del_def Let_def)
qed

section \<open>The list interface\<close>

text \<open>
  What the users of list.h rely on: the operations act on the sequence of nodes
  as their names say, and on no other list.
\<close>

locale linked_list =
  fixes rep :: "'h \<Rightarrow> 'a \<Rightarrow> 'a list \<Rightarrow> bool"
    and add :: "'h \<Rightarrow> 'a \<Rightarrow> 'a \<Rightarrow> 'h"
    and add_tail :: "'h \<Rightarrow> 'a \<Rightarrow> 'a \<Rightarrow> 'h"
    and del :: "'h \<Rightarrow> 'a \<Rightarrow> 'h"
  assumes rep_distinct: "rep h l xs \<Longrightarrow> distinct (l # xs)"
    and add_rep: "rep h l xs \<Longrightarrow> n \<notin> set (l # xs) \<Longrightarrow> rep (add h l n) l (n # xs)"
    and add_tail_rep: "rep h l xs \<Longrightarrow> n \<notin> set (l # xs) \<Longrightarrow> rep (add_tail h l n) l (xs @ [n])"
    and del_rep: "rep h l (xs @ x # ys) \<Longrightarrow> rep (del h x) l (xs @ ys)"
    and add_frame: "rep h l xs \<Longrightarrow> rep h k ys \<Longrightarrow> set (k # ys) \<inter> set (l # n # xs) = {}
                      \<Longrightarrow> rep (add h l n) k ys"
    and add_tail_frame: "rep h l xs \<Longrightarrow> rep h k ys \<Longrightarrow> set (k # ys) \<inter> set (l # n # xs) = {}
                           \<Longrightarrow> rep (add_tail h l n) k ys"
    and del_frame: "rep h l xs \<Longrightarrow> x \<in> set xs \<Longrightarrow> rep h k ys \<Longrightarrow> set (k # ys) \<inter> set (l # xs) = {}
                      \<Longrightarrow> rep (del h x) k ys"
begin

lemma move_tail:
  assumes "rep h l (xs @ x # ys)" "rep h k zs" "set (k # zs) \<inter> set (l # xs @ x # ys) = {}"
  shows "rep (add_tail (del h x) k x) l (xs @ ys) \<and> rep (add_tail (del h x) k x) k (zs @ [x])"
proof -
  have l: "rep (del h x) l (xs @ ys)" by (rule del_rep [OF assms(1)])
  have k: "rep (del h x) k zs" using del_frame [OF assms(1) _ assms(2,3)] by simp
  have "set (l # xs @ ys) \<inter> set (k # x # zs) = {}"
    using assms(3) rep_distinct [OF assms(1)] by auto
  moreover have "x \<notin> set (k # zs)" using assms(3) by auto
  ultimately show ?thesis using add_tail_frame [OF k l] add_tail_rep [OF k] by blast
qed

lemma rotate:
  assumes "rep h l (x # xs)" "n \<notin> set (l # x # xs)"
  shows "rep (del (add_tail h l n) x) l (xs @ [n])"
  using add_tail_rep [OF assms] del_rep [of "add_tail h l n" l "[]" x "xs @ [n]"] by simp

lemma drain: "rep h l (xs @ ys) \<Longrightarrow> rep (foldl del h xs) l ys"
proof (induction xs arbitrary: h)
  case (Cons x xs)
  then show ?case using del_rep [of h l "[]" x "xs @ ys"] by simp
qed simp

lemma fill: "rep h l [] \<Longrightarrow> distinct ns \<Longrightarrow> l \<notin> set ns \<Longrightarrow> rep (foldl (\<lambda>h. add_tail h l) h ns) l ns"
proof (induction ns rule: rev_induct)
  case (snoc n ns)
  then show ?case by (auto intro!: add_tail_rep)
qed simp

end

interpretation klist: linked_list dlist list_add list_add_tail list_del
proof unfold_locales
  fix h l xs n k ys x
  show "distinct (l # xs)" if "dlist h l xs" using that by (simp add: dlist_def)
  show "dlist (list_add h l n) l (n # xs)" if "dlist h l xs" "n \<notin> set (l # xs)"
    using dlist_add that by simp
  show "dlist (list_add_tail h l n) l (xs @ [n])" if "dlist h l xs" "n \<notin> set (l # xs)"
    using dlist_add_tail that by simp
  show "dlist (list_del h x) l (xs @ ys)" if "dlist h l (xs @ x # ys)"
    using dlist_del that by simp
  show "dlist (list_add h l n) k ys"
    if "dlist h l xs" "dlist h k ys" "set (k # ys) \<inter> set (l # n # xs) = {}"
    using dlist_add_frame that by (simp add: separate_def)
  show "dlist (list_add_tail h l n) k ys"
    if "dlist h l xs" "dlist h k ys" "set (k # ys) \<inter> set (l # n # xs) = {}"
    using dlist_add_tail_frame that by (simp add: separate_def)
  show "dlist (list_del h x) k ys"
    if "dlist h l xs" "x \<in> set xs" "dlist h k ys" "set (k # ys) \<inter> set (l # xs) = {}"
    using dlist_del_frame that by (simp add: separate_def)
qed

section \<open>Properties\<close>



text \<open>
  C28.  \<open>list_for_each\<close> over a well-formed list ends, and visits every node once, in
  list order.
\<close>

theorem list_for_each_visits:
  assumes "dlist h l xs"
  shows "list_for_each h l = Some xs \<and> distinct xs"
  using assms for_each_from_seg [of h l xs l] by (auto simp: list_for_each_def dlist_def)

theorem list_for_each_visits_witness:
  "list_for_each (list_add (init_list \<lparr>lnext = (\<lambda>_. 0), lpre = (\<lambda>_. 0)\<rparr> 8) 8 16) 8 = Some [16]"
  using list_for_each_visits [OF dlist_add [OF dlist_init [of _ 8], of 16]] by simp

end
