(* ===== verification/Mm.thy ===== *)
theory Mm
  imports Bitops Klist
begin

text \<open>
  mm/mm.c at run time: the page allocator.  A bank holds four zones of at most four
  sections; a section has a bitmap in word memory and a table of page descriptors.
  Page descriptors and list links are kept per type, at the addresses the kernel
  gives them (a descriptor is 28 bytes, its list node at offset 12), so two
  sections whose bitmaps overlap share words here too.  A section is named by its
  zone and index.  The zone mutex is taken and released on every path of an
  operation, so an operation is one atomic step and the mutex is not represented.

  \<^const>\<open>None\<close> is a call that does not return or that reads through a null pointer or
  past the section table.
\<close>

section \<open>State\<close>

abbreviation (input) GFP_KERNEL :: u32 where "GFP_KERNEL \<equiv> 0x00000001"
abbreviation (input) GFP_DMA :: u32 where "GFP_DMA \<equiv> 0x00000002"
abbreviation (input) GFP_RES :: u32 where "GFP_RES \<equiv> 0x00000004"
abbreviation (input) GFP_USER :: u32 where "GFP_USER \<equiv> 0x00000008"
abbreviation (input) GFP_ZONE_ID_MASK :: u32 where "GFP_ZONE_ID_MASK \<equiv> 0x000000ff"
abbreviation (input) GFP_PAGE_HEADER :: u32 where "GFP_PAGE_HEADER \<equiv> 0x00010000"
abbreviation (input) MM_ZONE_KERNEL :: int where "MM_ZONE_KERNEL \<equiv> 0"
abbreviation (input) MM_ZONE_RES :: int where "MM_ZONE_RES \<equiv> 2"
abbreviation (input) MM_ZONE_USER :: int where "MM_ZONE_USER \<equiv> 3"
abbreviation (input) MM_ZONE_UNKNOWN :: int where "MM_ZONE_UNKNOWN \<equiv> 4"
abbreviation (input) PAGE_STRUCT :: u32 where "PAGE_STRUCT \<equiv> 28"
abbreviation (input) PLIST :: u32 where "PLIST \<equiv> 12"

record page =
  phy_address :: u32
  map_address :: u32
  flag :: u32
  pg_count :: u16
  pinfo :: u16
  pdata :: u32

record mm_section =
  phy_start :: u32
  vir_start :: u32
  sec_size :: int
  nr_page :: int
  pv_offset :: int
  maped_size :: int
  bm_end :: u32
  bm_current :: u32
  nr_free_pages :: int
  bitmap :: addr
  section_table_id :: int
  page_table :: addr

record mm_zone =
  memory_section :: "mm_section list"
  nr_section :: int
  zone_maped_size :: int
  map_base :: u32
  page_num :: int
  zone_nr_free_pages :: int

record mm_bank =
  total_size :: u32
  total_page :: u32
  zone :: "mm_zone list"

type_synonym sref = "nat \<times> nat"

record mm_state =
  bank :: mm_bank
  section_table :: "sref option list"
  words :: word_mem
  pages :: "addr \<Rightarrow> page"
  links :: list_heap

definition section_of :: "mm_state \<Rightarrow> sref \<Rightarrow> mm_section" where
  "section_of st r = memory_section (zone (bank st) ! fst r) ! snd r"

definition upd_zone :: "nat \<Rightarrow> (mm_zone \<Rightarrow> mm_zone) \<Rightarrow> mm_state \<Rightarrow> mm_state" where
  "upd_zone z f st = st\<lparr>bank := (bank st)\<lparr>zone := (zone (bank st))[z := f (zone (bank st) ! z)]\<rparr>\<rparr>"

definition upd_section :: "sref \<Rightarrow> (mm_section \<Rightarrow> mm_section) \<Rightarrow> mm_state \<Rightarrow> mm_state" where
  "upd_section r f st =
     upd_zone (fst r) (\<lambda>z. z\<lparr>memory_section := (memory_section z)[snd r := f (memory_section z ! snd r)]\<rparr>) st"

section \<open>Addresses and pages\<close>

text \<open>
  The scan of the section table up to its null entry.  The outer \<^const>\<open>None\<close> is a
  table without one.
\<close>

fun scan_sections :: "(mm_section \<Rightarrow> bool) \<Rightarrow> mm_state \<Rightarrow> sref option list \<Rightarrow> sref option option" where
  "scan_sections p st [] = None"
| "scan_sections p st (None # rs) = Some None"
| "scan_sections p st (Some r # rs) =
     (if p (section_of st r) then Some (Some r) else scan_sections p st rs)"

definition va_get_section :: "mm_state \<Rightarrow> u32 \<Rightarrow> sref option option" where
  "va_get_section st va =
     scan_sections (\<lambda>s. va \<ge> vir_start s \<and> va < vir_start s + word_of_int (sec_size s)) st (section_table st)"

definition pa_get_section :: "mm_state \<Rightarrow> u32 \<Rightarrow> sref option option" where
  "pa_get_section st pa =
     scan_sections (\<lambda>s. pa \<ge> phy_start s \<and> pa < phy_start s + word_of_int (sec_size s)) st (section_table st)"

text \<open>The index is eight bits of the descriptor; the table has thirteen entries.\<close>

definition page_get_section :: "mm_state \<Rightarrow> addr \<Rightarrow> sref option option" where
  "page_get_section st pg =
     (let i = unat (phy_address (pages st pg) AND 0xff) in
      if i < length (section_table st) then Some (section_table st ! i) else None)"

definition section_page_id :: "u32 \<Rightarrow> u32 \<Rightarrow> u32" where
  "section_page_id va base = drop_bit 12 (va - base)"

definition section_va_to_page :: "mm_section \<Rightarrow> u32 \<Rightarrow> addr" where
  "section_va_to_page s va = page_table s + PAGE_STRUCT * section_page_id va (vir_start s)"

definition section_pa_to_page :: "mm_section \<Rightarrow> u32 \<Rightarrow> addr" where
  "section_pa_to_page s pa = page_table s + PAGE_STRUCT * section_page_id pa (phy_start s)"

text \<open>The null page is the address 0.\<close>

definition va_to_page :: "mm_state \<Rightarrow> u32 \<Rightarrow> addr option" where
  "va_to_page st va =
     map_option (\<lambda>r. case r of Some r \<Rightarrow> section_va_to_page (section_of st r) va | None \<Rightarrow> 0) (va_get_section st va)"

definition page_to_va :: "mm_state \<Rightarrow> addr \<Rightarrow> u32" where
  "page_to_va st pg = map_address (pages st pg) AND 0xfffff000"

definition page_to_pa :: "mm_state \<Rightarrow> addr \<Rightarrow> u32" where
  "page_to_pa st pg = phy_address (pages st pg) AND 0xffffff00"

definition pa_to_page :: "mm_state \<Rightarrow> u32 \<Rightarrow> addr option" where
  "pa_to_page st pa =
     map_option (\<lambda>r. case r of Some r \<Rightarrow> section_pa_to_page (section_of st r) pa | None \<Rightarrow> 0) (pa_get_section st pa)"

definition va_to_pa :: "mm_state \<Rightarrow> u32 \<Rightarrow> u32 option" where
  "va_to_pa st va = Option.bind (va_to_page st va) (\<lambda>pg. if pg = 0 then None else Some (page_to_pa st pg))"

section \<open>Allocation\<close>

text \<open>
  One iteration of the loop of \<open>init_pages\<close> clears and fills one descriptor; the
  first has the run length and the header flag, the others neither.
\<close>

fun init_pages_loop ::
  "nat \<Rightarrow> int \<Rightarrow> u32 \<Rightarrow> int \<Rightarrow> int \<Rightarrow> u32 \<Rightarrow> addr \<Rightarrow> int \<Rightarrow> u32 \<Rightarrow> u32 \<Rightarrow> mm_state \<Rightarrow> mm_state" where
  "init_pages_loop 0 sid va page_size i pa pg nr flag_temp fl st = st"
| "init_pages_loop (Suc n) sid va page_size i pa pg nr flag_temp fl st =
     init_pages_loop n sid va page_size (i + 1) (pa + 4096) (pg + PAGE_STRUCT) 0 fl fl
       (st\<lparr>pages := (pages st)(pg :=
              \<lparr>phy_address = pa OR word_of_int sid, map_address = va + word_of_int (i * page_size),
               flag = flag_temp, pg_count = word_of_int nr, pinfo = 0, pdata = 0\<rparr>),
           links := init_list (links st) (pg + PLIST)\<rparr>)"

definition init_pages :: "mm_section \<Rightarrow> int \<Rightarrow> int \<Rightarrow> u32 \<Rightarrow> mm_state \<Rightarrow> mm_state" where
  "init_pages s index count fl st =
     (let va = vir_start s + word_of_int (push_bit 12 index);
          pa = phy_start s + word_of_int (push_bit 12 index);
          pg = page_table s + PAGE_STRUCT * word_of_int index;
          user = (fl AND GFP_USER \<noteq> 0)
      in init_pages_loop (nat count) (section_table_id s) (if user then 0 else va) (if user then 0 else 4096)
           0 pa pg count (fl OR GFP_PAGE_HEADER) fl st)"

text \<open>The loop bound is unsigned; the index of the loop is an \<open>int\<close>.\<close>

definition bitmap_range :: "u32 \<Rightarrow> int \<Rightarrow> int list" where
  "bitmap_range index count =
     (if index < index + word_of_int count then [uint index..uint (index + word_of_int count) - 1] else [])"

definition update_memory_bitmap :: "addr \<Rightarrow> u32 \<Rightarrow> int \<Rightarrow> bool \<Rightarrow> word_mem \<Rightarrow> word_mem" where
  "update_memory_bitmap bm index count update m =
     (if update then foldl (\<lambda>m i. set_bit m bm i) m (bitmap_range index count)
      else foldl (\<lambda>m i. clear_bit m bm i) m (bitmap_range index count))"

definition get_free_pages_from_section ::
  "sref \<Rightarrow> int \<Rightarrow> u32 \<Rightarrow> bool \<Rightarrow> mm_state \<Rightarrow> (u32 \<times> mm_state) option" where
  "get_free_pages_from_section r count fl vp st =
     (let s = section_of st r in
      Option.bind (bitmap_find_free_base (words st) (bitmap s) (sint (bm_current s)) 0 (nr_page s) count) (\<lambda>index.
        if index < 0 then Some (0, st)
        else
          let st = st\<lparr>words := update_memory_bitmap (bitmap s) (word_of_int index) count True (words st)\<rparr>;
              cur = word_of_int (index + count);
              st = upd_section r (\<lambda>s. s\<lparr>bm_current := if cur \<ge> bm_end s then 0 else cur,
                                        nr_free_pages := nr_free_pages s - count\<rparr>) st;
              st = init_pages s index count fl st
          in Some (if vp then vir_start s + word_of_int (push_bit 12 index)
                   else page_table s + PAGE_STRUCT * word_of_int index, st)))"

fun zone_sections_loop ::
  "nat \<Rightarrow> nat list \<Rightarrow> int \<Rightarrow> u32 \<Rightarrow> bool \<Rightarrow> mm_state \<Rightarrow> (u32 \<times> mm_state) option" where
  "zone_sections_loop z [] count fl vp st = Some (0, st)"
| "zone_sections_loop z (i # is) count fl vp st =
     (let s = section_of st (z, i) in
      if sec_size s = 0 \<or> nr_free_pages s < count then zone_sections_loop z is count fl vp st
      else Option.bind (get_free_pages_from_section (z, i) count fl vp st) (\<lambda>(ret, st).
        if ret \<noteq> 0 then Some (ret, st) else zone_sections_loop z is count fl vp st))"

definition get_free_pages_from_zone ::
  "nat \<Rightarrow> int \<Rightarrow> u32 \<Rightarrow> bool \<Rightarrow> mm_state \<Rightarrow> (u32 \<times> mm_state) option" where
  "get_free_pages_from_zone z count fl vp st =
     (if zone_nr_free_pages (zone (bank st) ! z) < count then Some (0, st)
      else Option.bind (zone_sections_loop z [0, 1, 2, 3] count fl vp st) (\<lambda>(ret, st).
        if ret = 0 then Some (0, st)
        else Some (ret, upd_zone z (\<lambda>z. z\<lparr>zone_nr_free_pages := zone_nr_free_pages z - count\<rparr>) st)))"

partial_function (option) zone_id_loop :: "u32 \<Rightarrow> int \<Rightarrow> int option" where
  "zone_id_loop fl i = (if fl \<noteq> 1 then zone_id_loop (drop_bit 1 fl) (i + 1) else Some i)"

definition get_zone_id :: "u32 \<Rightarrow> int option" where
  "get_zone_id fl = zone_id_loop (fl AND GFP_ZONE_ID_MASK) 0"

partial_function (option) get_pages_loop ::
  "int \<Rightarrow> int \<Rightarrow> u32 \<Rightarrow> bool \<Rightarrow> mm_state \<Rightarrow> (u32 \<times> mm_state) option" where
  "get_pages_loop zid count fl vp st =
     Option.bind (get_free_pages_from_zone (nat zid) count fl vp st) (\<lambda>(ret, st).
       if ret \<noteq> 0 then Some (ret, st)
       else let zid = (if zid = MM_ZONE_USER then MM_ZONE_KERNEL - 1 else zid) in
         if zid = MM_ZONE_RES then Some (ret, st) else get_pages_loop (zid + 1) count fl vp st)"

definition get_free_pages_internal :: "int \<Rightarrow> u32 \<Rightarrow> bool \<Rightarrow> mm_state \<Rightarrow> (u32 \<times> mm_state) option" where
  "get_free_pages_internal count fl vp st =
     Option.bind (get_zone_id fl) (\<lambda>zid.
       if zid \<ge> MM_ZONE_UNKNOWN then Some (0, st) else get_pages_loop zid count fl vp st)"

definition request_pages :: "int \<Rightarrow> u32 \<Rightarrow> mm_state \<Rightarrow> (addr \<times> mm_state) option" where
  "request_pages count fl st = (if count < 0 then Some (0, st) else get_free_pages_internal count fl False st)"

definition get_free_pages :: "int \<Rightarrow> u32 \<Rightarrow> mm_state \<Rightarrow> (u32 \<times> mm_state) option" where
  "get_free_pages count fl st =
     (if count \<le> 0 \<or> fl AND GFP_USER \<noteq> 0 then Some (0, st) else get_free_pages_internal count fl True st)"

section \<open>Release\<close>

text \<open>The loop has no lower bound on \<open>start\<close>.\<close>

partial_function (option) bm_back_loop :: "word_mem \<Rightarrow> addr \<Rightarrow> int \<Rightarrow> int \<Rightarrow> int option" where
  "bm_back_loop m bm start count =
     (if read_bit m bm start = 0 then bm_back_loop m bm (start - 1) (count + 1) else Some count)"

definition update_bm_current :: "sref \<Rightarrow> mm_state \<Rightarrow> mm_state option" where
  "update_bm_current r st =
     (let s = section_of st r in
      if bm_current s = 0 then Some st
      else Option.bind (bm_back_loop (words st) (bitmap s) (sint (bm_current s - 1)) 0) (\<lambda>count.
        Some (upd_section r (\<lambda>s. s\<lparr>bm_current := bm_current s - word_of_int count\<rparr>) st)))"

text \<open>\<open>__free_pages\<close>: the index is a difference of descriptor pointers.\<close>

definition free_section_pages :: "sref \<Rightarrow> addr \<Rightarrow> mm_state \<Rightarrow> mm_state option" where
  "free_section_pages r pg st =
     (let s = section_of st r;
          index = sint (pg - page_table s) div 28;
          count = uint (pg_count (pages st pg))
      in update_bm_current r
           (st\<lparr>words := update_memory_bitmap (bitmap s) (word_of_int index) count False (words st)\<rparr>))"

text \<open>\<open>_free_pages\<close>; a zone number outside of the bank is outside of the array.\<close>

definition free_pages_internal :: "sref option \<Rightarrow> addr \<Rightarrow> mm_state \<Rightarrow> mm_state option" where
  "free_pages_internal sr pg st =
     (case sr of
        None \<Rightarrow> Some st
      | Some r \<Rightarrow>
          if pg = 0 \<or> flag (pages st pg) AND GFP_PAGE_HEADER = 0 then Some st
          else Option.bind (get_zone_id (flag (pages st pg))) (\<lambda>zid.
            if zid \<ge> MM_ZONE_UNKNOWN then None
            else free_section_pages r pg
                   (upd_zone (nat zid) (\<lambda>z. z\<lparr>zone_nr_free_pages :=
                      zone_nr_free_pages z + uint (pg_count (pages st pg))\<rparr>) st)))"

definition free_pages :: "u32 \<Rightarrow> mm_state \<Rightarrow> mm_state option" where
  "free_pages a st =
     (if \<not> is_align a 4096 then Some st
      else Option.bind (va_get_section st a) (\<lambda>sr.
        case sr of
          None \<Rightarrow> None
        | Some r \<Rightarrow> free_pages_internal (Some r) (section_va_to_page (section_of st r) a) st))"

definition release_page :: "addr \<Rightarrow> mm_state \<Rightarrow> mm_state option" where
  "release_page pg st =
     (if pg = 0 then Some st
      else Option.bind (page_get_section st pg) (\<lambda>sr. free_pages_internal sr pg st))"

section \<open>Aligned and matching pages\<close>

definition all_free :: "word_mem \<Rightarrow> addr \<Rightarrow> int \<Rightarrow> int \<Rightarrow> bool" where
  "all_free m bm pid nr \<longleftrightarrow> (\<forall>i \<in> set [0..nr - 1]. read_bit m bm (pid + i) = 0)"

text \<open>The loops over \<open>base\<close>: the number of the page found, or -1.\<close>

partial_function (option) find_align_loop :: "word_mem \<Rightarrow> mm_section \<Rightarrow> u32 \<Rightarrow> int \<Rightarrow> u32 \<Rightarrow> int option" where
  "find_align_loop m s al nr base =
     (if base < vir_start s + word_of_int (sec_size s) then
        let pid = sint (section_page_id base (vir_start s)) in
        if all_free m (bitmap s) pid nr then Some pid else find_align_loop m s al nr (base + al)
      else Some (- 1))"

partial_function (option) find_match_loop :: "word_mem \<Rightarrow> mm_section \<Rightarrow> u32 \<Rightarrow> u32 \<Rightarrow> int option" where
  "find_match_loop m s al base =
     (if base < vir_start s + word_of_int (push_bit 12 (nr_page s)) then
        let pid = sint (section_page_id base (vir_start s) + al) in
        if read_bit m (bitmap s) pid = 0 then Some pid else find_match_loop m s al (base + al)
      else Some (- 1))"

definition take_pages :: "sref \<Rightarrow> int \<Rightarrow> int \<Rightarrow> u32 \<Rightarrow> mm_state \<Rightarrow> addr \<times> mm_state" where
  "take_pages r pid nr fl st =
     (let s = section_of st r in
      if pid \<noteq> - 1 then
        (page_table s + PAGE_STRUCT * word_of_int pid,
         init_pages s pid nr fl
           (st\<lparr>words := update_memory_bitmap (bitmap s) (word_of_int pid) nr True (words st)\<rparr>))
      else (0, st))"

definition find_align_page :: "sref \<Rightarrow> u32 \<Rightarrow> int \<Rightarrow> u32 \<Rightarrow> mm_state \<Rightarrow> (addr \<times> mm_state) option" where
  "find_align_page r al nr fl st =
     (let s = section_of st r;
          base = min_align (vir_start s + push_bit 12 (bm_current s)) al in
      Option.bind (find_align_loop (words st) s al nr base) (\<lambda>pid. Some (take_pages r pid nr fl st)))"

definition find_match_page :: "sref \<Rightarrow> u32 \<Rightarrow> int \<Rightarrow> u32 \<Rightarrow> mm_state \<Rightarrow> (addr \<times> mm_state) option" where
  "find_match_page r al nr fl st =
     (let s = section_of st r in
      Option.bind (find_match_loop (words st) s al (vir_start s)) (\<lambda>pid. Some (take_pages r pid nr fl st)))"

fun special_loop :: "nat list \<Rightarrow> int \<Rightarrow> u32 \<Rightarrow> u32 \<Rightarrow> bool \<Rightarrow> mm_state \<Rightarrow> (addr \<times> mm_state) option" where
  "special_loop [] nr al fl match st = Some (0, st)"
| "special_loop (i # is) nr al fl match st =
     Option.bind (if match then find_match_page (0, i) al nr fl st else find_align_page (0, i) al nr fl st)
       (\<lambda>(pg, st). if pg \<noteq> 0 then Some (pg, st) else special_loop is nr al fl match st)"

text \<open>The zone is indexed with \<open>i\<close>, which is 0 here: the kernel zone whatever the flags.\<close>

definition request_special_pages :: "int \<Rightarrow> u32 \<Rightarrow> u32 \<Rightarrow> bool \<Rightarrow> mm_state \<Rightarrow> (addr \<times> mm_state) option" where
  "request_special_pages nr al fl match st =
     (if \<not> is_align al 4096 then Some (0, st)
      else Option.bind (get_zone_id fl) (\<lambda>zid.
        if zid \<ge> MM_ZONE_UNKNOWN then Some (0, st)
        else
          let al = (if match then drop_bit 12 (al AND 0x000fffff) else al) in
          Option.bind (special_loop [0..<nat (nr_section (zone (bank st) ! 0))] nr al fl match st) (\<lambda>(pg, st).
            if pg \<noteq> 0
            then Some (pg, upd_zone 0 (\<lambda>z. z\<lparr>zone_nr_free_pages := zone_nr_free_pages z - nr\<rparr>) st)
            else Some (0, st))))"

definition get_free_pages_align :: "int \<Rightarrow> u32 \<Rightarrow> u32 \<Rightarrow> mm_state \<Rightarrow> (addr \<times> mm_state) option" where
  "get_free_pages_align nr al fl st = request_special_pages nr al fl False st"

definition get_free_page_match :: "u32 \<Rightarrow> u32 \<Rightarrow> mm_state \<Rightarrow> (addr \<times> mm_state) option" where
  "get_free_page_match match fl st = request_special_pages 1 match fl True st"

section \<open>Pages on lists\<close>

definition add_page_to_list_tail :: "addr \<Rightarrow> addr \<Rightarrow> mm_state \<Rightarrow> mm_state" where
  "add_page_to_list_tail pg head st = st\<lparr>links := list_add_tail (links st) head (pg + PLIST)\<rparr>"

definition del_page_from_list :: "addr \<Rightarrow> mm_state \<Rightarrow> mm_state" where
  "del_page_from_list pg st = st\<lparr>links := list_del (links st) (pg + PLIST)\<rparr>"

definition list_to_page :: "addr \<Rightarrow> addr" where
  "list_to_page l = l - PLIST"

partial_function (option) free_list_loop :: "addr \<Rightarrow> addr \<Rightarrow> mm_state \<Rightarrow> mm_state option" where
  "free_list_loop head l st =
     (if l = head then Some st
      else Option.bind (release_page (list_to_page l) st) (\<lambda>st. free_list_loop head (lnext (links st) l) st))"

definition free_pages_on_list :: "addr \<Rightarrow> mm_state \<Rightarrow> mm_state option" where
  "free_pages_on_list head st = free_list_loop head (lnext (links st) head) st"

definition page_set_map_address :: "addr \<Rightarrow> u32 \<Rightarrow> mm_state \<Rightarrow> mm_state" where
  "page_set_map_address pg a st = st\<lparr>pages := (pages st)(pg := (pages st pg)\<lparr>map_address := a\<rparr>)\<rparr>"

definition page_get_map_address :: "addr \<Rightarrow> mm_state \<Rightarrow> u32" where
  "page_get_map_address pg st = map_address (pages st pg)"

definition page_set_pdata :: "addr \<Rightarrow> u32 \<Rightarrow> mm_state \<Rightarrow> mm_state" where
  "page_set_pdata pg d st = st\<lparr>pages := (pages st)(pg := (pages st pg)\<lparr>pdata := d\<rparr>)\<rparr>"

definition page_get_pdata :: "addr \<Rightarrow> mm_state \<Rightarrow> u32" where
  "page_get_pdata pg st = pdata (pages st pg)"

section \<open>Access to sections and zones\<close>

definition sref_ok :: "mm_state \<Rightarrow> sref \<Rightarrow> bool" where
  "sref_ok st r \<longleftrightarrow> fst r < length (zone (bank st)) \<and> snd r < length (memory_section (zone (bank st) ! fst r))"

lemma section_of_upd_section [simp]:
  "sref_ok st r \<Longrightarrow> section_of (upd_section r f st) q = (if q = r then f (section_of st r) else section_of st q)"
  by (cases r; cases q) (auto simp: section_of_def upd_section_def upd_zone_def sref_ok_def nth_list_update)

lemma section_of_upd_zone [simp]:
  "(\<And>z. memory_section (f z) = memory_section z) \<Longrightarrow> section_of (upd_zone z f st) q = section_of st q"
  by (cases q) (auto simp: section_of_def upd_zone_def nth_list_update_any)

lemma sref_ok_upd [simp]:
  "sref_ok (upd_section r f st) q = sref_ok st q"
  "(\<And>z. memory_section (f' z) = memory_section z) \<Longrightarrow> sref_ok (upd_zone k f' st) q = sref_ok st q"
  by (auto simp: sref_ok_def upd_section_def upd_zone_def nth_list_update_any split: if_splits)

lemma upd_frame [simp]:
  "words (upd_section r f st) = words st" "pages (upd_section r f st) = pages st"
  "links (upd_section r f st) = links st" "section_table (upd_section r f st) = section_table st"
  "words (upd_zone z g st) = words st" "pages (upd_zone z g st) = pages st"
  "links (upd_zone z g st) = links st" "section_table (upd_zone z g st) = section_table st"
  by (simp_all add: upd_section_def upd_zone_def)

lemma zone_upd_section [simp]:
  "zone_nr_free_pages (zone (bank (upd_section r f st)) ! k) = zone_nr_free_pages (zone (bank st) ! k)"
  "length (zone (bank (upd_section r f st))) = length (zone (bank st))"
  by (auto simp: upd_section_def upd_zone_def nth_list_update_any)

lemma zone_upd_zone [simp]:
  "z < length (zone (bank st)) \<Longrightarrow> zone (bank (upd_zone z g st)) ! k = (if k = z then g (zone (bank st) ! z) else zone (bank st) ! k)"
  "length (zone (bank (upd_zone z g st))) = length (zone (bank st))"
  by (auto simp: upd_zone_def nth_list_update)

lemma section_of_words [simp]: "section_of (st\<lparr>words := w\<rparr>) r = section_of st r" "sref_ok (st\<lparr>words := w\<rparr>) r = sref_ok st r"
  by (simp_all add: section_of_def sref_ok_def)

section \<open>Bitmaps of sections\<close>

lemma bitmap_range_eq:
  assumes "0 \<le> index" "0 \<le> count" "index + count < 2 ^ 31"
  shows "bitmap_range (word_of_int index) count = [index..index + count - 1]"
proof -
  have "uint (word_of_int index + word_of_int count :: u32) = index + count"
    using assms uint_word_of_int_u32 [of "index + count"] by simp
  moreover have "uint (word_of_int index :: u32) = index" using assms by (intro uint_word_of_int_u32) auto
  ultimately show ?thesis using assms by (simp add: bitmap_range_def word_less_def)
qed

lemma update_memory_bitmap_read:
  assumes "bm \<noteq> 0" "0 \<le> index" "0 \<le> count" "index + count < 2 ^ 31" "bit_index k"
  shows "read_bit (update_memory_bitmap bm (word_of_int index) count upd m) bm k
    = (if index \<le> k \<and> k < index + count then of_bool upd else read_bit m bm k)"
proof -
  have ok: "\<forall>n \<in> set [index..index + count - 1]. bitmap_ok bm n" "bitmap_ok bm k"
    using assms by (auto simp: bitmap_ok_def)
  show ?thesis
    using bits.rd_st_all [OF ok, of m] bits.rd_cl_all [OF ok, of m] bitmap_range_eq [OF assms(2-4)]
    by (cases upd) (auto simp: update_memory_bitmap_def)
qed

section \<open>Page descriptors\<close>

lemma init_pages_loop_frame [simp]:
  "words (init_pages_loop n sid va ps i pa pg nr ft fl st) = words st"
  "bank (init_pages_loop n sid va ps i pa pg nr ft fl st) = bank st"
  "section_table (init_pages_loop n sid va ps i pa pg nr ft fl st) = section_table st"
  by (induction n arbitrary: i pa pg nr ft st) simp_all

lemma init_pages_frame [simp]:
  "words (init_pages s index count fl st) = words st"
  "bank (init_pages s index count fl st) = bank st"
  "section_table (init_pages s index count fl st) = section_table st"
  by (simp_all add: init_pages_def Let_def)

lemma page_slot_inj:
  fixes pg :: addr
  assumes "i < 2 ^ 20" "j < 2 ^ 20" "pg + 28 * word_of_nat i = pg + 28 * word_of_nat j"
  shows "i = j"
proof -
  have r: "unat (28 * word_of_nat k :: u32) = 28 * k" if "k < 2 ^ 20" for k
  proof -
    have "28 * word_of_nat k = (word_of_nat (28 * k) :: u32)" by simp
    also have "unat \<dots> = 28 * k" using that by (intro unat_word_of_nat) simp
    finally show ?thesis .
  qed
  have "28 * word_of_nat i = (28 * word_of_nat j :: u32)" using assms(3) by simp
  then have "28 * i = 28 * j" using r [OF assms(1)] r [OF assms(2)] by metis
  then show ?thesis by simp
qed

definition page_desc :: "int \<Rightarrow> u32 \<Rightarrow> int \<Rightarrow> int \<Rightarrow> u32 \<Rightarrow> int \<Rightarrow> u32 \<Rightarrow> page" where
  "page_desc sid va ps i pa nr fl =
     \<lparr>phy_address = pa OR word_of_int sid, map_address = va + word_of_int (i * ps),
      flag = fl, pg_count = word_of_int nr, pinfo = 0, pdata = 0\<rparr>"

lemma init_pages_loop_pages:
  assumes "n < 2 ^ 20"
  shows "(\<forall>j < n. pages (init_pages_loop n sid va ps i pa pg nr ft fl st) (pg + 28 * word_of_nat j)
            = page_desc sid va ps (i + int j) (pa + 4096 * word_of_nat j) (if j = 0 then nr else 0) (if j = 0 then ft else fl))
      \<and> (\<forall>a. (\<forall>j < n. a \<noteq> pg + 28 * word_of_nat j) \<longrightarrow>
            pages (init_pages_loop n sid va ps i pa pg nr ft fl st) a = pages st a)"
  using assms
proof (induction n arbitrary: i pa pg nr ft st)
  case (Suc n)
  define st1 where "st1 = st\<lparr>pages := (pages st)(pg := page_desc sid va ps i pa nr ft), links := init_list (links st) (pg + 12)\<rparr>"
  define st2 where "st2 = init_pages_loop n sid va ps (i + 1) (pa + 4096) (pg + 28) 0 fl fl st1"
  have st2: "init_pages_loop (Suc n) sid va ps i pa pg nr ft fl st = st2"
    by (simp add: st1_def st2_def page_desc_def)
  have IH1: "pages st2 (pg + 28 + 28 * word_of_nat j)
      = page_desc sid va ps (i + 1 + int j) (pa + 4096 + 4096 * word_of_nat j) 0 fl" if "j < n" for j
    using Suc.IH [of "i + 1" "pa + 4096" "pg + 28" 0 fl st1] Suc.prems that unfolding st2_def by auto
  have IH2: "pages st2 a = pages st1 a" if "\<forall>j < n. a \<noteq> pg + 28 + 28 * word_of_nat j" for a
    using Suc.IH [of "i + 1" "pa + 4096" "pg + 28" 0 fl st1] Suc.prems that unfolding st2_def by auto
  have shift: "pg + 28 + 28 * word_of_nat j = pg + 28 * word_of_nat (Suc j)" for j by (simp add: algebra_simps)
  have "pg \<noteq> pg + 28 + 28 * word_of_nat j" if "j < n" for j
    using page_slot_inj [of 0 "Suc j" pg] that Suc.prems by (auto simp: shift)
  then have z: "pages st2 pg = page_desc sid va ps i pa nr ft" using IH2 [of pg] by (simp add: st1_def)
  have "pages st2 (pg + 28 * word_of_nat j) = page_desc sid va ps (i + int j) (pa + 4096 * word_of_nat j)
      (if j = 0 then nr else 0) (if j = 0 then ft else fl)" if "j < Suc n" for j
    using that z IH1 [of "j - 1"] by (cases j) (auto simp: algebra_simps)
  moreover have "pages st2 a = pages st a" if "\<forall>j < Suc n. a \<noteq> pg + 28 * word_of_nat j" for a
  proof -
    have "a \<noteq> pg" using that [rule_format, of 0] by simp
    moreover have "\<forall>j < n. a \<noteq> pg + 28 + 28 * word_of_nat j" using that by (auto simp: shift)
    ultimately show ?thesis using IH2 [of a] by (simp add: st1_def)
  qed
  ultimately show ?case unfolding st2 by blast
qed simp

section \<open>One allocation\<close>

text \<open>
  A section the allocator can work with: a bitmap, a sensible size, and a search
  position from which the search for a run returns.
\<close>

definition sec_ok :: "mm_section \<Rightarrow> bool" where
  "sec_ok s \<longleftrightarrow> bitmap s \<noteq> 0 \<and> 0 < nr_page s \<and> nr_page s < 2 ^ 20
     \<and> (bm_current s = 0 \<or> uint (bm_current s) < nr_page s - 1)"

definition pages_free :: "word_mem \<Rightarrow> mm_section \<Rightarrow> int \<Rightarrow> int \<Rightarrow> bool" where
  "pages_free m s index count \<longleftrightarrow>
     0 \<le> index \<and> index + count \<le> nr_page s \<and> (\<forall>k \<in> {index..<index + count}. read_bit m (bitmap s) k = 0)"

text \<open>
  What taking the pages from \<open>index\<close> on does: exactly their bits become 1, the
  section's counters move, the first descriptor is the header of the run.
\<close>

definition pages_taken :: "mm_state \<Rightarrow> sref \<Rightarrow> int \<Rightarrow> int \<Rightarrow> u32 \<Rightarrow> mm_state \<Rightarrow> bool" where
  "pages_taken st r index count fl st' \<longleftrightarrow>
     (let s = section_of st r; cur = word_of_int (index + count) in
      (\<forall>k. bit_index k \<longrightarrow> read_bit (words st') (bitmap s) k
             = (if index \<le> k \<and> k < index + count then 1 else read_bit (words st) (bitmap s) k))
      \<and> section_of st' r = s\<lparr>bm_current := if cur \<ge> bm_end s then 0 else cur,
                                nr_free_pages := nr_free_pages s - count\<rparr>
      \<and> (\<forall>q. q \<noteq> r \<longrightarrow> section_of st' q = section_of st q)
      \<and> (\<forall>z. zone_nr_free_pages (zone (bank st') ! z) = zone_nr_free_pages (zone (bank st) ! z))
      \<and> (\<forall>j < nat count. pages st' (page_table s + 28 * word_of_int index + 28 * word_of_nat j)
            = page_desc (section_table_id s)
                (if fl AND GFP_USER \<noteq> 0 then 0 else vir_start s + word_of_int (push_bit 12 index))
                (if fl AND GFP_USER \<noteq> 0 then 0 else 4096) (int j)
                (phy_start s + word_of_int (push_bit 12 index) + 4096 * word_of_nat j)
                (if j = 0 then count else 0) (if j = 0 then fl OR GFP_PAGE_HEADER else fl))
      \<and> section_table st' = section_table st
      \<and> (\<forall>q. sref_ok st' q = sref_ok st q) \<and> length (zone (bank st')) = length (zone (bank st)))"

definition page_result :: "mm_section \<Rightarrow> int \<Rightarrow> bool \<Rightarrow> u32" where
  "page_result s index vp =
     (if vp then vir_start s + word_of_int (push_bit 12 index) else page_table s + 28 * word_of_int index)"

lemma get_free_pages_from_section_found:
  assumes "sref_ok st r" "sec_ok (section_of st r)" "0 < count"
    and "bitmap_find_free_base (words st) (bitmap (section_of st r)) (sint (bm_current (section_of st r))) 0
           (nr_page (section_of st r)) count = Some index"
    and "pages_free (words st) (section_of st r) index count"
  shows "\<exists>st'. get_free_pages_from_section r count fl vp st = Some (page_result (section_of st r) index vp, st')
           \<and> pages_taken st r index count fl st'"
proof -
  let ?s = "section_of st r"
  let ?w = "update_memory_bitmap (bitmap ?s) (word_of_int index) count True (words st)"
  let ?st1 = "upd_section r (\<lambda>s. s\<lparr>bm_current := if word_of_int (index + count) \<ge> bm_end s then 0 else word_of_int (index + count),
      nr_free_pages := nr_free_pages s - count\<rparr>) (st\<lparr>words := ?w\<rparr>)"
  let ?st2 = "init_pages ?s index count fl ?st1"
  have b: "0 \<le> index" "index + count < 2 ^ 20" "bitmap ?s \<noteq> 0" "0 \<le> count"
    using assms by (auto simp: sec_ok_def pages_free_def)
  have "get_free_pages_from_section r count fl vp st = Some (page_result ?s index vp, ?st2)"
    using assms(4) b(1) by (simp add: get_free_pages_from_section_def page_result_def Let_def cong: if_cong)
  moreover have "pages_taken st r index count fl ?st2"
  proof -
    have sec: "section_of ?st2 q = section_of ?st1 q" for q by (simp add: section_of_def)
    have sok: "sref_ok (st\<lparr>words := ?w\<rparr>) r" using assms(1) by simp
    have wd: "words ?st2 = ?w" by simp
    have "read_bit ?w (bitmap ?s) k = (if index \<le> k \<and> k < index + count then 1 else read_bit (words st) (bitmap ?s) k)"
      if "bit_index k" for k
      using update_memory_bitmap_read [OF b(3,1,4) _ that, of True] b(2) by simp
    moreover have "nat count < 2 ^ 20" using b by simp
    note init_pages_loop_pages [OF this]
    moreover have "length (zone (bank ?st2)) = length (zone (bank st))" by simp
    moreover have "sref_ok ?st2 q = sref_ok st q" for q
      using sref_ok_upd(1) [of r _ "st\<lparr>words := ?w\<rparr>" q] by (simp add: sref_ok_def)
    ultimately show ?thesis
      unfolding pages_taken_def Let_def sec wd
      using sok by (auto simp: init_pages_def Let_def)
  qed
  ultimately show ?thesis by blast
qed

lemma section_alloc:
  assumes "sref_ok st r" "sec_ok (section_of st r)" "0 < count"
  shows "(\<exists>index st'. pages_free (words st) (section_of st r) index count
            \<and> get_free_pages_from_section r count fl vp st = Some (page_result (section_of st r) index vp, st')
            \<and> pages_taken st r index count fl st')
       \<or> (get_free_pages_from_section r count fl vp st = Some (0, st)
            \<and> (\<forall>i. pages_free (words st) (section_of st r) i count \<longrightarrow>
                   i < uint (bm_current (section_of st r))
                   \<and> (i = 0 \<or> uint (bm_current (section_of st r)) < i + count - 1)))"
proof -
  let ?s = "section_of st r"
  have cur: "sint (bm_current ?s) = uint (bm_current ?s)" "0 \<le> uint (bm_current ?s)" "uint (bm_current ?s) < nr_page ?s"
    using assms(2) by (auto simp: sec_ok_def intro!: sint_eq_uint_u32)
  have "uint (bm_current ?s) = 0 \<or> uint (bm_current ?s) < nr_page ?s - 1"
    using assms(2) by (auto simp: sec_ok_def)
  then obtain i where i: "bitmap_find_free_base (words st) (bitmap ?s) (uint (bm_current ?s)) 0 (nr_page ?s) count = Some i"
    "find_result (words st) (bitmap ?s) (uint (bm_current ?s)) 0 (nr_page ?s) count i"
    using find_free_base_total [OF cur(2,3) _ assms(3)] by blast
  show ?thesis
  proof (cases "i = - 28")
    case True
    then have "get_free_pages_from_section r count fl vp st = Some (0, st)"
      using i(1) by (simp add: get_free_pages_from_section_def cur(1) Let_def)
    moreover have "x < uint (bm_current ?s) \<and> (x = 0 \<or> uint (bm_current ?s) < x + count - 1)"
      if x: "pages_free (words st) ?s x count" for x
    proof -
      have run: "run_at (words st) (bitmap ?s) 0 count x" using x by (simp add: pages_free_def run_at_def)
      have "\<not> (uint (bm_current ?s) \<le> x \<and> x + count \<le> nr_page ?s
          \<or> 1 \<le> x \<and> x + count \<le> uint (bm_current ?s) + 1)"
        using i(2) True run unfolding find_result_def by metis
      then show ?thesis using x unfolding pages_free_def by linarith
    qed
    ultimately show ?thesis by blast
  next
    case False
    then have "pages_free (words st) ?s i count"
      using i(2) by (auto simp: find_result_def pages_free_def run_at_def)
    then show ?thesis
      using get_free_pages_from_section_found [OF assms, of i fl vp] i(1) by (auto simp: cur(1))
  qed
qed

section \<open>Allocation from zones\<close>

definition addr_ok :: "bool \<Rightarrow> mm_section \<Rightarrow> bool" where
  "addr_ok vp s \<longleftrightarrow> (\<forall>index \<in> {0..<nr_page s}. page_result s index vp \<noteq> 0)"

definition alloc_from :: "mm_state \<Rightarrow> sref \<Rightarrow> int \<Rightarrow> int \<Rightarrow> u32 \<Rightarrow> bool \<Rightarrow> u32 \<Rightarrow> mm_state \<Rightarrow> bool" where
  "alloc_from st r index count fl vp ret st' \<longleftrightarrow>
     pages_free (words st) (section_of st r) index count \<and> ret = page_result (section_of st r) index vp
     \<and> count \<le> nr_free_pages (section_of st r) \<and> pages_taken st r index count fl st'"

text \<open>No free run of the wanted length in the part of the section the search covers.\<close>

definition out_of_reach :: "mm_state \<Rightarrow> sref \<Rightarrow> int \<Rightarrow> bool" where
  "out_of_reach st r count \<longleftrightarrow>
     (\<forall>i. pages_free (words st) (section_of st r) i count \<longrightarrow>
        i < uint (bm_current (section_of st r)) \<and> (i = 0 \<or> uint (bm_current (section_of st r)) < i + count - 1))"

definition usable :: "bool \<Rightarrow> mm_state \<Rightarrow> sref \<Rightarrow> bool" where
  "usable vp st r \<longleftrightarrow> sref_ok st r \<and> (sec_size (section_of st r) \<noteq> 0 \<longrightarrow>
     sec_ok (section_of st r) \<and> addr_ok vp (section_of st r))"

definition refused :: "mm_state \<Rightarrow> sref \<Rightarrow> int \<Rightarrow> bool" where
  "refused st r count \<longleftrightarrow>
     sec_size (section_of st r) = 0 \<or> nr_free_pages (section_of st r) < count \<or> out_of_reach st r count"

lemma section_alloc_cases:
  assumes "usable vp st r" "sec_size (section_of st r) \<noteq> 0" "count \<le> nr_free_pages (section_of st r)" "0 < count"
  obtains (found) index ret st' where "get_free_pages_from_section r count fl vp st = Some (ret, st')"
      "ret \<noteq> 0" "alloc_from st r index count fl vp ret st'"
  | (full) "get_free_pages_from_section r count fl vp st = Some (0, st)" "out_of_reach st r count"
proof -
  let ?s = "section_of st r"
  have u: "sref_ok st r" "sec_ok ?s" "addr_ok vp ?s" using assms(1,2) by (auto simp: usable_def)
  from section_alloc [OF u(1,2) assms(4), of fl vp] show ?thesis
  proof (elim disjE exE conjE)
    fix index st'
    assume a: "pages_free (words st) ?s index count"
      "get_free_pages_from_section r count fl vp st = Some (page_result ?s index vp, st')"
      "pages_taken st r index count fl st'"
    have nz: "page_result ?s index vp \<noteq> 0"
      using u(3) a(1) assms(4) by (auto simp: addr_ok_def pages_free_def)
    then show ?thesis using found [OF a(2) nz] a assms(3) by (auto simp: alloc_from_def)
  qed (use full in \<open>auto simp: out_of_reach_def\<close>)
qed

lemma zone_sections_alloc:
  assumes "\<forall>i \<in> set is. usable vp st (z, i)" "0 < count"
  shows "\<exists>ret st'. zone_sections_loop z is count fl vp st = Some (ret, st')
    \<and> (if ret = 0 then st' = st \<and> (\<forall>i \<in> set is. refused st (z, i) count)
       else \<exists>i \<in> set is. \<exists>index. alloc_from st (z, i) index count fl vp ret st')"
  using assms
proof (induction "is")
  case (Cons i "is")
  let ?s = "section_of st (z, i)"
  from Cons obtain ret st' where IH: "zone_sections_loop z is count fl vp st = Some (ret, st')"
    "if ret = 0 then st' = st \<and> (\<forall>i \<in> set is. refused st (z, i) count)
     else \<exists>i \<in> set is. \<exists>index. alloc_from st (z, i) index count fl vp ret st'" by auto
  show ?case
  proof (cases "sec_size ?s = 0 \<or> nr_free_pages ?s < count")
    case True
    then have "refused st (z, i) count" by (auto simp: refused_def)
    then show ?thesis using True IH by (auto simp: Let_def)
  next
    case False
    then have ne: "sec_size ?s \<noteq> 0" "count \<le> nr_free_pages ?s" by auto
    have u: "usable vp st (z, i)" using Cons.prems(1) by simp
    from u ne Cons.prems(2) show ?thesis
    proof (cases rule: section_alloc_cases [where fl = fl])
      case (found index ret' st'')
      then show ?thesis using ne by (auto simp: Let_def)
    next
      case full
      then have "refused st (z, i) count" by (simp add: refused_def)
      then show ?thesis using full(1) ne IH by (auto simp: Let_def)
    qed
  qed
qed simp

definition bank_ok :: "bool \<Rightarrow> mm_state \<Rightarrow> bool" where
  "bank_ok vp st \<longleftrightarrow> length (zone (bank st)) = 4 \<and> (\<forall>z \<in> {0..<4}. \<forall>i \<in> {0..<4}. usable vp st (z, i))"

text \<open>What a request that is served from zone \<open>z\<close> leaves behind.\<close>

definition served :: "mm_state \<Rightarrow> nat \<Rightarrow> int \<Rightarrow> u32 \<Rightarrow> bool \<Rightarrow> u32 \<Rightarrow> mm_state \<Rightarrow> bool" where
  "served st z count fl vp ret st' \<longleftrightarrow>
     (\<exists>i < 4. \<exists>index st1. alloc_from st (z, i) index count fl vp ret st1
        \<and> st' = upd_zone z (\<lambda>z. z\<lparr>zone_nr_free_pages := zone_nr_free_pages z - count\<rparr>) st1)"

definition zone_refused :: "mm_state \<Rightarrow> nat \<Rightarrow> int \<Rightarrow> bool" where
  "zone_refused st z count \<longleftrightarrow>
     zone_nr_free_pages (zone (bank st) ! z) < count \<or> (\<forall>i \<in> {0..<4}. refused st (z, i) count)"

lemma zone_alloc:
  assumes "bank_ok vp st" "z < 4" "0 < count"
  shows "\<exists>ret st'. get_free_pages_from_zone z count fl vp st = Some (ret, st')
    \<and> (if ret = 0 then st' = st \<and> zone_refused st z count else served st z count fl vp ret st')"
proof (cases "zone_nr_free_pages (zone (bank st) ! z) < count")
  case True
  then show ?thesis by (simp add: get_free_pages_from_zone_def zone_refused_def)
next
  case False
  have is4: "set [0, 1, 2, 3 :: nat] = {0..<4}" by auto
  have "\<forall>i \<in> set [0, 1, 2, 3]. usable vp st (z, i)" using assms(1,2) unfolding is4 bank_ok_def by auto
  from zone_sections_alloc [OF this assms(3), of fl] obtain ret st' where
    r: "zone_sections_loop z [0, 1, 2, 3] count fl vp st = Some (ret, st')"
    "if ret = 0 then st' = st \<and> (\<forall>i \<in> {0..<4}. refused st (z, i) count)
     else \<exists>i \<in> {0..<4}. \<exists>index. alloc_from st (z, i) index count fl vp ret st'"
    unfolding is4 by blast
  show ?thesis
  proof (cases "ret = 0")
    case True
    then show ?thesis using False r by (auto simp: get_free_pages_from_zone_def zone_refused_def)
  next
    case nz: False
    then have "served st z count fl vp ret
        (upd_zone z (\<lambda>z. z\<lparr>zone_nr_free_pages := zone_nr_free_pages z - count\<rparr>) st')"
      using r(2) by (fastforce simp: served_def)
    then show ?thesis using False r(1) nz by (simp add: get_free_pages_from_zone_def)
  qed
qed

text \<open>The order in which the zones are tried.\<close>

definition zone_order :: "int \<Rightarrow> nat list" where
  "zone_order zid = (if zid = 3 then [3, 0, 1, 2] else if zid = 0 then [0, 1, 2] else if zid = 1 then [1, 2] else [2])"

definition request_result :: "mm_state \<Rightarrow> nat list \<Rightarrow> int \<Rightarrow> u32 \<Rightarrow> bool \<Rightarrow> u32 \<Rightarrow> mm_state \<Rightarrow> bool" where
  "request_result st zs count fl vp ret st' \<longleftrightarrow>
     (if ret = 0 then st' = st \<and> (\<forall>z \<in> set zs. zone_refused st z count)
      else \<exists>z \<in> set zs. served st z count fl vp ret st')"

lemma get_pages_loop_step:
  assumes "bank_ok vp st" "0 < count" "0 \<le> zid" "zid < 4"
    and "zid \<noteq> 2 \<Longrightarrow> \<exists>ret st'. get_pages_loop (if zid = 3 then 0 else zid + 1) count fl vp st = Some (ret, st')
           \<and> request_result st zs count fl vp ret st'"
    and "zid = 2 \<Longrightarrow> zs = []"
  shows "\<exists>ret st'. get_pages_loop zid count fl vp st = Some (ret, st')
           \<and> request_result st (nat zid # zs) count fl vp ret st'"
proof -
  have "nat zid < 4" using assms(3,4) by simp
  then obtain ret st' where z: "get_free_pages_from_zone (nat zid) count fl vp st = Some (ret, st')"
    "if ret = 0 then st' = st \<and> zone_refused st (nat zid) count else served st (nat zid) count fl vp ret st'"
    using zone_alloc [OF assms(1) _ assms(2)] by blast
  show ?thesis
  proof (cases "ret = 0")
    case False
    then show ?thesis using z by (subst get_pages_loop.simps) (simp add: request_result_def)
  next
    case True
    show ?thesis
    proof (cases "zid = 2")
      case two: True
      then show ?thesis using z True assms(6)
        by (subst get_pages_loop.simps) (simp add: request_result_def)
    next
      case False
      then obtain ret2 st2 where r: "get_pages_loop (if zid = 3 then 0 else zid + 1) count fl vp st = Some (ret2, st2)"
        "request_result st zs count fl vp ret2 st2" using assms(5) by blast
      have "get_pages_loop zid count fl vp st = Some (ret2, st2)"
        using z True r(1) False by (subst get_pages_loop.simps) auto
      then show ?thesis using r(2) z True by (auto simp: request_result_def split: if_splits)
    qed
  qed
qed

lemma get_pages_loop_total:
  assumes "bank_ok vp st" "0 < count" "0 \<le> zid" "zid < 4"
  shows "\<exists>ret st'. get_pages_loop zid count fl vp st = Some (ret, st')
           \<and> request_result st (zone_order zid) count fl vp ret st'"
proof -
  note step = get_pages_loop_step [OF assms(1,2), where fl = fl]
  have r2: "\<exists>ret st'. get_pages_loop 2 count fl vp st = Some (ret, st') \<and> request_result st [2] count fl vp ret st'"
    using step [of 2 "[]"] by simp
  have r1: "\<exists>ret st'. get_pages_loop 1 count fl vp st = Some (ret, st') \<and> request_result st [1, 2] count fl vp ret st'"
    using step [of 1 "[2]"] r2 by simp
  have r0: "\<exists>ret st'. get_pages_loop 0 count fl vp st = Some (ret, st') \<and> request_result st [0, 1, 2] count fl vp ret st'"
    using step [of 0 "[1, 2]"] r1 by simp
  have r3: "\<exists>ret st'. get_pages_loop 3 count fl vp st = Some (ret, st') \<and> request_result st [3, 0, 1, 2] count fl vp ret st'"
    using step [of 3 "[0, 1, 2]"] r0 by simp
  have "zid = 0 \<or> zid = 1 \<or> zid = 2 \<or> zid = 3" using assms(3,4) by auto
  then show ?thesis using r0 r1 r2 r3 by (elim disjE) (simp_all add: zone_order_def)
qed

lemma zone_id_loop_log:
  assumes "w \<noteq> 0"
  shows "\<exists>k. zone_id_loop w i = Some (i + int k) \<and> 2 ^ k \<le> unat w \<and> unat w < 2 ^ Suc k"
  using assms
proof (induction "unat w" arbitrary: w i rule: less_induct)
  case less
  show ?case
  proof (cases "w = 1")
    case True
    then show ?thesis by (subst zone_id_loop.simps) (auto intro: exI [of _ 0])
  next
    case False
    have d: "unat (drop_bit 1 w) = unat w div 2" by (simp add: drop_bit_Suc unat_div_distrib)
    have "unat w \<noteq> 0" "unat w \<noteq> 1" using less.prems False by (auto simp: word_unat_eq_iff)
    then have w2: "2 \<le> unat w" by arith
    then have "unat (drop_bit 1 w) < unat w" "drop_bit 1 w \<noteq> 0" using d by (auto simp: unat_gt_0 [symmetric])
    from less.hyps [OF this, of "i + 1"] obtain k where
      k: "zone_id_loop (drop_bit 1 w) (i + 1) = Some (i + 1 + int k)" "2 ^ k \<le> unat w div 2" "unat w div 2 < 2 ^ Suc k"
      using d by auto
    have "zone_id_loop w i = Some (i + int (Suc k))"
      using k(1) False by (subst zone_id_loop.simps) simp
    moreover have "2 ^ Suc k \<le> unat w" "unat w < 2 ^ Suc (Suc k)" using k(2,3) by auto
    ultimately show ?thesis by blast
  qed
qed

lemma zone_id_loop_zero: "zone_id_loop w i = Some k \<Longrightarrow> w \<noteq> 0"
proof (rule zone_id_loop.raw_induct [where P = "\<lambda>w i k. w \<noteq> 0"])
  fix f :: "u32 \<Rightarrow> int \<Rightarrow> int option" and w i k
  assume "\<And>w i k. f w i = Some k \<Longrightarrow> w \<noteq> 0" "(if w \<noteq> 1 then f (drop_bit 1 w) (i + 1) else Some i) = Some k"
  then show "w \<noteq> 0" by (cases "w = 1") force+
qed

lemma get_zone_id_range:
  assumes "fl AND 0xff \<noteq> 0"
  obtains k where "get_zone_id fl = Some (int k)" "2 ^ k \<le> unat (fl AND 0xff)" "unat (fl AND 0xff) < 2 ^ Suc k"
  using zone_id_loop_log [OF assms, of 0] by (auto simp: get_zone_id_def)

section \<open>Release of a run of pages\<close>

lemma bm_back_loop_stops:
  assumes "k \<le> start" "read_bit m bm k \<noteq> 0" "\<forall>j \<in> {k<..start}. read_bit m bm j = 0"
  shows "bm_back_loop m bm start c = Some (c + (start - k))"
  using assms
proof (induction "nat (start - k)" arbitrary: start c rule: less_induct)
  case less
  show ?case
  proof (cases "start = k")
    case True
    then show ?thesis using less.prems by (subst bm_back_loop.simps) simp
  next
    case False
    then have "read_bit m bm start = 0" using less.prems by auto
    then have "bm_back_loop m bm start c = bm_back_loop m bm (start - 1) (c + 1)"
      by (subst bm_back_loop.simps) simp
    also have "\<dots> = Some (c + 1 + (start - 1 - k))" using less.prems False by (intro less.hyps) auto
    finally show ?thesis by simp
  qed
qed

text \<open>The lowest pages free: the walk leaves the bitmap through its beginning.\<close>

lemma bm_back_loop_leaves:
  assumes "- 1 \<le> start" "\<forall>j \<in> {0..start}. read_bit m bm j = 0"
  shows "bm_back_loop m bm start c = bm_back_loop m bm (- 1) (c + start + 1)"
  using assms
proof (induction "nat (start + 1)" arbitrary: start c rule: less_induct)
  case less
  show ?case
  proof (cases "start = - 1")
    case False
    then have "read_bit m bm start = 0" using less.prems by auto
    then have "bm_back_loop m bm start c = bm_back_loop m bm (start - 1) (c + 1)"
      by (subst bm_back_loop.simps) simp
    also have "\<dots> = bm_back_loop m bm (- 1) (c + 1 + (start - 1) + 1)"
      using less.prems False by (intro less.hyps) auto
    finally show ?thesis by (simp add: algebra_simps)
  qed simp
qed

lemma page_index_back:
  assumes "0 \<le> index" "index < 2 ^ 20"
  shows "sint (p + 28 * word_of_int index - p :: u32) div 28 = index"
proof -
  have "p + 28 * word_of_int index - p = (word_of_int (28 * index) :: u32)" by simp
  also have "sint \<dots> = 28 * index" using assms by (intro sint_word_of_int_u32) auto
  finally show ?thesis by simp
qed

lemma uint_count16: "0 \<le> count \<Longrightarrow> count < 2 ^ 16 \<Longrightarrow> uint (word_of_int count :: u16) = count"
  by (rule word_of_int_inverse) simp_all

lemma bm_back_loop_returns:
  assumes "k \<le> start" "read_bit m bm k \<noteq> 0"
  shows "\<exists>k' \<in> {k..start}. bm_back_loop m bm start c = Some (c + (start - k')) \<and> read_bit m bm k' \<noteq> 0"
proof -
  define K where "K = {j \<in> {k..start}. read_bit m bm j \<noteq> 0}"
  have "K \<subseteq> {k..start}" "k \<in> K" using assms by (auto simp: K_def)
  then have "finite K" "k \<in> K" using finite_subset by auto
  then have "Max K \<in> K" and m: "\<forall>j \<in> K. j \<le> Max K" by (auto intro: Max_in)
  then have in_K: "Max K \<in> {k..start}" "read_bit m bm (Max K) \<noteq> 0" by (auto simp: K_def)
  have "\<forall>j \<in> {Max K<..start}. read_bit m bm j = 0" 
  proof (rule ballI, rule ccontr)
    fix j assume j: "j \<in> {Max K<..start}" "read_bit m bm j \<noteq> 0"
    then have "j \<in> K" using in_K(1) by (simp add: K_def)
    then show False using m j(1) by auto
  qed
  then show ?thesis using bm_back_loop_stops [of "Max K" start m bm c] in_K by auto
qed

lemma update_bm_current_total:
  assumes "sref_ok st r" "0 \<le> k" "k < index" "0 < count" "index + count < 2 ^ 20"
    and "read_bit (words st) (bitmap (section_of st r)) k \<noteq> 0"
    and "\<forall>j \<in> {index..<index + count}. read_bit (words st) (bitmap (section_of st r)) j = 0"
    and "bm_current (section_of st r) = 0 \<or> bm_current (section_of st r) = word_of_int (index + count)"
  shows "\<exists>st'. update_bm_current r st = Some st' \<and> words st' = words st \<and> pages st' = pages st
    \<and> zone_nr_free_pages (zone (bank st') ! z) = zone_nr_free_pages (zone (bank st) ! z)
    \<and> section_table st' = section_table st \<and> nr_free_pages (section_of st' r) = nr_free_pages (section_of st r)
    \<and> uint (bm_current (section_of st' r)) \<le> index"
proof (cases "bm_current (section_of st r) = 0")
  case True
  then show ?thesis using assms(2,3) by (simp add: update_bm_current_def Let_def)
next
  case False
  let ?s = "section_of st r"
  have cur: "bm_current ?s = word_of_int (index + count)" using assms(8) False by blast
  have "bm_current ?s - 1 = word_of_int (index + count - 1)" unfolding cur by simp
  then have start: "sint (bm_current ?s - 1) = index + count - 1"
    using assms(2-5) by (simp only:) (intro sint_word_of_int_u32, auto)
  obtain k' where k': "k' \<in> {k..index + count - 1}" "read_bit (words st) (bitmap ?s) k' \<noteq> 0"
    "bm_back_loop (words st) (bitmap ?s) (index + count - 1) 0 = Some (index + count - 1 - k')"
    using bm_back_loop_returns [of k "index + count - 1" "words st" "bitmap ?s" 0] assms(3-6) by auto
  have lt: "k' < index" using k'(1,2) assms(7) by force
  have "bm_current ?s - word_of_int (index + count - 1 - k') = word_of_int (k' + 1)" unfolding cur by simp
  moreover have "uint (word_of_int (k' + 1) :: u32) = k' + 1"
    using k'(1) assms(2,5) lt by (intro uint_word_of_int_u32) auto
  ultimately have "uint (bm_current ?s - word_of_int (index + count - 1 - k')) = k' + 1" by (simp only:)
  then have "uint (bm_current ?s - word_of_int (index + count - 1 - k')) \<le> index" using lt by linarith
  then show ?thesis using False k'(3) start assms(1) by (simp add: update_bm_current_def Let_def)
qed

text \<open>The header descriptor of a run, read back.\<close>

lemma header_section:
  fixes pa :: u32
  assumes "take_bit 12 pa = 0" "0 \<le> sid" "sid < 256"
  shows "unat ((pa OR word_of_int sid) AND 0xff) = nat sid" "(pa OR word_of_int sid) AND 0xffffff00 = pa"
proof -
  have u: "unat (word_of_int sid :: u32) = nat sid" using assms by (intro unat_word_of_int_u32) auto
  have t: "take_bit 8 (word_of_int sid :: u32) = word_of_int sid"
    using assms by (simp add: word_unat_eq_iff unsigned_take_bit_eq u take_bit_nat_eq_self)
  have m: "(0xff :: u32) = mask 8" "(0xffffff00 :: u32) = NOT (mask 8)" by (simp_all add: mask_eq_exp_minus_1)
  have "(pa OR word_of_int sid) AND 0xff = word_of_int sid"
    unfolding m(1) by (rule or_flags_take_low [OF assms(1) t]) simp
  then show "unat ((pa OR word_of_int sid) AND 0xff) = nat sid" using u by simp
  show "(pa OR word_of_int sid) AND 0xffffff00 = pa"
    unfolding m(2) by (rule or_flags_and_mask [OF assms(1) t]) simp_all
qed

lemma get_zone_id_header: "get_zone_id (fl OR 0x10000) = get_zone_id fl"
proof -
  have "(fl OR 0x10000) AND 0xff = fl AND 0xff" by (simp add: bit.conj_disj_distrib2)
  then show ?thesis by (simp add: get_zone_id_def)
qed

lemma header_flag: "(fl OR 0x10000) AND 0x10000 \<noteq> (0 :: u32)"
  by (simp add: bit.conj_disj_distrib2 bit.conj_disj_distrib)

text \<open>A bank with one section of 64 pages in the kernel zone, for the concrete cases below.\<close>

definition empty_section :: mm_section where
  "empty_section = \<lparr>phy_start = 0, vir_start = 0, sec_size = 0, nr_page = 0, pv_offset = 0, maped_size = 0,
     bm_end = 0, bm_current = 0, nr_free_pages = 0, bitmap = 0, section_table_id = 0, page_table = 0\<rparr>"

definition small_section :: mm_section where
  "small_section = \<lparr>phy_start = 0x00100000, vir_start = 0x80000000, sec_size = 0x40000, nr_page = 64,
     pv_offset = 0x7ff00000, maped_size = 0x40000, bm_end = 64, bm_current = 1, nr_free_pages = 63,
     bitmap = 0x80002000, section_table_id = 0, page_table = 0x80001000\<rparr>"

definition empty_zone :: mm_zone where
  "empty_zone = \<lparr>memory_section = replicate 4 empty_section, nr_section = 0, zone_maped_size = 0,
     map_base = 0, page_num = 0, zone_nr_free_pages = 0\<rparr>"

definition empty_page :: page where
  "empty_page = \<lparr>phy_address = 0, map_address = 0, flag = 0, pg_count = 0, pinfo = 0, pdata = 0\<rparr>"

text \<open>Page 0 is in use, the other 63 pages are free.\<close>

definition small_bank :: mm_state where
  "small_bank =
     \<lparr>bank = \<lparr>total_size = 0x40000, total_page = 64,
        zone = empty_zone\<lparr>memory_section := small_section # replicate 3 empty_section, nr_section := 1,
                 page_num := 64, zone_nr_free_pages := 63\<rparr> # replicate 3 empty_zone\<rparr>,
      section_table = Some (0, 0) # replicate 12 None,
      words = (\<lambda>_. 0)(0x80002000 := 1), pages = (\<lambda>_. empty_page),
      links = \<lparr>lnext = (\<lambda>a. a), lpre = (\<lambda>a. a)\<rparr>\<rparr>"

lemma small_bank_section: "section_of small_bank (0, 0) = small_section" "sref_ok small_bank (0, 0)" "sec_ok small_section"
  by (simp_all add: small_bank_def section_of_def sref_ok_def small_section_def sec_ok_def)

lemma small_section_page:
  assumes "index \<in> {0..<64}"
  shows "page_result small_section index False \<noteq> 0"
proof -
  have "page_result small_section index False = word_of_int (0x80001000 + 28 * index)"
    by (simp add: page_result_def small_section_def)
  then have "uint (page_result small_section index False) = 0x80001000 + 28 * index"
    using assms by (simp only:) (intro uint_word_of_int_u32, auto)
  then show ?thesis using assms by auto
qed

lemma small_bank_ok: "bank_ok False small_bank"
proof -
  note n = small_section_page
  have "usable False small_bank (z, i)" if "z < 4" "i < 4" for z i
  proof (cases "z = 0 \<and> i = 0")
    case True
    then show ?thesis using small_bank_section n by (simp add: usable_def addr_ok_def small_section_def)
  next
    case False
    then have "sec_size (section_of small_bank (z, i)) = 0 \<and> sref_ok small_bank (z, i)"
      using that by (cases z; cases i)
        (auto simp: small_bank_def section_of_def sref_ok_def empty_zone_def empty_section_def nth_Cons')
    then show ?thesis by (simp add: usable_def)
  qed
  then show ?thesis by (simp add: bank_ok_def) (simp add: small_bank_def)
qed

text \<open>The section is entered in the section table under its own number.\<close>

definition listed :: "mm_state \<Rightarrow> sref \<Rightarrow> bool" where
  "listed st r \<longleftrightarrow>
     (let s = section_of st r in is_align (phy_start s) 4096 \<and> 0 \<le> section_table_id s \<and> section_table_id s < 256
        \<and> nat (section_table_id s) < length (section_table st)
        \<and> section_table st ! nat (section_table_id s) = Some r)"

lemma header_of_run:
  assumes "pages_taken st r index count fl st1" "listed st r" "0 < count"
  defines "pg \<equiv> page_table (section_of st r) + 28 * word_of_int index"
  shows "page_get_section st1 pg = Some (Some r)" "flag (pages st1 pg) = fl OR 0x10000"
    "pg_count (pages st1 pg) = word_of_int count"
    "page_to_pa st1 pg = phy_start (section_of st r) + word_of_int (push_bit 12 index)"
proof -
  let ?s = "section_of st r"
  let ?pa = "phy_start ?s + word_of_int (push_bit 12 index)"
  have d: "phy_address (pages st1 pg) = ?pa OR word_of_int (section_table_id ?s)"
    "flag (pages st1 pg) = fl OR 0x10000" "pg_count (pages st1 pg) = word_of_int count"
    using assms(1,3) unfolding pages_taken_def Let_def pg_def
    by (auto simp: page_desc_def dest!: spec [of _ 0])
  have "take_bit 12 (phy_start ?s) = 0"
    using assms(2) is_align_pow2 [of "phy_start ?s" 12] by (simp add: listed_def Let_def)
  moreover have "take_bit 12 (word_of_int (push_bit 12 index) :: u32) = 0"
    using take_bit_mult_pow [of 12 "word_of_int index :: u32"] by (simp add: push_bit_eq_mult mult.commute)
  ultimately have pa: "take_bit 12 ?pa = 0" by (rule take_bit_add_0)
  have sid: "0 \<le> section_table_id ?s" "section_table_id ?s < 256"
    "nat (section_table_id ?s) < length (section_table st1)" "section_table st1 ! nat (section_table_id ?s) = Some r"
    using assms(1,2) by (auto simp: listed_def pages_taken_def Let_def)
  show "page_get_section st1 pg = Some (Some r)"
    unfolding page_get_section_def Let_def d header_section(1) [OF pa sid(1,2)] using sid(3,4) by simp
  show "page_to_pa st1 pg = ?pa"
    unfolding page_to_pa_def d by (rule header_section(2) [OF pa sid(1,2)])
  show "flag (pages st1 pg) = fl OR 0x10000" "pg_count (pages st1 pg) = word_of_int count" by (rule d)+
qed

text \<open>Two pages taken from the example: pages 1 and 2.\<close>

lemma small_bits:
  "read_bit (words small_bank) (bitmap small_section) 0 = 1"
  "read_bit (words small_bank) (bitmap small_section) 1 = 0"
  "read_bit (words small_bank) (bitmap small_section) 2 = 0"
  by (simp_all add: small_bank_def small_section_def read_bit_def get_bit_pos_def)

lemma small_alloc:
  "pages_free (words small_bank) small_section 1 2"
  "\<exists>st1. get_free_pages_from_section (0, 0) 2 1 False small_bank = Some (0x8000101c, st1)
     \<and> pages_taken small_bank (0, 0) 1 2 1 st1"
proof -
  have "{1..<1 + 2 :: int} = {1, 2}" by auto
  then show f: "pages_free (words small_bank) small_section 1 2"
    using small_bits by (simp add: pages_free_def) (simp add: small_section_def)
  have "bitmap_find_free_base (words small_bank) (bitmap small_section) 1 0 64 2 = Some 1"
    unfolding bitmap_find_free_base_def using small_bits by (simp add: find_free_loop.simps)
  then show "\<exists>st1. get_free_pages_from_section (0, 0) 2 1 False small_bank = Some (0x8000101c, st1)
     \<and> pages_taken small_bank (0, 0) 1 2 1 st1"
    using get_free_pages_from_section_found [of small_bank "(0, 0)" 2 1 1 False] f small_bank_section
    by (simp add: page_result_def small_section_def)
qed

lemma small_listed: "listed small_bank (0, 0)"
  unfolding listed_def small_bank_section Let_def
  by (simp add: small_section_def small_bank_def is_align_def)

section \<open>Properties of allocation\<close>

text \<open>
  C3.  Allocation from a section is correct and complete up to the reach of the search:
  it returns, and either it hands out \<open>count\<close> consecutive pages of the section that
  were all free, sets exactly their bits, lowers the section's free count and writes
  their descriptors, or it changes nothing and there is no free run of that length from
  the search position to the end of the section nor between page 1 and the position.
\<close>

theorem get_free_pages_from_section_correct:
  assumes "sref_ok st r" "sec_ok (section_of st r)" "0 < count"
  shows "(\<exists>index st'. pages_free (words st) (section_of st r) index count
            \<and> get_free_pages_from_section r count fl vp st = Some (page_result (section_of st r) index vp, st')
            \<and> pages_taken st r index count fl st')
       \<or> (get_free_pages_from_section r count fl vp st = Some (0, st)
            \<and> (\<forall>i. pages_free (words st) (section_of st r) i count \<longrightarrow>
                   i < uint (bm_current (section_of st r))
                   \<and> (i = 0 \<or> uint (bm_current (section_of st r)) < i + count - 1)))"
  by (rule section_alloc [OF assms])

theorem get_free_pages_from_section_correct_witness:
  "(\<exists>index st'. pages_free (words small_bank) small_section index 4
      \<and> get_free_pages_from_section (0, 0) 4 1 True small_bank = Some (page_result small_section index True, st')
      \<and> pages_taken small_bank (0, 0) index 4 1 st')
   \<or> get_free_pages_from_section (0, 0) 4 1 True small_bank = Some (0, small_bank)"
  using get_free_pages_from_section_correct [of small_bank "(0, 0)" 4 1 True]
  by (simp add: small_bank_section) blast



text \<open>
  A request whose flags name no zone (no bit among the lowest eight) never returns:
  \<open>get_zone_id\<close> shifts until the flags are 1, which 0 never becomes.
\<close>

theorem get_zone_id_no_zone:
  assumes "fl AND 0xff = 0"
  shows "get_zone_id fl = None \<and> (0 < count \<longrightarrow> request_pages count fl st = None)"
proof -
  have "get_zone_id fl = None"
    unfolding get_zone_id_def using assms zone_id_loop_zero by (metis option.exhaust)
  then show ?thesis by (simp add: request_pages_def get_free_pages_internal_def)
qed

theorem get_zone_id_no_zone_witness: "get_zone_id 0x100 = None \<and> request_pages 1 0x100 small_bank = None"
  using get_zone_id_no_zone [of "0x100" 1 small_bank] by simp

text \<open>
  An allocation that stops just before the last page of its section leaves the search
  position on the last page; if then no run of the wanted length is left above page 0,
  the next request to that section does not return.
\<close>

theorem get_free_pages_from_section_hangs:
  assumes "1 < nr_page (section_of st r)" "nr_page (section_of st r) < 2 ^ 20" "0 < count"
    and "bm_current (section_of st r) = word_of_int (nr_page (section_of st r) - 1)"
    and "\<forall>i. pages_free (words st) (section_of st r) i count \<longrightarrow> i = 0"
  shows "get_free_pages_from_section r count fl vp st = None"
proof -
  let ?s = "section_of st r"
  have cur: "sint (bm_current ?s) = nr_page ?s - 1"
    unfolding assms(4) using assms(1,2) by (intro sint_word_of_int_u32) auto
  have "\<not> run_at (words st) (bitmap ?s) 0 count i" if "1 \<le> i \<and> i + count \<le> nr_page ?s" for i
  proof
    assume "run_at (words st) (bitmap ?s) 0 count i"
    then have "pages_free (words st) ?s i count" using that by (simp add: pages_free_def run_at_def)
    then show False using assms(5) that by auto
  qed
  then have "bitmap_find_free_base (words st) (bitmap ?s) (nr_page ?s - 1) 0 (nr_page ?s) count = None"
    using assms(1,3) find_free_base_hangs by blast
  then show ?thesis by (simp add: get_free_pages_from_section_def cur Let_def)
qed

theorem get_free_pages_from_section_hangs_witness:
  "get_free_pages_from_section (0, 0) 1 1 True
     (upd_section (0, 0) (\<lambda>s. s\<lparr>bm_current := 63\<rparr>) (small_bank\<lparr>words := \<lambda>_. - 1\<rparr>)) = None"
proof (rule get_free_pages_from_section_hangs)
  let ?st = "upd_section (0, 0) (\<lambda>s. s\<lparr>bm_current := 63\<rparr>) (small_bank\<lparr>words := \<lambda>_. - 1\<rparr>)"
  have s: "section_of ?st (0, 0) = small_section\<lparr>bm_current := 63\<rparr>" by (simp add: small_bank_section)
  show "1 < nr_page (section_of ?st (0, 0))" "nr_page (section_of ?st (0, 0)) < 2 ^ 20"
    "bm_current (section_of ?st (0, 0)) = word_of_int (nr_page (section_of ?st (0, 0)) - 1)" "(0 :: int) < 1"
    unfolding s by (simp_all add: small_section_def)
  show "\<forall>i. pages_free (words ?st) (section_of ?st (0, 0)) i 1 \<longrightarrow> i = 0"
    unfolding s by (auto simp: pages_free_def small_section_def read_bit_eq)
qed

text \<open>
  C4.  Releasing a run that was just allocated gives its pages back: if some lower page of
  the section is in use, \<open>release_page\<close> returns, every bit of the bitmap is as it was
  before the allocation, and the zone named by the flags gets \<open>count\<close> pages back.  The
  section's own free count is not restored: it stays \<open>count\<close> lower for ever, and a
  section whose count has run out is skipped by every later request.
\<close>

theorem release_page_restores:
  assumes "sref_ok st r" "sec_ok (section_of st r)" "listed st r" "length (zone (bank st)) = 4"
    and "0 < count" "count < 2 ^ 16" "pages_free (words st) (section_of st r) index count"
    and "pages_taken st r index count fl st1" "get_zone_id fl = Some zid" "0 \<le> zid" "zid < 4"
    and "0 \<le> k" "k < index" "read_bit (words st) (bitmap (section_of st r)) k \<noteq> 0"
    and "page_table (section_of st r) + 28 * word_of_int index \<noteq> 0"
  shows "\<exists>st2. release_page (page_table (section_of st r) + 28 * word_of_int index) st1 = Some st2
    \<and> (\<forall>j. bit_index j \<longrightarrow> read_bit (words st2) (bitmap (section_of st r)) j = read_bit (words st) (bitmap (section_of st r)) j)
    \<and> zone_nr_free_pages (zone (bank st2) ! nat zid) = zone_nr_free_pages (zone (bank st1) ! nat zid) + count
    \<and> nr_free_pages (section_of st2 r) = nr_free_pages (section_of st r) - count"
proof -
  let ?s = "section_of st r" and ?pg = "page_table (section_of st r) + 28 * word_of_int index"
  note h = header_of_run [OF assms(8,3,5)]
  let ?st2 = "upd_zone (nat zid) (\<lambda>z. z\<lparr>zone_nr_free_pages := zone_nr_free_pages z + count\<rparr>) st1"
  let ?w = "update_memory_bitmap (bitmap ?s) (word_of_int index) count False (words st1)"
  have b: "0 \<le> index" "index + count < 2 ^ 20" "bitmap ?s \<noteq> 0" "nr_page ?s < 2 ^ 20"
    using assms(2,7) by (auto simp: sec_ok_def pages_free_def)
  have s1: "section_of st1 r = ?s\<lparr>bm_current := if word_of_int (index + count) \<ge> bm_end ?s then 0 else word_of_int (index + count),
      nr_free_pages := nr_free_pages ?s - count\<rparr>" "sref_ok st1 r" "length (zone (bank st1)) = 4"
    using assms(1,4,8) unfolding pages_taken_def Let_def by metis+
  have s2: "section_of (?st2\<lparr>words := ?w\<rparr>) r = section_of st1 r" "sref_ok (?st2\<lparr>words := ?w\<rparr>) r" using s1 by simp_all
  have rd: "read_bit ?w (bitmap ?s) j = read_bit (words st) (bitmap ?s) j" if "bit_index j" for j
  proof -
    have "read_bit (words st1) (bitmap ?s) j = (if index \<le> j \<and> j < index + count then 1 else read_bit (words st) (bitmap ?s) j)"
      using assms(8) that by (simp add: pages_taken_def Let_def)
    then show ?thesis using update_memory_bitmap_read [OF b(3,1) _ _ that, of count False "words st1"] b(2) assms(5,7)
      by (auto simp: pages_free_def)
  qed
  have free: "\<forall>j \<in> {index..<index + count}. read_bit ?w (bitmap ?s) j = 0"
    using rd assms(7) b by (auto simp: pages_free_def)
  have set_k: "read_bit ?w (bitmap ?s) k \<noteq> 0" using rd [of k] assms(5,12-14) b by auto
  have bm: "bitmap (section_of (?st2\<lparr>words := ?w\<rparr>) r) = bitmap ?s" unfolding s2(1) s1(1) by simp
  have cur: "bm_current (section_of (?st2\<lparr>words := ?w\<rparr>) r) = 0
      \<or> bm_current (section_of (?st2\<lparr>words := ?w\<rparr>) r) = word_of_int (index + count)"
    unfolding s2(1) s1(1) by (cases "bm_end ?s \<le> word_of_int (index + count)") simp_all
  obtain st3 where st3: "update_bm_current r (?st2\<lparr>words := ?w\<rparr>) = Some st3" "words st3 = ?w"
    "zone_nr_free_pages (zone (bank st3) ! nat zid) = zone_nr_free_pages (zone (bank (?st2\<lparr>words := ?w\<rparr>)) ! nat zid)"
    "nr_free_pages (section_of st3 r) = nr_free_pages (section_of (?st2\<lparr>words := ?w\<rparr>) r)"
    using update_bm_current_total [OF s2(2) assms(12,13,5) b(2) _ _ cur, of "nat zid"] free set_k bm
    by (simp del: zone_upd_zone) blast
  have "free_section_pages r ?pg ?st2 = Some st3"
    using st3(1) s1 page_index_back [OF b(1), of "page_table ?s"] b(2) assms(5,6) h(3) uint_count16 [of count]
    by (simp add: free_section_pages_def Let_def)
  then have "free_pages_internal (Some r) ?pg st1 = Some st3"
    using assms(5,6,9,11,15) h(2,3) uint_count16 [of count]
    by (simp add: free_pages_internal_def get_zone_id_header header_flag)
  then have "release_page ?pg st1 = Some st3" using h(1) assms(15) by (simp add: release_page_def)
  then show ?thesis using st3 rd s1 s2(1) assms(10,11) by auto
qed

theorem release_page_restores_witness:
  "\<exists>st1 st2. get_free_pages_from_section (0, 0) 2 1 False small_bank = Some (0x8000101c, st1)
     \<and> release_page 0x8000101c st1 = Some st2
     \<and> (\<forall>j. bit_index j \<longrightarrow> read_bit (words st2) 0x80002000 j = read_bit (words small_bank) 0x80002000 j)
     \<and> nr_free_pages (section_of st2 (0, 0)) = 61"
proof -
  obtain st1 where a: "get_free_pages_from_section (0, 0) 2 1 False small_bank = Some (0x8000101c, st1)"
    "pages_taken small_bank (0, 0) 1 2 1 st1" using small_alloc(2) by blast
  have "get_zone_id 1 = Some 0" unfolding get_zone_id_def by (subst zone_id_loop.simps) simp
  moreover have len: "length (zone (bank small_bank)) = 4" by (simp add: small_bank_def)
  moreover have sv: "page_table small_section = 0x80001000" "bitmap small_section = 0x80002000"
    "nr_free_pages small_section = 63" by (simp_all add: small_section_def)
  ultimately show ?thesis
    using release_page_restores [OF small_bank_section(2) _ small_listed len, of 2 1 1 st1 0 0]
      small_bank_section small_alloc(1) small_bits(1) a by auto
qed

text \<open>
  When all pages below the search position are free, the walk of \<open>update_bm_current\<close>
  back to the previous used page leaves the bitmap: it goes on at index -1, a word half a
  gigabyte above the bitmap, and what happens then depends on the memory there.
\<close>

theorem update_bm_current_leaves_bitmap:
  assumes "bm_current (section_of st r) = word_of_int c" "0 < c" "c < 2 ^ 20"
    and "\<forall>j \<in> {0..<c}. read_bit (words st) (bitmap (section_of st r)) j = 0"
  shows "update_bm_current r st =
    Option.bind (bm_back_loop (words st) (bitmap (section_of st r)) (- 1) c) (\<lambda>count.
      Some (upd_section r (\<lambda>s. s\<lparr>bm_current := bm_current s - word_of_int count\<rparr>) st))
    \<and> (bitmap (section_of st r) \<noteq> 0 \<longrightarrow> get_bit_pos (- 1) = (0x07ffffff, 31))"
proof -
  let ?s = "section_of st r"
  have "uint (bm_current ?s) = c" unfolding assms(1) using assms(2,3) by (intro uint_word_of_int_u32) auto
  then have nz: "bm_current ?s \<noteq> 0" using assms(2) by auto
  have "bm_current ?s - 1 = word_of_int (c - 1)" unfolding assms(1) by simp
  then have start: "sint (bm_current ?s - 1) = c - 1"
    using assms(2,3) by (simp only:) (intro sint_word_of_int_u32, auto)
  have "bm_back_loop (words st) (bitmap ?s) (c - 1) 0 = bm_back_loop (words st) (bitmap ?s) (- 1) c"
    using bm_back_loop_leaves [of "c - 1" "words st" "bitmap ?s" 0] assms(2,4) by auto
  then show ?thesis using nz start by (simp add: update_bm_current_def Let_def get_bit_pos_def)
qed

theorem update_bm_current_leaves_bitmap_witness:
  "update_bm_current (0, 0) (small_bank\<lparr>words := \<lambda>_. 0\<rparr>) =
     Option.bind (bm_back_loop (\<lambda>_. 0) 0x80002000 (- 1) 1) (\<lambda>count.
       Some (upd_section (0, 0) (\<lambda>s. s\<lparr>bm_current := bm_current s - word_of_int count\<rparr>) (small_bank\<lparr>words := \<lambda>_. 0\<rparr>)))"
  using update_bm_current_leaves_bitmap [of "small_bank\<lparr>words := \<lambda>_. 0\<rparr>" "(0, 0)" 1]
  by (simp add: small_bank_section small_section_def read_bit_def get_bit_pos_def)

text \<open>
  The address functions agree with the allocation: for every page of a run allocated
  for the kernel, a virtual address inside that page that lies in the section leads
  through the page's descriptor to the page's physical address (the offset within the
  page is not added), and the descriptor gives the page's virtual address back.
\<close>

theorem va_to_pa_of_run:
  assumes "pages_taken st r index count fl st1" "listed st r" "fl AND 8 = 0"
    and "0 \<le> index" "index + count < 2 ^ 20" "j < nat count" "off < 4096"
    and "is_align (vir_start (section_of st r)) 4096"
    and "va = vir_start (section_of st r) + (word_of_int index + word_of_nat j) * 4096 + off"
    and "va_get_section st1 va = Some (Some r)"
    and "page_table (section_of st r) + 28 * word_of_int index + 28 * word_of_nat j \<noteq> 0"
  shows "va_to_pa st1 va = Some (phy_start (section_of st r) + (word_of_int index + word_of_nat j) * 4096)
    \<and> map_option (page_to_va st1) (va_to_page st1 va) = Some (va - off)"
proof -
  let ?s = "section_of st r" and ?n = "index + int j"
  let ?pa = "phy_start ?s + word_of_int (push_bit 12 index) + 4096 * word_of_nat j"
  have sec: "page_table (section_of st1 r) = page_table ?s" "vir_start (section_of st1 r) = vir_start ?s"
    using assms(1) by (auto simp: pages_taken_def Let_def)
  have n: "0 \<le> ?n" "?n < 2 ^ 20" using assms(4-6) by auto
  have "va - vir_start ?s = word_of_int (?n * 4096) + off" unfolding assms(9) by (simp add: algebra_simps)
  moreover have "unat (word_of_int (?n * 4096) :: u32) = nat ?n * 4096"
    using n by (subst unat_word_of_int_u32) (auto simp: nat_mult_distrib)
  moreover have off: "unat off < 4096" using assms(7) by (simp add: word_less_nat_alt)
  ultimately have "unat (va - vir_start ?s) = nat ?n * 4096 + unat off"
    using n by (simp add: unat_word_ariths)
  then have "unat (section_page_id va (vir_start ?s)) = nat ?n"
    using off unat_drop_bit_eq [of 12 "va - vir_start ?s"] unfolding section_page_id_def
    by (simp only: drop_bit_eq_div) simp
  then have "section_page_id va (vir_start ?s) = word_of_int ?n"
    using n by (subst word_unat_eq_iff, subst unat_word_of_int_u32) auto
  then have pg: "section_va_to_page (section_of st1 r) va = page_table ?s + 28 * word_of_int index + 28 * word_of_nat j"
    unfolding section_va_to_page_def sec by (simp add: algebra_simps)
  have d: "phy_address (pages st1 (page_table ?s + 28 * word_of_int index + 28 * word_of_nat j)) = ?pa OR word_of_int (section_table_id ?s)"
    "map_address (pages st1 (page_table ?s + 28 * word_of_int index + 28 * word_of_nat j))
       = vir_start ?s + word_of_int (push_bit 12 index) + word_of_int (int j * 4096)"
    using assms(1,3,6) unfolding pages_taken_def Let_def by (simp_all add: page_desc_def)
  have al: "take_bit 12 (phy_start ?s) = 0" "take_bit 12 (vir_start ?s) = 0"
    using assms(2,8) is_align_pow2 [of _ 12] by (auto simp: listed_def Let_def)
  have mult: "take_bit 12 ((word_of_int index + word_of_nat j) * 4096 :: u32) = 0"
    using take_bit_mult_pow [of 12 "word_of_int index + word_of_nat j :: u32"] by (simp add: mult.commute)
  have pa: "?pa = phy_start ?s + (word_of_int index + word_of_nat j) * 4096"
    by (simp add: push_bit_eq_mult algebra_simps)
  have va: "vir_start ?s + word_of_int (push_bit 12 index) + word_of_int (int j * 4096) = va - off"
    unfolding assms(9) by (simp add: push_bit_eq_mult algebra_simps)
  have tb: "take_bit 12 ?pa = 0" unfolding pa by (rule take_bit_add_0 [OF al(1) mult])
  have "page_to_pa st1 (page_table ?s + 28 * word_of_int index + 28 * word_of_nat j) = ?pa"
    unfolding page_to_pa_def d(1) using assms(2)
    by (intro header_section(2) [OF tb]) (auto simp: listed_def Let_def)
  moreover have "page_to_va st1 (page_table ?s + 28 * word_of_int index + 28 * word_of_nat j) = va - off"
  proof -
    have "take_bit 12 (va - off) = 0" unfolding assms(9) using take_bit_add_0 [OF al(2) mult] by simp
    moreover have "(0xfffff000 :: u32) = NOT (mask 12)" by (simp add: mask_eq_exp_minus_1)
    ultimately show ?thesis unfolding page_to_va_def d(2) va
      using or_flags_and_mask [of 12 "va - off" 0 0 12] by simp
  qed
  ultimately show ?thesis using assms(10,11) pg pa by (simp add: va_to_pa_def va_to_page_def)
qed

theorem va_to_pa_of_run_witness:
  "\<exists>st1. get_free_pages_from_section (0, 0) 2 1 False small_bank = Some (0x8000101c, st1)
     \<and> va_to_pa st1 0x80002005 = Some 0x00102000"
proof -
  obtain st1 where a: "get_free_pages_from_section (0, 0) 2 1 False small_bank = Some (0x8000101c, st1)"
    "pages_taken small_bank (0, 0) 1 2 1 st1" using small_alloc(2) by blast
  have "section_table st1 = section_table small_bank" "vir_start (section_of st1 (0, 0)) = 0x80000000"
    "sec_size (section_of st1 (0, 0)) = 0x40000"
    using a(2) small_bank_section by (auto simp: pages_taken_def Let_def small_section_def)
  then have "va_get_section st1 0x80002005 = Some (Some (0, 0))"
    by (simp add: va_get_section_def small_bank_def)
  then show ?thesis
    using va_to_pa_of_run [OF a(2) small_listed, of 1 5 "0x80002005"] a(1) small_bank_section
    by (simp add: small_section_def is_align_def)
qed

end
