(* ===== verification/Mmu.thy ===== *)
theory Mmu
  imports Prelude
begin

text \<open>
  kernel/mmu.c, arch/x86/kernel/x86_mmu.c and the iomap routines of mm/io.c: the
  page-directory and page-table entries of the i386, written into word memory
  through the operation table the kernel installs at boot.  Invalidating a TLB
  entry has no effect on memory and is not represented.
\<close>

section \<open>Definitions\<close>

abbreviation (input) KERNEL_VIRTUAL_BASE :: u32 where "KERNEL_VIRTUAL_BASE \<equiv> 0x80000000"
abbreviation (input) PDE_ATTR_KERNEL_MEMORY :: u32 where "PDE_ATTR_KERNEL_MEMORY \<equiv> 0x00000001"
abbreviation (input) PDE_ATTR_DMA_MEMORY :: u32 where "PDE_ATTR_DMA_MEMORY \<equiv> 0x00000002"
abbreviation (input) PDE_ATTR_IO_MEMORY :: u32 where "PDE_ATTR_IO_MEMORY \<equiv> 0x00000004"
abbreviation (input) PDE_ALIGN_SIZE :: "'a::numeral" where "PDE_ALIGN_SIZE \<equiv> 0x400000"
abbreviation (input) PDE_TABLE_SIZE :: nat where "PDE_TABLE_SIZE \<equiv> 4096"

definition PDE_ALIGN :: "'a::ring_bit_operations \<Rightarrow> 'a" where
  "PDE_ALIGN a = align a PDE_ALIGN_SIZE"

definition PDE_MIN_ALIGN :: "'a::ring_bit_operations \<Rightarrow> 'a" where
  "PDE_MIN_ALIGN a = min_align a PDE_ALIGN_SIZE"

record mmu_ops =
  build_pde_entry :: "addr \<Rightarrow> u32 \<Rightarrow> u32 \<Rightarrow> word_mem \<Rightarrow> word_mem"
  build_pte_pde_entry :: "addr \<Rightarrow> u32 \<Rightarrow> u32 \<Rightarrow> word_mem \<Rightarrow> word_mem"
  build_pte_entry :: "addr \<Rightarrow> u32 \<Rightarrow> u32 \<Rightarrow> word_mem \<Rightarrow> word_mem"
  clear_pte_pde_entry :: "addr \<Rightarrow> word_mem \<Rightarrow> word_mem"
  clear_pte_entry :: "addr \<Rightarrow> word_mem \<Rightarrow> word_mem"
  pte_pde_to_pa :: "addr \<Rightarrow> word_mem \<Rightarrow> u32"
  pte_to_pa :: "addr \<Rightarrow> word_mem \<Rightarrow> u32"

record mmu =
  boot_pde :: addr
  ops :: mmu_ops

definition x86_build_pde_entry :: "addr \<Rightarrow> u32 \<Rightarrow> u32 \<Rightarrow> word_mem \<Rightarrow> word_mem" where
  "x86_build_pde_entry pde_address pa flag m =
     (let pa = pa OR (0x80 OR 0x02 OR 0x01);
          pa = (if flag AND PDE_ATTR_DMA_MEMORY \<noteq> 0 \<or> flag AND PDE_ATTR_IO_MEMORY \<noteq> 0
                then pa OR 0x10 else pa)
      in m(pde_address := pa))"

definition x86_build_pte_pde_entry :: "addr \<Rightarrow> u32 \<Rightarrow> u32 \<Rightarrow> word_mem \<Rightarrow> word_mem" where
  "x86_build_pte_pde_entry pde pa flag m = m(pde := pa OR (0x01 OR 0x02 OR 0x04))"

definition x86_build_pte_entry :: "addr \<Rightarrow> u32 \<Rightarrow> u32 \<Rightarrow> word_mem \<Rightarrow> word_mem" where
  "x86_build_pte_entry pte pa flag m = m(pte := pa OR (0x01 OR 0x02 OR 0x04))"

definition x86_clear_pte_pde_entry :: "addr \<Rightarrow> word_mem \<Rightarrow> word_mem" where
  "x86_clear_pte_pde_entry pde m = m(pde := 0)"

definition x86_clear_pte_entry :: "addr \<Rightarrow> word_mem \<Rightarrow> word_mem" where
  "x86_clear_pte_entry pte m = m(pte := 0)"

definition x86_pte_pde_to_pa :: "addr \<Rightarrow> word_mem \<Rightarrow> u32" where
  "x86_pte_pde_to_pa pde m = m pde AND 0xfffff000"

definition x86_pte_to_pa :: "addr \<Rightarrow> word_mem \<Rightarrow> u32" where
  "x86_pte_to_pa pte m = m pte AND 0xffffff00"

definition x86_mmu_ops :: mmu_ops where
  "x86_mmu_ops =
     \<lparr>build_pde_entry = x86_build_pde_entry,
      build_pte_pde_entry = x86_build_pte_pde_entry,
      build_pte_entry = x86_build_pte_entry,
      clear_pte_pde_entry = x86_clear_pte_pde_entry,
      clear_pte_entry = x86_clear_pte_entry,
      pte_pde_to_pa = x86_pte_pde_to_pa,
      pte_to_pa = x86_pte_to_pa\<rparr>"

definition x86_mmu :: mmu where
  "x86_mmu = \<lparr>boot_pde = KERNEL_VIRTUAL_BASE, ops = x86_mmu_ops\<rparr>"

text \<open>The \<open>while (size)\<close> loop; a size that never reaches 0 does not return.\<close>

partial_function (option) build_pde_loop ::
  "mmu_ops \<Rightarrow> addr \<Rightarrow> u32 \<Rightarrow> int \<Rightarrow> u32 \<Rightarrow> word_mem \<Rightarrow> word_mem option" where
  "build_pde_loop mops pde_addr pa sz flag m =
     (if sz = 0 then Some m
      else build_pde_loop mops (pde_addr + 4) (pa + PDE_ALIGN_SIZE) (sz - PDE_ALIGN_SIZE) flag
             (build_pde_entry mops pde_addr pa flag m))"

definition build_kernel_pde_entry ::
  "mmu \<Rightarrow> u32 \<Rightarrow> u32 \<Rightarrow> int \<Rightarrow> u32 \<Rightarrow> word_mem \<Rightarrow> (u32 \<times> word_mem) option" where
  "build_kernel_pde_entry u vstart pstart sz flag m =
     (if \<not> is_align (word_of_int sz :: u32) PDE_ALIGN_SIZE then Some (word_of_int (- EINVAL), m)
      else let pa = PDE_MIN_ALIGN pstart; va = PDE_MIN_ALIGN vstart;
               ret_va = va + (pstart - pa);
               pde_addr = boot_pde u + (va div PDE_ALIGN_SIZE) * 4 in
        Option.bind (build_pde_loop (ops u) pde_addr pa sz flag m) (\<lambda>m. Some (ret_va, m)))"

definition mmu_create_pde_entry :: "mmu \<Rightarrow> addr \<Rightarrow> u32 \<Rightarrow> word_mem \<Rightarrow> word_mem" where
  "mmu_create_pde_entry u pde_entry_addr pte_base m = build_pte_pde_entry (ops u) pde_entry_addr pte_base 0 m"

definition mmu_create_pte_entry :: "mmu \<Rightarrow> addr \<Rightarrow> u32 \<Rightarrow> word_mem \<Rightarrow> word_mem" where
  "mmu_create_pte_entry u pte_entry_addr pa m = build_pte_entry (ops u) pte_entry_addr pa 0 m"

definition mmu_pde_entry_to_pa :: "mmu \<Rightarrow> addr \<Rightarrow> word_mem \<Rightarrow> u32" where
  "mmu_pde_entry_to_pa u pde m = pte_pde_to_pa (ops u) pde m"

definition mmu_pte_entry_to_pa :: "mmu \<Rightarrow> addr \<Rightarrow> word_mem \<Rightarrow> u32" where
  "mmu_pte_entry_to_pa u pte m = pte_to_pa (ops u) pte m"

text \<open>\<open>memset\<close> of the table, then \<open>memcpy\<close> of its upper half from the boot table.\<close>

definition mmu_copy_kernel_pde :: "mmu \<Rightarrow> addr \<Rightarrow> word_mem \<Rightarrow> word_mem" where
  "mmu_copy_kernel_pde u base m =
     (if base = boot_pde u then m
      else let m = (\<lambda>a. if unat (a - base) < PDE_TABLE_SIZE then 0 else m a) in
        (\<lambda>a. if PDE_TABLE_SIZE div 2 \<le> unat (a - base) \<and> unat (a - base) < PDE_TABLE_SIZE
             then m (boot_pde u + (a - base)) else m a))"

definition mmu_get_boot_pde :: "mmu \<Rightarrow> addr" where
  "mmu_get_boot_pde u = boot_pde u"

definition mmu_clear_pte_entry :: "mmu \<Rightarrow> addr \<Rightarrow> word_mem \<Rightarrow> word_mem" where
  "mmu_clear_pte_entry u pte m = clear_pte_entry (ops u) pte m"

definition mmu_clear_pde_entry :: "mmu \<Rightarrow> addr \<Rightarrow> word_mem \<Rightarrow> word_mem" where
  "mmu_clear_pde_entry u pde m = clear_pte_pde_entry (ops u) pde m"

definition iomap_to_addr :: "mmu \<Rightarrow> u32 \<Rightarrow> u32 \<Rightarrow> word_mem \<Rightarrow> (u32 \<times> word_mem) option" where
  "iomap_to_addr u io_phy vir m = build_kernel_pde_entry u vir io_phy PDE_ALIGN_SIZE PDE_ATTR_IO_MEMORY m"

section \<open>Entries\<close>

text \<open>
  What the page-table code relies on for an entry operation of the table: the
  address stored in an entry is read back, no other word changes, and a cleared
  entry is empty.
\<close>

locale entry_ops =
  fixes build :: "addr \<Rightarrow> u32 \<Rightarrow> u32 \<Rightarrow> word_mem \<Rightarrow> word_mem"
    and clear :: "addr \<Rightarrow> word_mem \<Rightarrow> word_mem"
    and to_pa :: "addr \<Rightarrow> word_mem \<Rightarrow> u32"
  assumes build_pa: "is_align pa 4096 \<Longrightarrow> to_pa e (build e pa f m) = pa"
    and build_used: "build e pa f m e \<noteq> 0"
    and build_frame: "a \<noteq> e \<Longrightarrow> build e pa f m a = m a"
    and clear_empty: "clear e m e = 0"
    and clear_frame: "a \<noteq> e \<Longrightarrow> clear e m a = m a"
    and to_pa_cong: "m e = m' e \<Longrightarrow> to_pa e m = to_pa e m'"
begin

lemma build_all_frame: "a \<notin> fst ` set es \<Longrightarrow> foldl (\<lambda>m (e, pa). build e pa f m) m es a = m a"
  by (induction es arbitrary: m) (auto simp: build_frame)

lemma build_all_pa:
  assumes "distinct (map fst es)" "(e, pa) \<in> set es" "is_align pa 4096"
  shows "to_pa e (foldl (\<lambda>m (e, pa). build e pa f m) m es) = pa"
  using assms
proof (induction es arbitrary: m)
  case (Cons x es)
  show ?case
  proof (cases "x = (e, pa)")
    case True
    then have "e \<notin> fst ` set es" using Cons.prems(1) by simp
    then have "to_pa e (foldl (\<lambda>m (e, pa). build e pa f m) (build e pa f m) es) = to_pa e (build e pa f m)"
      by (intro to_pa_cong build_all_frame)
    then show ?thesis using True build_pa [OF Cons.prems(3)] by simp
  next
    case False
    then show ?thesis using Cons by auto
  qed
qed simp

lemma clear_build_other: "e \<noteq> e' \<Longrightarrow> is_align pa 4096 \<Longrightarrow> to_pa e (clear e' (build e pa f m)) = pa"
  using clear_frame build_pa to_pa_cong by metis

end

lemma or_7_nonzero: "(pa :: u32) OR 7 \<noteq> 0"
proof
  assume "pa OR 7 = 0"
  then have "bit (pa OR 7) 0 = bit (0 :: u32) 0" by simp
  then show False by (simp add: bit_simps)
qed

lemma x86_entry_pa:
  assumes "is_align (pa :: u32) 4096"
  shows "(pa OR 7) AND 0xffffff00 = pa" "(pa OR 7) AND 0xfffff000 = pa"
proof -
  have a: "take_bit 12 pa = 0" using assms is_align_pow2 [of pa 12] by simp
  have "(0xffffff00 :: u32) = NOT (mask 8)" "(0xfffff000 :: u32) = NOT (mask 12)"
    by (simp_all add: mask_eq_exp_minus_1)
  then show "(pa OR 7) AND 0xffffff00 = pa" "(pa OR 7) AND 0xfffff000 = pa"
    using or_flags_and_mask [OF a, of 3 7 8] or_flags_and_mask [OF a, of 3 7 12] by simp_all
qed

lemmas x86_ops_simps = x86_mmu_ops_def x86_build_pte_entry_def x86_build_pte_pde_entry_def
  x86_clear_pte_entry_def x86_clear_pte_pde_entry_def x86_pte_to_pa_def x86_pte_pde_to_pa_def

interpretation x86_pte: entry_ops "build_pte_entry x86_mmu_ops" "clear_pte_entry x86_mmu_ops" "pte_to_pa x86_mmu_ops"
  by unfold_locales (simp_all add: x86_ops_simps x86_entry_pa or_7_nonzero)

interpretation x86_pde: entry_ops "build_pte_pde_entry x86_mmu_ops" "clear_pte_pde_entry x86_mmu_ops" "pte_pde_to_pa x86_mmu_ops"
  by unfold_locales (simp_all add: x86_ops_simps x86_entry_pa or_7_nonzero)

section \<open>Large pages\<close>

text \<open>
  How the processor translates an address through a directory entry for a large
  page: the entry is present and has the size bit, its upper ten bits are the
  frame, and the lower 22 bits of the address are the offset.
\<close>

definition large_page :: "word_mem \<Rightarrow> addr \<Rightarrow> u32 \<Rightarrow> u32 option" where
  "large_page m pd va =
     (let e = m (pd + (va div PDE_ALIGN_SIZE) * 4) in
      if bit e 0 \<and> bit e 7 then Some ((e AND 0xffc00000) + va mod PDE_ALIGN_SIZE) else None)"

definition pde_value :: "u32 \<Rightarrow> u32 \<Rightarrow> u32" where
  "pde_value pa flag = x86_build_pde_entry 0 pa flag (\<lambda>_. 0) 0"

lemma x86_build_pde_entry_eq: "x86_build_pde_entry e pa flag m = m(e := pde_value pa flag)"
  by (simp add: x86_build_pde_entry_def pde_value_def Let_def)

lemma pde_value_bits:
  assumes "take_bit 22 pa = 0"
  shows "bit (pde_value pa flag) 0" "bit (pde_value pa flag) 7" "pde_value pa flag AND 0xffc00000 = pa"
proof -
  have m: "(0xffc00000 :: u32) = NOT (mask 22)" by (simp add: mask_eq_exp_minus_1)
  have e: "pde_value pa flag = pa OR 0x83 \<or> pde_value pa flag = pa OR 0x93"
    by (simp add: pde_value_def x86_build_pde_entry_def Let_def or.assoc)
  then show "bit (pde_value pa flag) 0" "bit (pde_value pa flag) 7" by (auto simp: bit_simps)
  show "pde_value pa flag AND 0xffc00000 = pa"
    using e or_flags_and_mask [OF assms, of 22 "0x83" 22] or_flags_and_mask [OF assms, of 22 "0x93" 22]
    unfolding m by auto
qed

lemma pde_slot_inj:
  fixes pd :: addr
  assumes "i < 2 ^ 30" "j < 2 ^ 30" "pd + 4 * word_of_nat i = pd + 4 * word_of_nat j"
  shows "i = j"
proof -
  have r: "unat (4 * word_of_nat k :: u32) = 4 * k" if "k < 2 ^ 30" for k
  proof -
    have "4 * word_of_nat k = (word_of_nat (4 * k) :: u32)" by simp
    also have "unat \<dots> = 4 * k" using that by (intro unat_word_of_nat) simp
    finally show ?thesis .
  qed
  have "4 * word_of_nat i = (4 * word_of_nat j :: u32)" using assms(3) by simp
  then have "4 * i = 4 * j" using r [OF assms(1)] r [OF assms(2)] by metis
  then show ?thesis by simp
qed

lemma build_pde_loop_x86:
  assumes "n \<le> 1024"
  shows "\<exists>m'. build_pde_loop x86_mmu_ops pd pa (int n * 0x400000) flag m = Some m'
    \<and> (\<forall>i < n. m' (pd + 4 * word_of_nat i) = pde_value (pa + word_of_nat i * 0x400000) flag)
    \<and> (\<forall>a. (\<forall>i < n. a \<noteq> pd + 4 * word_of_nat i) \<longrightarrow> m' a = m a)"
  using assms
proof (induction n arbitrary: pd pa m)
  case 0
  then show ?case by (subst build_pde_loop.simps) simp
next
  case (Suc n)
  let ?m = "m(pd := pde_value pa flag)"
  obtain m' where m': "build_pde_loop x86_mmu_ops (pd + 4) (pa + 0x400000) (int n * 0x400000) flag ?m = Some m'"
    "\<forall>i < n. m' (pd + 4 + 4 * word_of_nat i) = pde_value (pa + 0x400000 + word_of_nat i * 0x400000) flag"
    "\<forall>a. (\<forall>i < n. a \<noteq> pd + 4 + 4 * word_of_nat i) \<longrightarrow> m' a = ?m a"
    using Suc.IH [of "pd + 4" "pa + 0x400000" ?m] Suc_leD [OF Suc.prems] by blast
  have shift: "pd + 4 + 4 * word_of_nat i = pd + 4 * word_of_nat (Suc i)" for i
    by (simp add: algebra_simps)
  have "build_pde_loop x86_mmu_ops pd pa (int (Suc n) * 0x400000) flag m = Some m'"
    using m'(1) by (subst build_pde_loop.simps)
      (simp add: x86_mmu_ops_def x86_build_pde_entry_eq algebra_simps)
  moreover have "m' (pd + 4 * word_of_nat i) = pde_value (pa + word_of_nat i * 0x400000) flag" if "i < Suc n" for i
  proof (cases i)
    case 0
    have "pd \<noteq> pd + 4 + 4 * word_of_nat j" if "j < n" for j
      using pde_slot_inj [of 0 "Suc j" pd] that Suc.prems by (auto simp: shift)
    then show ?thesis using m'(3) 0 by auto
  next
    case (Suc j)
    then show ?thesis using m'(2) that by (simp only: shift [symmetric]) (simp add: algebra_simps)
  qed
  moreover have "m' a = m a" if "\<forall>i < Suc n. a \<noteq> pd + 4 * word_of_nat i" for a
  proof -
    have "a \<noteq> pd" using that [rule_format, of 0] by simp
    moreover have "\<forall>i < n. a \<noteq> pd + 4 + 4 * word_of_nat i" using that by (auto simp: shift)
    ultimately show ?thesis using m'(3) by auto
  qed
  ultimately show ?case by blast
qed

lemma unat_mult_4M: "k < 1024 \<Longrightarrow> unat (word_of_nat k * 0x400000 :: u32) = k * 0x400000"
proof -
  assume k: "k < 1024"
  have "word_of_nat k * 0x400000 = (word_of_nat (k * 0x400000) :: u32)" by simp
  also have "unat \<dots> = k * 0x400000" using k by (intro unat_word_of_nat) simp
  finally show ?thesis .
qed

lemma take_bit_22_add:
  fixes x y :: u32
  assumes "take_bit 22 x = 0" "take_bit 22 y = 0"
  shows "take_bit 22 (x + y) = 0"
  using assms unfolding take_bit_eq_0_iff by (rule dvd_add)

lemma take_bit_22_mult: "take_bit 22 (word_of_nat k * 0x400000 :: u32) = 0"
proof -
  have "word_of_nat k * 0x400000 = (push_bit 22 (word_of_nat k) :: u32)" by (simp add: push_bit_eq_mult)
  then show ?thesis by (simp add: take_bit_push_bit)
qed

lemma min_align_4M: "min_align (x :: u32) 0x400000 = (x div 0x400000) * 0x400000"
  using min_align_pow2 [of x 22] by (simp add: push_bit_eq_mult drop_bit_eq_div)

text \<open>The directory slot of an address inside a mapped range.\<close>

lemma large_slot:
  fixes v0 va :: u32
  assumes "v0 = word_of_nat k * 0x400000" "k + n \<le> 1024" "unat (va - v0) < n * 0x400000"
  obtains i where "i < n" "va div 0x400000 = word_of_nat (k + i)"
    "va mod 0x400000 = va - v0 - word_of_nat i * 0x400000"
proof
  let ?off = "unat (va - v0)"
  define i where "i = ?off div 0x400000"
  have k: "k < 1024" and v0: "unat v0 = k * 0x400000"
    using assms unat_mult_4M [of k] by auto
  show i: "i < n" using assms(3) by (simp add: i_def less_mult_imp_div_less)
  have "unat v0 + ?off < 2 ^ 32" using v0 assms(2,3) by simp
  then have va: "unat va = unat v0 + ?off"
    using unat_add_lem [of v0 "va - v0"] by simp
  have "unat va div 0x400000 = k + i" using va v0 by (simp add: i_def)
  then have "unat (va div 0x400000) = unat (word_of_nat (k + i) :: u32)"
    using i assms(2) by (subst unat_word_of_nat) (simp_all add: unat_div_distrib)
  then show d: "va div 0x400000 = word_of_nat (k + i)" by (simp only: word_unat_eq_iff)
  have "va mod 0x400000 = va - va div 0x400000 * 0x400000" by (rule minus_div_mult_eq_mod [symmetric])
  then show "va mod 0x400000 = va - v0 - word_of_nat i * 0x400000"
    unfolding d assms(1) by (simp add: algebra_simps)
qed

lemma build_pde_maps:
  assumes "unat (vstart div 0x400000) + n \<le> 1024" "0 < n"
  shows "\<exists>ret m'. build_kernel_pde_entry x86_mmu vstart pstart (int n * 0x400000) flag m = Some (ret, m')
    \<and> (\<forall>va. unat (va - PDE_MIN_ALIGN vstart) < n * 0x400000 \<longrightarrow>
          large_page m' (boot_pde x86_mmu) va = Some (PDE_MIN_ALIGN pstart + (va - PDE_MIN_ALIGN vstart)))
    \<and> large_page m' (boot_pde x86_mmu) ret = Some pstart
    \<and> (\<forall>a. (\<forall>i < n. a \<noteq> boot_pde x86_mmu + (vstart div 0x400000) * 4 + 4 * word_of_nat i) \<longrightarrow> m' a = m a)"
proof -
  define k where "k = unat (vstart div 0x400000)"
  have kw: "vstart div 0x400000 = word_of_nat k" by (simp add: k_def)
  have v0: "PDE_MIN_ALIGN vstart = word_of_nat k * 0x400000"
    by (simp add: PDE_MIN_ALIGN_def min_align_4M kw)
  let ?pa = "PDE_MIN_ALIGN pstart" and ?pd = "boot_pde x86_mmu"
  let ?slot = "?pd + word_of_nat k * 4"
  have pa: "take_bit 22 ?pa = 0"
    using is_align_min_align [of pstart 22] by (simp add: PDE_MIN_ALIGN_def is_align_pow2 [of _ 22, simplified])
  have k: "k < 1024" "k + n \<le> 1024" using assms by (auto simp: k_def)
  have div: "word_of_nat k * 0x400000 div 0x400000 = (word_of_nat k :: u32)"
    using unat_mult_4M [OF k(1)] k(1) by (simp add: word_unat_eq_iff unat_div_distrib unat_word_of_nat)
  obtain m' where m': "build_pde_loop x86_mmu_ops ?slot ?pa (int n * 0x400000) flag m = Some m'"
    "\<forall>i < n. m' (?slot + 4 * word_of_nat i) = pde_value (?pa + word_of_nat i * 0x400000) flag"
    "\<forall>a. (\<forall>i < n. a \<noteq> ?slot + 4 * word_of_nat i) \<longrightarrow> m' a = m a"
    using build_pde_loop_x86 [of n ?slot ?pa flag m] k by auto
  have al: "is_align (word_of_int (int n * 0x400000) :: u32) 0x400000"
    using take_bit_22_mult [of n] is_align_pow2 [of "word_of_nat n * 0x400000 :: u32" 22] by simp
  have b: "build_kernel_pde_entry x86_mmu vstart pstart (int n * 0x400000) flag m
      = Some (PDE_MIN_ALIGN vstart + (pstart - ?pa), m')"
    using m'(1) al unfolding build_kernel_pde_entry_def by (simp add: Let_def v0 div x86_mmu_def)
  have tr: "large_page m' ?pd va = Some (?pa + (va - PDE_MIN_ALIGN vstart))"
    if va: "unat (va - PDE_MIN_ALIGN vstart) < n * 0x400000" for va
  proof -
    obtain i where i: "i < n" "va div 0x400000 = word_of_nat (k + i)"
      "va mod 0x400000 = va - PDE_MIN_ALIGN vstart - word_of_nat i * 0x400000"
      using large_slot [OF v0 k(2) va] by blast
    have "?pd + va div 0x400000 * 4 = ?slot + 4 * word_of_nat i" using i(2) by (simp add: algebra_simps)
    then have "m' (?pd + va div 0x400000 * 4) = pde_value (?pa + word_of_nat i * 0x400000) flag"
      using m'(2) [rule_format, OF i(1)] by (simp only:)
    then show ?thesis using pde_value_bits [OF take_bit_22_add [OF pa take_bit_22_mult [of i]]] i(3)
      by (simp add: large_page_def Let_def)
  qed
  have "pstart - ?pa = pstart mod 0x400000"
    by (simp add: PDE_MIN_ALIGN_def min_align_4M minus_div_mult_eq_mod)
  then have "unat (pstart - ?pa) < 0x400000" by (simp add: unat_mod_distrib)
  then have "unat (PDE_MIN_ALIGN vstart + (pstart - ?pa) - PDE_MIN_ALIGN vstart) < n * 0x400000"
    using assms(2) by (cases n) simp_all
  from tr [OF this] have "large_page m' ?pd (PDE_MIN_ALIGN vstart + (pstart - ?pa)) = Some pstart" by simp
  then show ?thesis using b tr m'(3) unfolding kw by blast
qed

section \<open>Properties\<close>

text \<open>
  C23.  \<open>build_kernel_pde_entry\<close> on the i386 returns for every size that is a multiple of
  4 MB and stays inside the address space, and maps what it is asked to map: every
  virtual address of the range translates to the physical address at the same
  offset, the address it returns translates to \<open>pstart\<close>, and no other word of
  memory changes.
\<close>

theorem build_kernel_pde_entry_maps:
  assumes "unat (vstart div 0x400000) + n \<le> 1024" "0 < n"
  shows "\<exists>ret m'. build_kernel_pde_entry x86_mmu vstart pstart (int n * 0x400000) flag m = Some (ret, m')
    \<and> (\<forall>va. unat (va - PDE_MIN_ALIGN vstart) < n * 0x400000 \<longrightarrow>
          large_page m' (boot_pde x86_mmu) va = Some (PDE_MIN_ALIGN pstart + (va - PDE_MIN_ALIGN vstart)))
    \<and> large_page m' (boot_pde x86_mmu) ret = Some pstart
    \<and> (\<forall>a. (\<forall>i < n. a \<noteq> boot_pde x86_mmu + (vstart div 0x400000) * 4 + 4 * word_of_nat i) \<longrightarrow> m' a = m a)"
  by (rule build_pde_maps [OF assms])

theorem build_kernel_pde_entry_maps_witness:
  "\<exists>ret m'. build_kernel_pde_entry x86_mmu 0x80000000 0x00112000 (int 2 * 0x400000) 1 (\<lambda>_. 0) = Some (ret, m')
     \<and> large_page m' (boot_pde x86_mmu) ret = Some 0x00112000"
  using build_kernel_pde_entry_maps [of "0x80000000" 2 "0x00112000" 1 "\<lambda>_. 0"] by auto

lemma table_apart:
  fixes a b s :: u32
  assumes "4096 \<le> unat (a - b)" "4096 \<le> unat (b - a)" "unat s < 4096"
  shows "4096 \<le> unat (b + s - a)"
proof -
  have e: "unat (a - b) + unat (b - a) = 2 ^ 32"
  proof -
    have "(unat (a - b) + unat (b - a)) mod 2 ^ 32 = 0"
      using unat_word_ariths(1) [of "a - b" "b - a"] by simp
    then obtain q where "unat (a - b) + unat (b - a) = 2 ^ 32 * q" by (meson mod_0_imp_dvd dvdE)
    then show ?thesis using unat_u32_less [of "a - b"] unat_u32_less [of "b - a"] assms(1)
      by (cases q; cases "q - 1") auto
  qed
  have "unat (b - a) + unat s < 2 ^ 32" using e assms by linarith
  then have "unat (b - a + s) = unat (b - a) + unat s" by (simp add: unat_add_lem [symmetric])
  moreover have "b + s - a = b - a + s" by simp
  ultimately show ?thesis using assms(2) by (metis trans_le_add1)
qed

lemma slot_value: "unat ((va div 0x400000) * 4 :: u32) = 4 * (unat va div 0x400000)"
proof -
  have "unat va div 0x400000 < 1024" using unat_u32_less [of va] by (simp add: less_mult_imp_div_less)
  moreover have "unat (va div 0x400000) = unat va div 0x400000" by (simp add: unat_div_distrib)
  ultimately show ?thesis by (simp add: unat_word_ariths)
qed

text \<open>
  A new task's page directory, made by \<open>mmu_copy_kernel_pde\<close> in memory apart from
  the boot directory, translates every kernel address as the boot directory does and
  maps no user address; nothing outside of the new directory changes.
\<close>

theorem mmu_copy_kernel_pde_shares_kernel:
  assumes "4096 \<le> unat (base - boot_pde u)" "4096 \<le> unat (boot_pde u - base)"
  shows "large_page (mmu_copy_kernel_pde u base m) base va
           = (if 0x80000000 \<le> va then large_page m (boot_pde u) va else None)
         \<and> (4096 \<le> unat (a - base) \<longrightarrow> mmu_copy_kernel_pde u base m a = m a)"
proof -
  let ?s = "(va div 0x400000) * 4" and ?c = "mmu_copy_kernel_pde u base m"
  have ne: "base \<noteq> boot_pde u" using assms(1) by auto
  have s: "unat ?s < 4096" using slot_value [of va] unat_u32_less [of va] by (simp add: less_mult_imp_div_less)
  have half: "2048 \<le> unat ?s \<longleftrightarrow> 0x80000000 \<le> va"
    unfolding slot_value word_le_nat_alt by (simp add: le_div_geq less_eq_div_iff_mult_less_eq)
  have ap: "4096 \<le> unat (boot_pde u + ?s - base)" by (rule table_apart [OF assms s])
  have "?c (base + ?s) = (if 0x80000000 \<le> va then m (boot_pde u + ?s) else 0)"
    using ne s ap half by (simp add: mmu_copy_kernel_pde_def Let_def)
  moreover have "?c a = m a" if "4096 \<le> unat (a - base)" using that ne by (simp add: mmu_copy_kernel_pde_def Let_def)
  ultimately show ?thesis by (simp add: large_page_def Let_def)
qed

theorem mmu_copy_kernel_pde_shares_kernel_witness:
  "large_page (mmu_copy_kernel_pde x86_mmu 0x80100000 (\<lambda>_. 0x00400083)) 0x80100000 0x80000123 = Some 0x00400123
   \<and> large_page (mmu_copy_kernel_pde x86_mmu 0x80100000 (\<lambda>_. 0x00400083)) 0x80100000 0x123 = None"
  using mmu_copy_kernel_pde_shares_kernel [of "0x80100000" x86_mmu "\<lambda>_. 0x00400083" "0x80000123" 0]
    mmu_copy_kernel_pde_shares_kernel [of "0x80100000" x86_mmu "\<lambda>_. 0x00400083" "0x123" 0]
  by (simp add: x86_mmu_def large_page_def)

text \<open>
  A page table filled through \<open>mmu_create_pte_entry\<close> gives every page back: after
  entries for distinct slots have been written, \<open>mmu_pte_entry_to_pa\<close> of each slot is
  the physical page it was given, and every other word is unchanged.
\<close>

theorem mmu_pte_roundtrip:
  assumes "distinct (map fst es)" "\<forall>(e, pa) \<in> set es. is_align pa 4096"
  shows "(\<forall>(e, pa) \<in> set es. mmu_pte_entry_to_pa x86_mmu e
             (foldl (\<lambda>m (e, pa). mmu_create_pte_entry x86_mmu e pa m) m es) = pa)
         \<and> (a \<notin> fst ` set es \<longrightarrow> foldl (\<lambda>m (e, pa). mmu_create_pte_entry x86_mmu e pa m) m es a = m a)"
  using x86_pte.build_all_pa [OF assms(1)] x86_pte.build_all_frame [of a es] assms(2)
  by (auto simp: mmu_pte_entry_to_pa_def mmu_create_pte_entry_def x86_mmu_def)

theorem mmu_pte_roundtrip_witness:
  "mmu_pte_entry_to_pa x86_mmu 0x1004
     (foldl (\<lambda>m (e, pa). mmu_create_pte_entry x86_mmu e pa m) (\<lambda>_. 0) [(0x1000, 0x5000), (0x1004, 0x9000)]) = 0x9000"
  using mmu_pte_roundtrip [of "[(0x1000, 0x5000), (0x1004, 0x9000)]" "\<lambda>_. 0" 0] by (simp add: is_align_def)

end
