(* ===== verification/Mm_Boot.thy ===== *)
theory Mm_Boot
  imports Mm Mmu "HOL-Library.Multiset"
begin

text \<open>
  mm/mm.c at boot: from the memory regions the platform reports to the zones,
  sections, page descriptors and bitmaps the allocator works on.  The routines
  follow the order of \<open>mm_init\<close>.  \<^const>\<open>None\<close> is a panic, a read of a variable that was
  never set, a page-directory loop that does not end, or a write past the section table.
\<close>

section \<open>Regions\<close>

abbreviation (input) KERNEL_VIRTUAL_SIZE :: int where "KERNEL_VIRTUAL_SIZE \<equiv> 0x40000000"
abbreviation (input) KERNEL_DMA_BASE :: u32 where "KERNEL_DMA_BASE \<equiv> 0xc0000000"
abbreviation (input) KERNEL_DMA_SIZE :: int where "KERNEL_DMA_SIZE \<equiv> 0x8000000"
abbreviation (input) ZONE_MAX_SECTION :: nat where "ZONE_MAX_SECTION \<equiv> 4"
abbreviation (input) NR_SECTION_TABLE :: nat where "NR_SECTION_TABLE \<equiv> 13"
abbreviation (input) DMA_MEM :: nat where "DMA_MEM \<equiv> 1"
abbreviation (input) UNKNOWN_MEM :: nat where "UNKNOWN_MEM \<equiv> 3"

record memory_region =
  rg_start :: u32
  rg_size :: u32
  rg_attr :: nat

record soc_memory_info =
  code_start :: u32
  code_end :: u32
  init_start :: u32
  init_end :: u32
  bss_start :: u32
  bss_end :: u32
  kernel_physical_start :: u32
  kernel_virtual_start :: u32
  region :: "memory_region list"
  region_nr :: nat

definition init_memory_bank :: "mm_state \<Rightarrow> mm_state" where
  "init_memory_bank st = st\<lparr>bank := \<lparr>total_size = 0, total_page = 0, zone = replicate 4 empty_zone\<rparr>\<rparr>"

definition insert_region_to_zone :: "memory_region \<Rightarrow> mm_zone \<Rightarrow> int \<times> mm_zone" where
  "insert_region_to_zone r z =
     (let end_addr = min_align (rg_start r + rg_size r) 4096;
          base_addr = align (rg_start r) 4096;
          sz = sint (end_addr - base_addr) in
      if sz < 4096 then (0, z)
      else if nr_section z = int ZONE_MAX_SECTION then (0, z)
      else
        let i = nat (nr_section z);
            s = (memory_section z ! i)\<lparr>phy_start := base_addr, nr_page := drop_bit 12 sz,
                   nr_free_pages := drop_bit 12 sz, sec_size := sz\<rparr>
        in (sz, z\<lparr>memory_section := (memory_section z)[i := s], nr_section := nr_section z + 1,
                   page_num := page_num z + nr_page s, zone_nr_free_pages := page_num z + nr_page s\<rparr>))"

text \<open>The inner loop: the index of the smallest start from \<open>i\<close> on.\<close>

definition min_region :: "memory_region list \<Rightarrow> nat \<Rightarrow> nat \<Rightarrow> nat" where
  "min_region rs n i =
     foldl (\<lambda>m j. if rg_start (rs ! m) > rg_start (rs ! j) then j else m) i [Suc i..<n]"

definition sort_step :: "nat \<Rightarrow> memory_region list \<Rightarrow> nat \<Rightarrow> memory_region list" where
  "sort_step n rs i =
     (let m = min_region rs n i in if m \<noteq> i then rs[i := rs ! m, m := rs ! i] else rs)"

definition sort_regions :: "nat \<Rightarrow> memory_region list \<Rightarrow> memory_region list" where
  "sort_regions n rs = foldl (sort_step n) rs [0..<n]"

definition insert_regions :: "memory_region list \<Rightarrow> mm_state \<Rightarrow> mm_state" where
  "insert_regions rs st =
     foldl (\<lambda>st r.
        if rg_attr r \<ge> UNKNOWN_MEM then st
        else
          let (sz, z) = insert_region_to_zone r (zone (bank st) ! rg_attr r);
              st = upd_zone (rg_attr r) (\<lambda>_. z) st
          in st\<lparr>bank := (bank st)\<lparr>total_size := total_size (bank st) + word_of_int sz\<rparr>\<rparr>) st rs"

definition get_memory_sections :: "soc_memory_info \<Rightarrow> mm_state \<Rightarrow> (soc_memory_info \<times> mm_state) option" where
  "get_memory_sections info st =
     (if region_nr info = 0 then None
      else
        let rs = sort_regions (region_nr info) (region info);
            st = insert_regions (take (region_nr info) rs) st
        in Some (info\<lparr>region := rs\<rparr>,
                 st\<lparr>bank := (bank st)\<lparr>total_page := drop_bit 12 (total_size (bank st))\<rparr>\<rparr>))"

definition alloc_dma_section :: "mm_state \<Rightarrow> mm_state" where
  "alloc_dma_section st =
     (let z = zone (bank st) ! 0;
          sz = drop_bit 4 (page_num z);
          sz = (if push_bit 12 sz > KERNEL_DMA_SIZE then drop_bit 12 KERNEL_DMA_SIZE else sz);
          i = nat (nr_section z - 1);
          pr = memory_section z ! i;
          rtmp = \<lparr>rg_start = phy_start pr + word_of_int (push_bit 12 (nr_page pr - sz)),
                  rg_size = word_of_int (push_bit 12 sz), rg_attr = DMA_MEM\<rparr>;
          st = upd_section (0, i) (\<lambda>s. s\<lparr>nr_page := nr_page s - sz, nr_free_pages := nr_free_pages s - sz,
                 sec_size := sec_size s - push_bit 12 sz\<rparr>) st;
          st = upd_zone 0 (\<lambda>z. z\<lparr>page_num := page_num z - sz, zone_nr_free_pages := page_num z - sz\<rparr>) st
      in upd_zone 1 (\<lambda>z. snd (insert_region_to_zone rtmp z)) st)"

definition analyse_soc_memory_info :: "soc_memory_info \<Rightarrow> mm_state \<Rightarrow> (soc_memory_info \<times> mm_state) option" where
  "analyse_soc_memory_info info st =
     map_option (\<lambda>(info, st). (info, if nr_section (zone (bank st) ! 1) = 0 then alloc_dma_section st else st))
       (get_memory_sections info st)"

section \<open>Mapping\<close>

definition map_boot_section :: "mmu \<Rightarrow> mm_section \<Rightarrow> int \<Rightarrow> u32 \<Rightarrow> word_mem \<Rightarrow> word_mem option" where
  "map_boot_section u s mapped flg m =
     (let vstart = KERNEL_VIRTUAL_BASE + word_of_int mapped;
          msize = maped_size s - mapped;
          pstart = phy_start s + (vstart - vir_start s) in
      if msize > 0 then map_option snd (build_kernel_pde_entry u vstart pstart msize flg m) else Some m)"

definition map_section :: "mmu \<Rightarrow> u32 \<Rightarrow> u32 \<Rightarrow> mm_section \<Rightarrow> word_mem \<Rightarrow> word_mem option" where
  "map_section u already_map flg s m =
     (if maped_size s = 0 then Some m
      else
        let start = vir_start s; last_addr = vir_start s + word_of_int (sec_size s) in
        if KERNEL_VIRTUAL_BASE \<ge> start \<and> KERNEL_VIRTUAL_BASE < last_addr
        then map_boot_section u s (sint already_map) flg m
        else map_option snd (build_kernel_pde_entry u (vir_start s) (phy_start s) (maped_size s) flg m))"

text \<open>The zones below the user zone, kernel and reserved cached, DMA uncached.\<close>

definition zone_pde_attr :: "nat \<Rightarrow> u32" where
  "zone_pde_attr i = (if i = 1 then PDE_ATTR_DMA_MEMORY else PDE_ATTR_KERNEL_MEMORY)"

definition do_map_kernel_memory :: "mmu \<Rightarrow> soc_memory_info \<Rightarrow> mm_state \<Rightarrow> mm_state option" where
  "do_map_kernel_memory u info st =
     (let already_map = align (code_end info - KERNEL_VIRTUAL_BASE) PDE_ALIGN_SIZE;
          secs = concat (map (\<lambda>i. map (Pair (zone_pde_attr i))
                    (take (nat (nr_section (zone (bank st) ! i))) (memory_section (zone (bank st) ! i)))) [0, 1, 2])
      in map_option (\<lambda>m. st\<lparr>words := m\<rparr>)
           (foldl (\<lambda>om (flg, s). Option.bind om (map_section u already_map flg s)) (Some (words st)) secs))"

text \<open>
  One pass of the loop of \<open>map_zone_memory\<close> per section; the base moves on, and the
  loop ends early when it meets the end of the window exactly.
\<close>

fun map_zone_loop :: "u32 \<Rightarrow> u32 \<Rightarrow> nat list \<Rightarrow> mm_zone \<Rightarrow> mm_zone" where
  "map_zone_loop zone_map_end base [] z = z"
| "map_zone_loop zone_map_end base (i # is) z =
     (let s = memory_section z ! i in
      if maped_size s \<noteq> 0 then map_zone_loop zone_map_end base is z
      else
        let tmp = sint (phy_start s - PDE_MIN_ALIGN (phy_start s));
            base = base + word_of_int tmp;
            msz = sint (zone_map_end - base);
            msz = (if msz > sec_size s then sec_size s else msz);
            s' = s\<lparr>vir_start := base, pv_offset := sint (base - phy_start s), maped_size := msz\<rparr>;
            base' = PDE_ALIGN (base + word_of_int msz);
            z = z\<lparr>memory_section := (memory_section z)[i := s'], zone_maped_size := zone_maped_size z + msz,
                   map_base := base'\<rparr>
        in if base' = zone_map_end then z else map_zone_loop zone_map_end base' is z)"

definition map_zone_memory :: "mm_zone \<Rightarrow> int \<Rightarrow> int \<times> mm_zone" where
  "map_zone_memory z sz =
     (if sz \<le> 0 then (- EINVAL, z)
      else
        let zone_map_end = map_base z + word_of_int sz in
        if map_base z = zone_map_end then (0, z)
        else (0, map_zone_loop zone_map_end (map_base z) [0..<nat (nr_section z)] z))"

text \<open>The first loop of \<open>map_kernel_memory\<close>: the section the kernel was loaded in.\<close>

definition map_boot_zone :: "soc_memory_info \<Rightarrow> mm_zone \<Rightarrow> (int \<times> mm_zone) option" where
  "map_boot_zone info z =
     map_option (\<lambda>i.
        let s = memory_section z ! i;
            sz = (if sec_size s > KERNEL_VIRTUAL_SIZE then KERNEL_VIRTUAL_SIZE else sec_size s);
            s' = s\<lparr>vir_start := map_base z, pv_offset := sint (map_base z - phy_start s), maped_size := sz\<rparr>
        in (sz, z\<lparr>memory_section := (memory_section z)[i := s'], zone_maped_size := zone_maped_size z + sz,
                  map_base := map_base z + word_of_int (PDE_ALIGN sz)\<rparr>))
       (List.find (\<lambda>i. phy_start (memory_section z ! i) = kernel_physical_start info) [0..<nat (nr_section z)])"

text \<open>Without such a section \<open>size\<close> is used before it is set.\<close>

definition map_kernel_memory :: "soc_memory_info \<Rightarrow> mm_state \<Rightarrow> mm_state option" where
  "map_kernel_memory info st =
     (let st = upd_zone 0 (\<lambda>z. z\<lparr>map_base := KERNEL_VIRTUAL_BASE\<rparr>) st in
      map_option (\<lambda>(sz, z). upd_zone 0 (\<lambda>_. snd (map_zone_memory z (KERNEL_VIRTUAL_SIZE - PDE_ALIGN sz))) st)
        (map_boot_zone info (zone (bank st) ! 0)))"

definition map_dma_memory :: "mm_state \<Rightarrow> mm_state" where
  "map_dma_memory st =
     upd_zone 1 (\<lambda>z. snd (map_zone_memory (z\<lparr>map_base := KERNEL_DMA_BASE\<rparr>) KERNEL_DMA_SIZE)) st"

definition map_res_memory :: "mm_state \<Rightarrow> mm_state" where
  "map_res_memory st =
     (let kbase = map_base (zone (bank st) ! 0);
          map_size = sint (KERNEL_VIRTUAL_BASE + word_of_int KERNEL_VIRTUAL_SIZE - kbase)
      in upd_zone 2 (\<lambda>z. snd (map_zone_memory (z\<lparr>map_base := kbase\<rparr>) map_size)) st)"

definition map_memory :: "mmu \<Rightarrow> soc_memory_info \<Rightarrow> mm_state \<Rightarrow> mm_state option" where
  "map_memory u info st =
     Option.bind (map_kernel_memory info st) (\<lambda>st.
       do_map_kernel_memory u info (map_res_memory (map_dma_memory st)))"

section \<open>Descriptors, bitmaps and the section table\<close>

text \<open>The sections in use, zone by zone.\<close>

definition used_sections :: "mm_state \<Rightarrow> sref list" where
  "used_sections st =
     concat (map (\<lambda>i. map (Pair i) [0..<nat (nr_section (zone (bank st) ! i))]) [0, 1, 2, 3])"

definition init_sections_page_table :: "addr \<Rightarrow> mm_state \<Rightarrow> addr \<times> mm_state" where
  "init_sections_page_table base st =
     (let (tmp, st) = foldl (\<lambda>(tmp, st) r.
            (tmp + PAGE_STRUCT * word_of_int (nr_page (section_of st r)),
             upd_section r (\<lambda>s. s\<lparr>page_table := tmp\<rparr>) st)) (base, st) (used_sections st)
      in (tmp, st\<lparr>pages := (\<lambda>a. if unat (a - base) < unat (tmp - base) then empty_page else pages st a),
                   links := \<lparr>lnext = (\<lambda>a. if unat (a - base) < unat (tmp - base) then 0 else lnext (links st) a),
                              lpre = (\<lambda>a. if unat (a - base) < unat (tmp - base) then 0 else lpre (links st) a)\<rparr>\<rparr>))"

definition init_sections_bitmap :: "addr \<Rightarrow> mm_state \<Rightarrow> addr \<times> mm_state" where
  "init_sections_bitmap base st =
     (let (tmp, st) = foldl (\<lambda>(tmp, st) r.
            (tmp + 4 * bits_to_long (nr_page (section_of st r)),
             upd_section r (\<lambda>s. s\<lparr>bitmap := tmp, bm_current := 0, bm_end := word_of_int (nr_page s)\<rparr>) st))
            (base, st) (used_sections st)
      in (tmp, st\<lparr>words := (\<lambda>a. if unat (a - base) < unat (tmp - base) then 0 else words st a)\<rparr>))"

fun boot_pages_loop :: "nat \<Rightarrow> int \<Rightarrow> addr \<Rightarrow> int \<Rightarrow> u32 \<Rightarrow> addr \<Rightarrow> mm_state \<Rightarrow> mm_state" where
  "boot_pages_loop 0 i bm pvo tmp pg st = st"
| "boot_pages_loop (Suc n) i bm pvo tmp pg st =
     boot_pages_loop n (i + 1) bm pvo (tmp + 4096) (pg + PAGE_STRUCT)
       (st\<lparr>words := set_bit (words st) bm i,
           pages := (pages st)(pg := (pages st pg)\<lparr>phy_address := tmp - word_of_int pvo, map_address := tmp,
                                     pg_count := 1, flag := GFP_KERNEL\<rparr>),
           links := init_list (links st) (pg + PLIST)\<rparr>)"

definition update_boot_section_info :: "sref \<Rightarrow> int \<Rightarrow> mm_state \<Rightarrow> int \<times> mm_state" where
  "update_boot_section_info r kernel_boot_page st =
     (let s = section_of st r in
      if vir_start s \<noteq> KERNEL_VIRTUAL_BASE then (- EINVAL, st)
      else
        let st = boot_pages_loop (nat kernel_boot_page) 0 (bitmap s) (pv_offset s) (vir_start s) (page_table s) st
        in (0, upd_section r (\<lambda>s. s\<lparr>bm_current := word_of_int kernel_boot_page,
                                  nr_free_pages := nr_free_pages s - kernel_boot_page\<rparr>) st))"

text \<open>The section at the kernel base, or the last one of the zone when there is none.\<close>

definition boot_section :: "mm_zone \<Rightarrow> nat option" where
  "boot_section z =
     (case List.find (\<lambda>i. vir_start (memory_section z ! i) = KERNEL_VIRTUAL_BASE) [0..<nat (nr_section z)] of
        Some i \<Rightarrow> Some i
      | None \<Rightarrow> if nr_section z \<le> 0 then None else Some (nat (nr_section z) - 1))"

definition init_page_table :: "soc_memory_info \<Rightarrow> mm_state \<Rightarrow> mm_state option" where
  "init_page_table info st =
     (let (base, st) = init_sections_page_table (align (code_end info) 4) st;
          (base, st) = init_sections_bitmap (align base 4) st
      in map_option (\<lambda>i.
           let sz = drop_bit 12 (align base 4096 - KERNEL_VIRTUAL_BASE);
               st = upd_zone 0 (\<lambda>z. z\<lparr>zone_nr_free_pages := zone_nr_free_pages z - uint sz\<rparr>) st
           in snd (update_boot_section_info (0, i) (uint sz) st)) (boot_section (zone (bank st) ! 0)))"

text \<open>One iteration of \<open>init_user_zone\<close>: \<open>j\<close> counts the user sections made so far.\<close>

definition user_zone_step :: "nat \<times> mm_state \<Rightarrow> nat \<Rightarrow> nat \<times> mm_state" where
  "user_zone_step p i =
     (let (j, st) = p; s = section_of st (0, i) in
      if maped_size s < push_bit 12 (nr_page s) then
        let mp = drop_bit 12 (maped_size s);
            up = nr_page s - mp;
            us = (section_of st (3, j))\<lparr>phy_start := phy_start s + word_of_int (maped_size s), vir_start := 0,
                   pv_offset := 0, nr_page := up, sec_size := push_bit 12 up, maped_size := 0,
                   bm_end := word_of_int up, bm_current := 0, nr_free_pages := up,
                   bitmap := bitmap s + 4 * bits_to_long mp,
                   page_table := page_table s + PAGE_STRUCT * word_of_int mp\<rparr>;
            s' = s\<lparr>nr_page := nr_page s - up, nr_free_pages := nr_free_pages s - up,
                   sec_size := sec_size s - push_bit 12 up, bm_end := word_of_int (nr_page s - up)\<rparr>;
            gone = (maped_size s = 0);
            st = upd_section (3, j) (\<lambda>_. us) st;
            st = upd_zone 3 (\<lambda>z. z\<lparr>nr_section := nr_section z + 1, page_num := page_num z + up,
                                  zone_nr_free_pages := zone_nr_free_pages z + up\<rparr>) st;
            st = upd_section (0, i) (\<lambda>_. if gone then empty_section else s') st;
            st = upd_zone 0 (\<lambda>z. z\<lparr>nr_section := (if gone then nr_section z - 1 else nr_section z),
                                  page_num := page_num z - up, zone_nr_free_pages := zone_nr_free_pages z - up\<rparr>) st
        in (Suc j, st)
      else (j, st))"

definition init_user_zone :: "mm_state \<Rightarrow> mm_state" where
  "init_user_zone st = snd (foldl user_zone_step (0, st) [0..<nat (nr_section (zone (bank st) ! 0))])"

text \<open>All sixteen section slots are visited, the table has thirteen entries.\<close>

definition section_table_step :: "(nat \<times> mm_state) option \<Rightarrow> sref \<Rightarrow> (nat \<times> mm_state) option" where
  "section_table_step p r =
     Option.bind p (\<lambda>(k, st).
       if sec_size (section_of st r) = 0 then Some (k, st)
       else if k \<ge> length (section_table st) then None
       else Some (Suc k, (upd_section r (\<lambda>s. s\<lparr>section_table_id := int k\<rparr>) st)
                           \<lparr>section_table := (section_table st)[k := Some r]\<rparr>))"

definition all_sections :: "sref list" where
  "all_sections = [(i, j). i \<leftarrow> [0, 1, 2, 3], j \<leftarrow> [0, 1, 2, 3]]"

definition update_section_table :: "mm_state \<Rightarrow> mm_state option" where
  "update_section_table st = map_option snd (foldl section_table_step (Some (0, st)) all_sections)"

definition mm_init :: "mmu \<Rightarrow> soc_memory_info \<Rightarrow> mm_state \<Rightarrow> (soc_memory_info \<times> mm_state) option" where
  "mm_init u info st =
     Option.bind (analyse_soc_memory_info info (init_memory_bank st)) (\<lambda>(info, st).
       Option.bind (map_memory u info st) (\<lambda>st.
         Option.bind (init_page_table info st) (\<lambda>st.
           map_option (Pair info) (update_section_table (init_user_zone st)))))"

section \<open>The regions are sorted\<close>

lemma min_region_least:
  assumes "i < n"
  shows "i \<le> min_region rs n i \<and> min_region rs n i < n
    \<and> (\<forall>j \<in> {i..<n}. rg_start (rs ! min_region rs n i) \<le> rg_start (rs ! j))"
  using assms
proof (induction n)
  case (Suc n)
  show ?case
  proof (cases "i = n")
    case True
    then show ?thesis by (simp add: min_region_def)
  next
    case False
    then have "i < n" using Suc.prems by simp
    then have "[Suc i..<Suc n] = [Suc i..<n] @ [n]" by simp
    then have "min_region rs (Suc n) i =
        (if rg_start (rs ! min_region rs n i) > rg_start (rs ! n) then n else min_region rs n i)"
      by (simp add: min_region_def)
    moreover have "rg_start (rs ! n) \<le> rg_start (rs ! j)"
      if "rg_start (rs ! min_region rs n i) > rg_start (rs ! n)" "j \<in> {i..<n}" for j
      using Suc.IH [OF \<open>i < n\<close>] that by (meson less_le_trans less_imp_le)
    ultimately show ?thesis using Suc.IH [OF \<open>i < n\<close>] \<open>i < n\<close> by (auto simp: less_Suc_eq)
  qed
qed simp

definition sorted_upto :: "nat \<Rightarrow> nat \<Rightarrow> memory_region list \<Rightarrow> bool" where
  "sorted_upto n i rs \<longleftrightarrow> (\<forall>a b. a < i \<longrightarrow> a < b \<longrightarrow> b < n \<longrightarrow> rg_start (rs ! a) \<le> rg_start (rs ! b))"

lemma sort_step_props:
  assumes "i < n" "n \<le> length rs"
  shows "mset (sort_step n rs i) = mset rs" "length (sort_step n rs i) = length rs"
    "drop n (sort_step n rs i) = drop n rs"
    "sorted_upto n i rs \<Longrightarrow> sorted_upto n (Suc i) (sort_step n rs i)"
proof -
  let ?m = "min_region rs n i"
  have m: "i \<le> ?m" "?m < n" "\<forall>j \<in> {i..<n}. rg_start (rs ! ?m) \<le> rg_start (rs ! j)"
    using min_region_least [OF assms(1)] by auto
  show "mset (sort_step n rs i) = mset rs"
    using m assms by (simp add: sort_step_def Let_def mset_swap)
  show "length (sort_step n rs i) = length rs" by (simp add: sort_step_def Let_def)
  show "drop n (sort_step n rs i) = drop n rs"
    using m assms by (simp add: sort_step_def Let_def drop_update_cancel)
  show "sorted_upto n (Suc i) (sort_step n rs i)" if s: "sorted_upto n i rs"
    unfolding sorted_upto_def
  proof (intro allI impI)
    fix a b assume ab: "a < Suc i" "a < b" "b < n"
    have nth: "sort_step n rs i ! k = (if k = i then rs ! ?m else if k = ?m then rs ! i else rs ! k)" if "k < n" for k
      using m assms that by (auto simp: sort_step_def Let_def nth_list_update)
    show "rg_start (sort_step n rs i ! a) \<le> rg_start (sort_step n rs i ! b)"
    proof (cases "a = i")
      case True
      then show ?thesis using m ab assms nth [of a] nth [of b] by auto
    next
      case False
      then have "a < i" using ab by simp
      then show ?thesis using s ab m assms nth [of a] nth [of b] unfolding sorted_upto_def by auto
    qed
  qed
qed

lemma sort_regions_inv:
  assumes "n \<le> length rs" "k \<le> n"
  shows "let rs' = foldl (sort_step n) rs [0..<k] in
    mset rs' = mset rs \<and> length rs' = length rs \<and> drop n rs' = drop n rs \<and> sorted_upto n k rs'"
  using assms(2)
proof (induction k)
  case 0
  then show ?case by (simp add: sorted_upto_def)
next
  case (Suc k)
  then show ?case using sort_step_props [of k n "foldl (sort_step n) rs [0..<k]"] assms(1) by (simp add: Let_def)
qed

section \<open>Regions become sections\<close>

lemma uint_min_align_4096: "uint (min_align (x :: u32) 4096) = uint x div 4096 * 4096"
  using arg_cong [OF unat_min_align [of x 12], of int] by (simp add: zdiv_int)

lemma uint_align_4096:
  assumes "uint (x :: u32) + 4095 < 2 ^ 32"
  shows "uint (align x 4096) = (uint x + 4095) div 4096 * 4096"
proof -
  have "uint (x + 4095) = uint x + 4095"
    using assms by (simp add: uint_word_ariths)
  moreover have "align x 4096 = min_align (x + 4095) 4096" using align_pow2 [of x 12] by simp
  ultimately show ?thesis by (simp add: uint_min_align_4096)
qed

lemma sint_diff_u32:
  assumes "\<bar>uint (x :: u32) - uint y\<bar> < 2 ^ 31"
  shows "sint (x - y) = uint x - uint y"
proof -
  have "x - y = word_of_int (uint x - uint y)" by simp
  then show ?thesis using assms by (simp only:) (intro sint_word_of_int_u32, auto)
qed

text \<open>The whole pages of a region: the first one, and the one after the last.\<close>

abbreviation first_page :: "memory_region \<Rightarrow> int" where
  "first_page r \<equiv> (uint (rg_start r) + 4095) div 4096"

abbreviation end_page :: "memory_region \<Rightarrow> int" where
  "end_page r \<equiv> (uint (rg_start r) + uint (rg_size r)) div 4096"

lemma insert_region_bounds:
  assumes "uint (rg_start r) + uint (rg_size r) + 4095 < 2 ^ 32"
  shows "uint (min_align (rg_start r + rg_size r) 4096) = end_page r * 4096"
    "uint (align (rg_start r) 4096) = first_page r * 4096"
    "first_page r - 1 \<le> end_page r"
proof -
  have "uint (rg_start r + rg_size r) = uint (rg_start r) + uint (rg_size r)"
    using assms by (simp add: uint_word_ariths)
  then show "uint (min_align (rg_start r + rg_size r) 4096) = end_page r * 4096"
    by (simp add: uint_min_align_4096)
  have "uint (rg_start r) + 4095 < 2 ^ 32" using assms uint_ge_0 [of "rg_size r"] by linarith
  then show "uint (align (rg_start r) 4096) = first_page r * 4096" by (rule uint_align_4096)
  have "first_page r \<le> (uint (rg_start r) + uint (rg_size r) + 4096) div 4096"
    by (intro zdiv_mono1) simp_all
  then show "first_page r - 1 \<le> end_page r" by simp
qed

section \<open>The section table\<close>

definition nonempty :: "mm_state \<Rightarrow> sref \<Rightarrow> bool" where
  "nonempty st r \<longleftrightarrow> sec_size (section_of st r) \<noteq> 0"

text \<open>The first \<open>k\<close> entries are filled; the sections of \<open>dn\<close> are entered under their numbers.\<close>

definition table_inv :: "mm_state \<Rightarrow> sref set \<Rightarrow> nat \<Rightarrow> bool" where
  "table_inv st dn k \<longleftrightarrow> k \<le> length (section_table st)
     \<and> (\<forall>r \<in> dn. nonempty st r \<longrightarrow> (\<exists>i < k. section_table_id (section_of st r) = int i \<and> section_table st ! i = Some r))"

definition same_sections :: "mm_state \<Rightarrow> mm_state \<Rightarrow> bool" where
  "same_sections st st' \<longleftrightarrow> length (section_table st') = length (section_table st)
     \<and> (\<forall>r. sref_ok st' r = sref_ok st r \<and> (\<exists>i. section_of st' r = (section_of st r)\<lparr>section_table_id := i\<rparr>))"

lemma same_sections_refl: "same_sections st st"
  unfolding same_sections_def by (metis mm_section.surjective mm_section.update_convs(11))

lemma same_sections_trans: "same_sections a b \<Longrightarrow> same_sections b c \<Longrightarrow> same_sections a c"
  unfolding same_sections_def by (metis (no_types, lifting) mm_section.surjective mm_section.update_convs(11))

lemma same_sections_nonempty: "same_sections a b \<Longrightarrow> nonempty b r = nonempty a r"
proof -
  assume "same_sections a b"
  then obtain i where "section_of b r = (section_of a r)\<lparr>section_table_id := i\<rparr>" unfolding same_sections_def by blast
  then show ?thesis by (simp add: nonempty_def)
qed

lemma section_table_step_some:
  assumes "sref_ok st r" "nonempty st r" "k < length (section_table st)" "table_inv st dn k" "r \<notin> dn"
  shows "\<exists>st'. section_table_step (Some (k, st)) r = Some (Suc k, st') \<and> table_inv st' (insert r dn) (Suc k) \<and> same_sections st st'"
proof -
  let ?st = "(upd_section r (\<lambda>s. s\<lparr>section_table_id := int k\<rparr>) st)\<lparr>section_table := (section_table st)[k := Some r]\<rparr>"
  have sec: "section_of ?st q = (if q = r then (section_of st r)\<lparr>section_table_id := int k\<rparr> else section_of st q)" for q
  proof -
    have "section_of ?st q = section_of (upd_section r (\<lambda>s. s\<lparr>section_table_id := int k\<rparr>) st) q" by (simp add: section_of_def)
    then show ?thesis using assms(1) by simp
  qed
  have ok: "sref_ok ?st q = sref_ok st q" for q
  proof -
    have "sref_ok ?st q = sref_ok (upd_section r (\<lambda>s. s\<lparr>section_table_id := int k\<rparr>) st) q" by (simp add: sref_ok_def)
    then show ?thesis by simp
  qed
  have same: "same_sections st ?st"
    using same_sections_refl [of st] sec ok unfolding same_sections_def by auto
  have "\<exists>i < Suc k. section_table_id (section_of ?st q) = int i \<and> section_table ?st ! i = Some q"
    if q: "q \<in> insert r dn" "nonempty ?st q" for q
  proof (cases "q = r")
    case True
    then show ?thesis using sec [of r] assms(3) by (intro exI [of _ k]) simp
  next
    case False
    have "nonempty st q" using q(2) same_sections_nonempty [OF same] by simp
    then obtain i where i: "i < k" "section_table_id (section_of st q) = int i" "section_table st ! i = Some q"
      using assms(4) q(1) False by (auto simp: table_inv_def)
    then show ?thesis using sec [of q] False by (intro exI [of _ i]) simp
  qed
  then have "table_inv ?st (insert r dn) (Suc k)" using assms(3) by (simp add: table_inv_def)
  moreover have "section_table_step (Some (k, st)) r = Some (Suc k, ?st)"
    using assms(2,3) by (simp add: section_table_step_def nonempty_def)
  ultimately show ?thesis using same by blast
qed

lemma section_table_fold_None: "foldl section_table_step None rs = None"
  by (induction rs) (simp_all add: section_table_step_def)

lemma section_table_fold:
  assumes "\<forall>r \<in> set rs. sref_ok st r" "distinct rs" "set rs \<inter> dn = {}" "table_inv st dn k"
  shows "if k + length (filter (nonempty st) rs) \<le> length (section_table st)
    then \<exists>k' st'. foldl section_table_step (Some (k, st)) rs = Some (k', st') \<and> table_inv st' (dn \<union> set rs) k' \<and> same_sections st st'
    else foldl section_table_step (Some (k, st)) rs = None"
  using assms
proof (induction rs arbitrary: k st dn)
  case Nil
  then show ?case using same_sections_refl by (auto simp: table_inv_def)
next
  case (Cons r rs)
  show ?case
  proof (cases "nonempty st r")
    case False
    then have "section_table_step (Some (k, st)) r = Some (k, st)"
      by (simp add: section_table_step_def nonempty_def)
    moreover have "table_inv st (insert r dn) k" using Cons.prems(4) False by (simp add: table_inv_def)
    ultimately show ?thesis using Cons.IH [of st "insert r dn" k] Cons.prems False by auto
  next
    case ne: True
    show ?thesis
    proof (cases "k < length (section_table st)")
      case False
      then have "section_table_step (Some (k, st)) r = None"
        using ne by (simp add: section_table_step_def nonempty_def)
      then show ?thesis using False ne by (simp add: section_table_fold_None)
    next
      case True
      obtain st1 where st1: "section_table_step (Some (k, st)) r = Some (Suc k, st1)"
        "table_inv st1 (insert r dn) (Suc k)" "same_sections st st1"
        using section_table_step_some [OF _ ne True Cons.prems(4)] Cons.prems by auto
      have "nonempty st1 = nonempty st" by (rule ext) (rule same_sections_nonempty [OF st1(3)])
      moreover have "\<forall>q \<in> set rs. sref_ok st1 q" "length (section_table st1) = length (section_table st)"
        using st1(3) Cons.prems(1) by (auto simp: same_sections_def)
      ultimately show ?thesis using Cons.IH [of st1 "insert r dn" "Suc k"] Cons.prems st1 ne same_sections_trans [OF st1(3)]
        by auto
    qed
  qed
qed

section \<open>The layout of the bitmaps\<close>

definition bitmap_step :: "addr \<times> mm_state \<Rightarrow> sref \<Rightarrow> addr \<times> mm_state" where
  "bitmap_step p r = (case p of (tmp, st) \<Rightarrow>
     (tmp + 4 * bits_to_long (nr_page (section_of st r)),
      upd_section r (\<lambda>s. s\<lparr>bitmap := tmp, bm_current := 0, bm_end := word_of_int (nr_page s)\<rparr>) st))"

lemma bitmap_layout:
  assumes "distinct rs" "\<forall>r \<in> set rs. sref_ok st r"
  shows "(\<forall>i < length rs. bitmap (section_of (snd (foldl bitmap_step (base, st) rs)) (rs ! i))
            = base + 4 * sum_list (map (\<lambda>r. bits_to_long (nr_page (section_of st r))) (take i rs)))
    \<and> (\<forall>r. r \<notin> set rs \<longrightarrow> section_of (snd (foldl bitmap_step (base, st) rs)) r = section_of st r)
    \<and> (\<forall>r. nr_page (section_of (snd (foldl bitmap_step (base, st) rs)) r) = nr_page (section_of st r))"
  using assms
proof (induction rs arbitrary: base st)
  case (Cons r rs)
  define st1 where "st1 = upd_section r (\<lambda>s. s\<lparr>bitmap := base, bm_current := 0, bm_end := word_of_int (nr_page s)\<rparr>) st"
  let ?b = "base + 4 * bits_to_long (nr_page (section_of st r))"
  have sec: "section_of st1 q = (if q = r then (section_of st r)\<lparr>bitmap := base, bm_current := 0,
      bm_end := word_of_int (nr_page (section_of st r))\<rparr> else section_of st q)" for q
    using Cons.prems by (simp add: st1_def)
  have np: "nr_page (section_of st1 q) = nr_page (section_of st q)" for q by (simp add: sec)
  have step: "foldl bitmap_step (base, st) (r # rs) = foldl bitmap_step (?b, st1) rs"
    by (simp add: bitmap_step_def st1_def)
  have "\<forall>q \<in> set rs. sref_ok st1 q" using Cons.prems by (simp add: st1_def)
  then have IH: "\<forall>i < length rs. bitmap (section_of (snd (foldl bitmap_step (?b, st1) rs)) (rs ! i))
      = ?b + 4 * sum_list (map (\<lambda>r. bits_to_long (nr_page (section_of st r))) (take i rs))"
    "\<forall>q. q \<notin> set rs \<longrightarrow> section_of (snd (foldl bitmap_step (?b, st1) rs)) q = section_of st1 q"
    "\<forall>q. nr_page (section_of (snd (foldl bitmap_step (?b, st1) rs)) q) = nr_page (section_of st q)"
    using Cons.IH [of st1 ?b] Cons.prems np by auto
  have "bitmap (section_of (snd (foldl bitmap_step (?b, st1) rs)) ((r # rs) ! i))
      = base + 4 * sum_list (map (\<lambda>r. bits_to_long (nr_page (section_of st r))) (take i (r # rs)))"
    if "i < length (r # rs)" for i
    using that IH(1) IH(2) [rule_format, of r] Cons.prems(1) sec [of r] by (cases i) (auto simp: algebra_simps)
  then show ?case unfolding step using IH(2,3) sec by auto
qed simp

lemma init_sections_bitmap_sections:
  "section_of (snd (init_sections_bitmap base st)) r = section_of (snd (foldl bitmap_step (base, st) (used_sections st))) r"
proof -
  have "foldl (\<lambda>(tmp, st) r. (tmp + 4 * bits_to_long (nr_page (section_of st r)),
      upd_section r (\<lambda>s. s\<lparr>bitmap := tmp, bm_current := 0, bm_end := word_of_int (nr_page s)\<rparr>) st)) (base, st) rs
    = foldl bitmap_step (base, st) rs" for rs
    by (rule foldl_cong) (auto simp: bitmap_step_def split: prod.splits)
  then show ?thesis by (simp add: init_sections_bitmap_def split: prod.splits)
qed

lemma distinct_used_sections: "distinct (used_sections st)"
  by (auto simp: used_sections_def distinct_map inj_on_def)

section \<open>Mapping keeps the offset within a large page\<close>

definition congruent :: "mm_section \<Rightarrow> bool" where
  "congruent s \<longleftrightarrow> take_bit 22 (vir_start s - phy_start s) = 0 \<and> pv_offset s = sint (vir_start s - phy_start s)"

definition zone_congruent :: "mm_zone \<Rightarrow> bool" where
  "zone_congruent z \<longleftrightarrow> (\<forall>s \<in> set (memory_section z). maped_size s \<noteq> 0 \<longrightarrow> congruent s)"

lemma take_bit_22_align: "take_bit 22 (PDE_ALIGN (x :: u32)) = 0" "take_bit 22 (PDE_MIN_ALIGN (x :: u32)) = 0"
  using is_align_align [of x 22] is_align_min_align [of x 22] is_align_pow2 [of "align x 0x400000" 22]
    is_align_pow2 [of "min_align x 0x400000" 22] by (simp_all add: PDE_ALIGN_def PDE_MIN_ALIGN_def)

lemma map_zone_loop_congruent:
  assumes "zone_congruent z" "take_bit 22 base = 0" "\<forall>i \<in> set is. i < length (memory_section z)"
  shows "zone_congruent (map_zone_loop e base is z)"
  using assms
proof (induction e base "is" z rule: map_zone_loop.induct)
  case (2 e base i "is" z)
  let ?s = "memory_section z ! i"
  let ?b = "base + word_of_int (sint (phy_start ?s - PDE_MIN_ALIGN (phy_start ?s)))"
  let ?m = "if sint (e - ?b) > sec_size ?s then sec_size ?s else sint (e - ?b)"
  let ?s' = "?s\<lparr>vir_start := ?b, pv_offset := sint (?b - phy_start ?s), maped_size := ?m\<rparr>"
  let ?b' = "PDE_ALIGN (?b + word_of_int ?m)"
  let ?z = "z\<lparr>memory_section := (memory_section z)[i := ?s'], zone_maped_size := zone_maped_size z + ?m, map_base := ?b'\<rparr>"
  show ?case
  proof (cases "maped_size ?s = 0")
    case False
    then show ?thesis using 2 by (simp add: Let_def)
  next
    case True
    have "?b - phy_start ?s = base - PDE_MIN_ALIGN (phy_start ?s)" by simp
    moreover have "take_bit 22 (base - PDE_MIN_ALIGN (phy_start ?s)) = 0"
      using 2(4) take_bit_22_align(2) [of "phy_start ?s"] unfolding take_bit_eq_0_iff by (rule dvd_diff)
    ultimately have "congruent ?s'" by (simp add: congruent_def)
    then have z: "zone_congruent ?z"
      using 2(3) set_update_subset_insert [of "memory_section z" i ?s'] by (auto simp: zone_congruent_def)
    have step: "map_zone_loop e base (i # is) z = (if ?b' = e then ?z else map_zone_loop e ?b' is ?z)"
      using True by (simp only: map_zone_loop.simps Let_def) simp
    show ?thesis
    proof (cases "?b' = e")
      case True
      then show ?thesis unfolding step using z by simp
    next
      case ne: False
      have "zone_congruent (map_zone_loop e ?b' is ?z)"
        using True ne z 2(5) take_bit_22_align(1) [of "?b + word_of_int ?m"]
        by (intro 2(2)) auto
      then show ?thesis unfolding step using ne by simp
    qed
  qed
qed simp

lemma map_zone_memory_congruent:
  assumes "zone_congruent z" "take_bit 22 (map_base z) = 0" "nat (nr_section z) \<le> length (memory_section z)"
  shows "zone_congruent (snd (map_zone_memory z sz))"
  using assms map_zone_loop_congruent [OF assms(1,2), of "[0..<nat (nr_section z)]"]
  by (auto simp: map_zone_memory_def Let_def)

lemma mod_4M_congruent:
  fixes x y :: u32
  assumes "take_bit 22 (x - y) = 0"
  shows "x mod 0x400000 = y mod 0x400000"
proof -
  have "uint (take_bit 22 (x - y)) = take_bit 22 (uint (x - y))" by (rule unsigned_take_bit_eq)
  then have d: "uint (x - y) mod 2 ^ 22 = 0" using assms by (simp add: take_bit_eq_mod)
  have "uint x = (uint y + uint (x - y)) mod 2 ^ 32" using uint_word_ariths(1) [of y "x - y"] by simp
  then have "uint x mod 2 ^ 22 = (uint y + uint (x - y)) mod 2 ^ 22" by (simp add: mod_mod_cancel)
  also have "\<dots> = uint y mod 2 ^ 22" using d by (simp add: mod_add_right_eq [symmetric])
  finally have "uint (x mod 0x400000) = uint (y mod 0x400000)" by (simp add: uint_mod_distrib)
  then show ?thesis by (simp add: word_uint_eq_iff)
qed

lemma min_align_4M_mod: "PDE_MIN_ALIGN (x :: u32) = x - x mod 0x400000"
  using div_mult_mod_eq [of x "0x400000"] by (simp add: PDE_MIN_ALIGN_def min_align_4M algebra_simps)

section \<open>The user zone\<close>

text \<open>A section whose pages are all mapped.\<close>

definition fully_mapped :: "mm_section \<Rightarrow> bool" where
  "fully_mapped s \<longleftrightarrow> push_bit 12 (nr_page s) \<le> maped_size s"

definition kernel_user_pages :: "mm_state \<Rightarrow> int" where
  "kernel_user_pages st = page_num (zone (bank st) ! 0) + page_num (zone (bank st) ! 3)"

definition bank_shape :: "mm_state \<Rightarrow> bool" where
  "bank_shape st \<longleftrightarrow> length (zone (bank st)) = 4 \<and> (\<forall>z \<in> set (zone (bank st)). length (memory_section z) = 4)"

lemma bank_shape_ok: "bank_shape st \<Longrightarrow> z < 4 \<Longrightarrow> i < 4 \<Longrightarrow> sref_ok st (z, i)"
  by (auto simp: bank_shape_def sref_ok_def)

lemma bank_shape_upd_zone:
  assumes "bank_shape st" "\<And>z. length (memory_section (f z)) = length (memory_section z)"
  shows "bank_shape (upd_zone k f st)"
proof -
  have "length (memory_section z) = 4" if "z \<in> set ((zone (bank st))[k := f (zone (bank st) ! k)])" for z
  proof (cases "k < length (zone (bank st))")
    case True
    then show ?thesis using that assms set_update_subset_insert [of "zone (bank st)" k "f (zone (bank st) ! k)"]
      by (auto simp: bank_shape_def)
  next
    case False
    then show ?thesis using that assms by (auto simp: bank_shape_def list_update_beyond)
  qed
  then show ?thesis using assms(1) by (simp add: bank_shape_def upd_zone_def)
qed

lemma bank_shape_upd_section: "bank_shape st \<Longrightarrow> bank_shape (upd_section r f st)"
  unfolding upd_section_def by (rule bank_shape_upd_zone) simp_all

lemma page_num_upd_section [simp]: "page_num (zone (bank (upd_section r f st)) ! k) = page_num (zone (bank st) ! k)"
  by (simp add: upd_section_def upd_zone_def nth_list_update_any)

lemma user_zone_step_props:
  assumes "bank_shape st" "i < 4" "j < 4" "\<exists>mp. maped_size (section_of st (0, i)) = push_bit 12 mp"
  shows "let (j', st') = user_zone_step (j, st) i in
    bank_shape st' \<and> j' \<le> Suc j \<and> kernel_user_pages st' = kernel_user_pages st
    \<and> fully_mapped (section_of st' (0, i)) \<and> (\<forall>k. k \<noteq> i \<longrightarrow> section_of st' (0, k) = section_of st (0, k))"
proof -
  let ?s = "section_of st (0, i)"
  obtain mp where mp: "maped_size ?s = push_bit 12 mp" using assms(4) by blast
  have ok: "sref_ok st (0, i)" "sref_ok st (3, j)" using bank_shape_ok [OF assms(1)] assms(2,3) by simp_all
  have len: "length (zone (bank st)) = 4" using assms(1) by (simp add: bank_shape_def)
  have dp: "drop_bit 12 (push_bit 12 mp) = mp" by (simp add: push_bit_eq_mult drop_bit_eq_div)
  show ?thesis
  proof (cases "maped_size ?s < push_bit 12 (nr_page ?s)")
    case False
    then show ?thesis using assms(1) by (simp add: user_zone_step_def fully_mapped_def Let_def)
  next
    case True
    then show ?thesis using assms(1) ok len dp mp
      by (simp add: user_zone_step_def Let_def kernel_user_pages_def fully_mapped_def empty_section_def
          bank_shape_upd_section bank_shape_upd_zone)
  qed
qed

lemma init_user_zone_fold:
  assumes "bank_shape st" "n \<le> 4" "\<forall>i < n. \<exists>mp. maped_size (section_of st (0, i)) = push_bit 12 mp" "k \<le> n"
  shows "let (j, st') = foldl user_zone_step (0, st) [0..<k] in
    bank_shape st' \<and> j \<le> k \<and> kernel_user_pages st' = kernel_user_pages st
    \<and> (\<forall>i < k. fully_mapped (section_of st' (0, i))) \<and> (\<forall>i. k \<le> i \<longrightarrow> section_of st' (0, i) = section_of st (0, i))"
  using assms(4)
proof (induction k)
  case 0
  then show ?case using assms(1) by simp
next
  case (Suc k)
  obtain j st' where f: "foldl user_zone_step (0, st) [0..<k] = (j, st')" by (cases "foldl user_zone_step (0, st) [0..<k]")
  have IH: "bank_shape st'" "j \<le> k" "kernel_user_pages st' = kernel_user_pages st"
    "\<forall>i < k. fully_mapped (section_of st' (0, i))" "\<forall>i. k \<le> i \<longrightarrow> section_of st' (0, i) = section_of st (0, i)"
    using Suc f by (simp_all add: Let_def)
  obtain j2 st2 where s: "user_zone_step (j, st') k = (j2, st2)" by (cases "user_zone_step (j, st') k")
  have "\<exists>mp. maped_size (section_of st' (0, k)) = push_bit 12 mp" using IH(5) assms(3) Suc.prems by simp
  then have "bank_shape st2" "j2 \<le> Suc j" "kernel_user_pages st2 = kernel_user_pages st'"
    "fully_mapped (section_of st2 (0, k))" "\<forall>i. i \<noteq> k \<longrightarrow> section_of st2 (0, i) = section_of st' (0, i)"
    using user_zone_step_props [OF IH(1), of k j] Suc.prems assms(2) IH(2) s by (simp_all add: Let_def)
  then show ?case using IH f s by (auto simp: less_Suc_eq)
qed

section \<open>Properties of the boot sequence\<close>

text \<open>
  C25.  The selection sort in \<open>get_memory_sections\<close> is right: the first \<open>region_nr\<close> entries
  come out in increasing order of their start addresses, the array is a permutation of
  what it was, and the unused entries stay in place.
\<close>

theorem sort_regions_sorts:
  assumes "n \<le> length rs"
  shows "sorted (map rg_start (take n (sort_regions n rs))) \<and> mset (sort_regions n rs) = mset rs
         \<and> drop n (sort_regions n rs) = drop n rs"
proof -
  have "mset (sort_regions n rs) = mset rs" "length (sort_regions n rs) = length rs"
    "drop n (sort_regions n rs) = drop n rs" "sorted_upto n n (sort_regions n rs)"
    using sort_regions_inv [OF assms order_refl] by (simp_all add: sort_regions_def Let_def)
  then show ?thesis using assms by (auto simp: sorted_iff_nth_mono_less sorted_upto_def)
qed

theorem sort_regions_sorts_witness:
  "sorted (map rg_start (take 2 (sort_regions 2
     [\<lparr>rg_start = 0x8000, rg_size = 1, rg_attr = 0\<rparr>, \<lparr>rg_start = 0x1000, rg_size = 2, rg_attr = 1\<rparr>])))"
  by (rule sort_regions_sorts [THEN conjunct1]) simp

text \<open>
  C26.  A region becomes the section of exactly its whole pages: for a region of less than
  2 GB in a zone with a free slot, either no page lies completely inside it and the zone
  is unchanged, or the new section starts at the first page boundary in the region and
  ends at the last one, and the zone's counts grow by its pages.
\<close>

theorem insert_region_to_zone_whole_pages:
  assumes "uint (rg_start r) + uint (rg_size r) + 4095 < 2 ^ 32" "uint (rg_size r) < 2 ^ 31"
    and "0 \<le> nr_section z" "nr_section z < 4" "length (memory_section z) = 4"
  shows "let (sz, z') = insert_region_to_zone r z; s = memory_section z' ! nat (nr_section z) in
    if end_page r \<le> first_page r then sz = 0 \<and> z' = z
    else sz = (end_page r - first_page r) * 4096 \<and> sec_size s = sz
      \<and> uint (phy_start s) = first_page r * 4096 \<and> nr_page s = end_page r - first_page r
      \<and> nr_free_pages s = nr_page s \<and> nr_section z' = nr_section z + 1
      \<and> page_num z' = page_num z + nr_page s \<and> zone_nr_free_pages z' = page_num z'"
proof -
  note b = insert_region_bounds [OF assms(1)]
  let ?n = "end_page r - first_page r"
  have "end_page r * 4096 \<le> uint (rg_start r) + uint (rg_size r)" "uint (rg_start r) \<le> first_page r * 4096"
    by (simp_all add: minus_mod_eq_div_mult [symmetric])
  then have "\<bar>uint (min_align (rg_start r + rg_size r) 4096) - uint (align (rg_start r) 4096)\<bar> < 2 ^ 31"
    unfolding b(1,2) abs_less_iff using b(3) assms(2) by simp
  from sint_diff_u32 [OF this]
  have sz: "sint (min_align (rg_start r + rg_size r) 4096 - align (rg_start r) 4096) = ?n * 4096"
    unfolding b(1,2) by (simp only: left_diff_distrib)
  have dr: "drop_bit 12 (?n * 4096) = ?n" by (simp add: drop_bit_eq_div)
  show ?thesis
  proof (cases "end_page r \<le> first_page r")
    case True
    then have "?n * 4096 < 4096" by simp
    then show ?thesis unfolding insert_region_to_zone_def Let_def sz using True by simp
  next
    case False
    then have "\<not> ?n * 4096 < 4096" by simp
    moreover have "nat (nr_section z) < 4" using assms(3,4) by simp
    ultimately show ?thesis unfolding insert_region_to_zone_def Let_def sz
      using False assms(4,5) b(2) dr by (simp add: drop_bit_eq_div)
  qed
qed

theorem insert_region_to_zone_whole_pages_witness:
  "fst (insert_region_to_zone \<lparr>rg_start = 0x100800, rg_size = 0x3000, rg_attr = 0\<rparr> empty_zone) = 0x2000"
  using insert_region_to_zone_whole_pages [of "\<lparr>rg_start = 0x100800, rg_size = 0x3000, rg_attr = 0\<rparr>" empty_zone]
  by (simp add: empty_zone_def Let_def split: prod.splits)

text \<open>
  A region whose whole pages make up 2 GB or more is dropped without a trace: its
  size, kept in a signed \<open>int\<close>, is negative and taken for less than a page.
\<close>

theorem insert_region_to_zone_drops_large:
  assumes "uint (rg_start r) + uint (rg_size r) + 4095 < 2 ^ 32"
    and "2 ^ 31 \<le> (end_page r - first_page r) * 4096"
  shows "insert_region_to_zone r z = (0, z)"
proof -
  note b = insert_region_bounds [OF assms(1)]
  let ?n = "(end_page r - first_page r) * 4096"
  have le: "?n < 2 ^ 32" unfolding left_diff_distrib b(1) [symmetric] b(2) [symmetric]
  proof -
    have "uint (min_align (rg_start r + rg_size r) 4096) < 2 ^ 32"
      using uint_lt2p [of "min_align (rg_start r + rg_size r) 4096"] by simp
    moreover have "0 \<le> uint (align (rg_start r) 4096)" by simp
    ultimately show "uint (min_align (rg_start r + rg_size r) 4096) - uint (align (rg_start r) 4096) < 2 ^ 32"
      by linarith
  qed
  have "min_align (rg_start r + rg_size r) 4096 - align (rg_start r) 4096 = (word_of_int (?n - 2 ^ 32) :: u32)"
    unfolding left_diff_distrib b(1) [symmetric] b(2) [symmetric] by simp
  also have "sint \<dots> = ?n - 2 ^ 32" using assms(2) le by (intro sint_word_of_int_u32) auto
  finally show ?thesis using le by (simp add: insert_region_to_zone_def Let_def)
qed

theorem insert_region_to_zone_drops_large_witness:
  "insert_region_to_zone \<lparr>rg_start = 0, rg_size = 0x80000000, rg_attr = 0\<rparr> empty_zone = (0, empty_zone)"
  by (rule insert_region_to_zone_drops_large) simp_all

text \<open>
  \<open>update_section_table\<close> enters every section in use under its own number, so that a
  page descriptor leads back to its section, as long as at most thirteen sections are in
  use; with more the write leaves the table, although four zones of four sections can
  hold sixteen.
\<close>

theorem update_section_table_lists:
  assumes "length (section_table st) = 13" "\<forall>r \<in> set all_sections. sref_ok st r"
    and "\<forall>r \<in> set all_sections. is_align (phy_start (section_of st r)) 4096"
  shows "if length (filter (nonempty st) all_sections) \<le> 13
    then \<exists>st'. update_section_table st = Some st'
           \<and> (\<forall>r \<in> set all_sections. nonempty st r \<longrightarrow> nonempty st' r \<and> listed st' r)
    else update_section_table st = None"
proof -
  have d: "distinct all_sections" by (simp add: all_sections_def)
  have inv: "table_inv st {} 0" by (simp add: table_inv_def)
  note f = section_table_fold [OF assms(2) d _ inv]
  show ?thesis
  proof (cases "length (filter (nonempty st) all_sections) \<le> 13")
    case True
    then obtain k st' where st': "foldl section_table_step (Some (0, st)) all_sections = Some (k, st')"
      "table_inv st' (set all_sections) k" "same_sections st st'" using f assms(1) by auto
    have "nonempty st' r \<and> listed st' r" if r: "r \<in> set all_sections" "nonempty st r" for r
    proof -
      obtain i where "section_of st' r = (section_of st r)\<lparr>section_table_id := i\<rparr>"
        using st'(3) unfolding same_sections_def by blast
      then have "is_align (phy_start (section_of st' r)) 4096" using assms(3) r(1) by simp
      moreover have ne: "nonempty st' r" using r(2) same_sections_nonempty [OF st'(3)] by simp
      ultimately show ?thesis using st'(2,3) r(1) assms(1)
        by (fastforce simp: listed_def Let_def table_inv_def same_sections_def)
    qed
    then show ?thesis using True st'(1) by (auto simp: update_section_table_def)
  next
    case False
    then show ?thesis using f assms(1) by (simp add: update_section_table_def)
  qed
qed

theorem update_section_table_lists_witness:
  "\<exists>st'. update_section_table small_bank = Some st' \<and> listed st' (0, 0)"
proof -
  have sr: "\<forall>r \<in> set all_sections. sref_ok small_bank r"
    by (auto simp: all_sections_def sref_ok_def small_bank_def empty_zone_def)
  have al: "\<forall>r \<in> set all_sections. is_align (phy_start (section_of small_bank r)) 4096"
    by (auto simp: all_sections_def section_of_def small_bank_def small_section_def empty_zone_def
        empty_section_def is_align_def)
  have n: "nonempty small_bank (0, 0)" by (simp add: nonempty_def small_bank_section small_section_def)
  have "length (filter (nonempty small_bank) all_sections) \<le> 13"
    by (simp add: all_sections_def nonempty_def section_of_def small_bank_def empty_zone_def empty_section_def)
  moreover have "(0, 0) \<in> set all_sections" by (simp add: all_sections_def)
  moreover have "length (section_table small_bank) = 13" by (simp add: small_bank_def)
  ultimately show ?thesis using update_section_table_lists [OF _ sr al] n by (metis (lifting))
qed

text \<open>
  The bitmaps of the sections are laid out one after the other with
  \<open>bits_to_long\<close> words each.  When that is too few for a section, its bitmap overlaps the
  next one: the bit of its first page without a word of its own is the bit of page 0 of
  the next section, in every memory.
\<close>

theorem init_sections_bitmap_overlap:
  fixes st :: mm_state and base :: addr and i :: nat
  assumes "\<forall>r \<in> set (used_sections st). sref_ok st r" "Suc i < length (used_sections st)"
  defines "st' \<equiv> snd (init_sections_bitmap base st)"
  defines "s \<equiv> section_of st' (used_sections st ! i)" and "s' \<equiv> section_of st' (used_sections st ! Suc i)"
  assumes "0 \<le> nr_page s" "nr_page s < 2 ^ 31" "nr_page s mod 64 \<noteq> 0" "nr_page s mod 64 < 56"
    and "bitmap s \<noteq> 0" "bitmap s' \<noteq> 0"
  shows "32 * uint (bits_to_long (nr_page s)) < nr_page s
    \<and> read_bit m (bitmap s) (32 * uint (bits_to_long (nr_page s))) = read_bit m (bitmap s') 0"
proof -
  let ?b = "bits_to_long (nr_page s)"
  note l = bitmap_layout [OF distinct_used_sections assms(1), of base]
  have sec: "section_of st' r = section_of (snd (foldl bitmap_step (base, st) (used_sections st))) r" for r
    by (simp only: st'_def init_sections_bitmap_sections)
  have "nr_page s = nr_page (section_of st (used_sections st ! i))" unfolding s_def sec using l by blast
  moreover have "bitmap s = base + 4 * sum_list (map (\<lambda>r. bits_to_long (nr_page (section_of st r))) (take i (used_sections st)))"
    "bitmap s' = base + 4 * sum_list (map (\<lambda>r. bits_to_long (nr_page (section_of st r))) (take (Suc i) (used_sections st)))"
    unfolding s_def s'_def sec using l assms(2) Suc_lessD by blast+
  ultimately have "bitmap s' = bitmap s + 4 * ?b"
    using assms(2) by (simp add: take_Suc_conv_app_nth algebra_simps)
  moreover have lt: "32 * uint ?b < nr_page s"
    using bits_to_long_room [OF assms(6,7)] assms(8,9) by linarith
  moreover have "bit_index (32 * uint ?b)" using lt assms(7) uint_ge_0 [of ?b] by simp
  ultimately show ?thesis using assms(10,11) by (simp add: read_bit_eq bit_word_def)
qed

text \<open>The small memory bank with a second section in the kernel zone.\<close>

definition two_sections :: mm_state where
  "two_sections = upd_zone 0 (\<lambda>z. z\<lparr>nr_section := 2, page_num := 108,
      memory_section := [small_section\<lparr>nr_page := 100, maped_size := 0x40000\<rparr>, small_section\<lparr>nr_page := 8, maped_size := 0x8000\<rparr>,
                         empty_section, empty_section]\<rparr>) small_bank"

theorem init_sections_bitmap_overlap_witness:
  "read_bit (\<lambda>_. 5) (bitmap (section_of (snd (init_sections_bitmap 0x1000 two_sections)) (0, 0))) 64
   = read_bit (\<lambda>_. 5) (bitmap (section_of (snd (init_sections_bitmap 0x1000 two_sections)) (0, 1))) 0"
proof -
  let ?st = "snd (init_sections_bitmap 0x1000 two_sections)"
  have u: "used_sections two_sections = [(0, 0), (0, 1)]"
    by (simp add: used_sections_def two_sections_def small_bank_def upd_zone_def empty_zone_def upt_rec)
  have ok: "\<forall>r \<in> set (used_sections two_sections). sref_ok two_sections r"
    unfolding u by (simp add: sref_ok_def two_sections_def small_bank_def upd_zone_def)
  have b: "bits_to_long 100 = 2" by (simp add: bits_to_long_def align_def)
  have s: "nr_page (section_of ?st (0, 0)) = 100" "bitmap (section_of ?st (0, 0)) \<noteq> 0" "bitmap (section_of ?st (0, 1)) \<noteq> 0"
    unfolding init_sections_bitmap_sections u
    by (simp_all add: bitmap_step_def two_sections_def small_bank_def upd_zone_def
        upd_section_def section_of_def Let_def b)
  show ?thesis
    using init_sections_bitmap_overlap [OF ok, of 0 "0x1000" "\<lambda>_. 5"] s b by (simp add: u)
qed

definition low_zone :: mm_zone where
  "low_zone = empty_zone\<lparr>map_base := 0xc0000000, nr_section := 1,
     memory_section := empty_section\<lparr>phy_start := 0x00123000, sec_size := 0x8000, nr_page := 8\<rparr> # replicate 3 empty_section\<rparr>"

text \<open>
  Mapping a zone keeps every section congruent: each mapped section's virtual address
  has the same offset within a 4 MB page as its physical address, and \<open>pv_offset\<close> is
  the difference of the two.
\<close>

theorem map_zone_memory_keeps_offset:
  assumes "zone_congruent z" "take_bit 22 (map_base z) = 0" "nat (nr_section z) \<le> length (memory_section z)"
    and "s \<in> set (memory_section (snd (map_zone_memory z sz)))" "maped_size s \<noteq> 0"
  shows "vir_start s mod 0x400000 = phy_start s mod 0x400000 \<and> pv_offset s = sint (vir_start s - phy_start s)"
  using map_zone_memory_congruent [OF assms(1-3), of sz] assms(4,5) mod_4M_congruent
  by (auto simp: zone_congruent_def congruent_def)

theorem map_zone_memory_keeps_offset_witness:
  "vir_start (memory_section (snd (map_zone_memory low_zone 0x8000000)) ! 0) mod 0x400000
   = phy_start (memory_section (snd (map_zone_memory low_zone 0x8000000)) ! 0) mod 0x400000"
proof -
  let ?s = "memory_section (snd (map_zone_memory low_zone 0x8000000)) ! 0"
  have "zone_congruent low_zone" by (auto simp: zone_congruent_def low_zone_def empty_section_def)
  moreover have "?s \<in> set (memory_section (snd (map_zone_memory low_zone 0x8000000)))" "maped_size ?s \<noteq> 0"
    by (simp_all add: map_zone_memory_def low_zone_def empty_section_def Let_def PDE_MIN_ALIGN_def PDE_ALIGN_def
        min_align_def align_def)
  ultimately show ?thesis
    using map_zone_memory_keeps_offset [of low_zone ?s "0x8000000"] by (simp add: low_zone_def)
qed



end
