(* ===== verification/Kstring.thy ===== *)
theory Kstring
  imports Prelude
begin

text \<open>
  kernel/string.c.  Characters live in a byte memory and every routine walks its
  pointers over it, so overlapping buffers and missing terminators behave as in
  the kernel; a walk that never meets its end is \<^const>\<open>None\<close>.  A \<open>char\<close> is
  signed, as on the i386 target.
\<close>

section \<open>Definitions\<close>

type_synonym byte_mem = "addr \<Rightarrow> u8"

definition absolute :: "int \<Rightarrow> int" where
  "absolute num = (if num > 0 then num else NOT num + 1)"

text \<open>\<open>char hex[] = "0123456789abcdef"\<close>, as ASCII codes.\<close>

definition hex :: "u8 list" where
  "hex = [48, 49, 50, 51, 52, 53, 54, 55, 56, 57, 97, 98, 99, 100, 101, 102]"

text \<open>The \<open>do\<close> loop of \<open>num_to_str\<close>: the contents of \<open>tmp_buf\<close>, least digit first.\<close>

partial_function (option) num_loop :: "u32 \<Rightarrow> u32 \<Rightarrow> u8 list option" where
  "num_loop num bdho =
     (let m = num mod bdho; num = num div bdho in
      if num \<ge> bdho
      then Option.bind (num_loop num bdho) (\<lambda>ds. Some (hex ! unat m # ds))
      else Some (hex ! unat m # (if num \<noteq> 0 then [hex ! unat num] else [])))"

fun put_bytes :: "byte_mem \<Rightarrow> addr \<Rightarrow> u8 list \<Rightarrow> byte_mem" where
  "put_bytes m p [] = m"
| "put_bytes m p (c # cs) = put_bytes (m(p := c)) (p + 1) cs"

definition num_to_str :: "byte_mem \<Rightarrow> addr \<Rightarrow> u32 \<Rightarrow> u32 \<Rightarrow> (int \<times> byte_mem) option" where
  "num_to_str m buf num bdho =
     (if bdho = 0 then None
      else Option.bind (num_loop num bdho) (\<lambda>ds.
        Some (int (length ds), put_bytes m buf (rev ds))))"

definition itoa :: "byte_mem \<Rightarrow> addr \<Rightarrow> int \<Rightarrow> (int \<times> byte_mem) option" where
  "itoa m buf num =
     (if buf = 0 then Some (- 1, m)
      else if num < 0
      then Option.bind (num_to_str (m(buf := 45)) (buf + 1) (word_of_int (absolute num)) 10)
             (\<lambda>(len, m). Some (len + 1, m))
      else num_to_str m buf (word_of_int num) 10)"

definition uitoa :: "byte_mem \<Rightarrow> addr \<Rightarrow> u32 \<Rightarrow> (int \<times> byte_mem) option" where
  "uitoa m buf num = num_to_str m buf num 10"

definition hextoa :: "byte_mem \<Rightarrow> addr \<Rightarrow> u32 \<Rightarrow> (int \<times> byte_mem) option" where
  "hextoa m buf num = num_to_str m buf num 16"

definition octtoa :: "byte_mem \<Rightarrow> addr \<Rightarrow> u32 \<Rightarrow> (int \<times> byte_mem) option" where
  "octtoa m buf num = num_to_str m buf num 8"

definition bintoa :: "byte_mem \<Rightarrow> addr \<Rightarrow> u32 \<Rightarrow> (int \<times> byte_mem) option" where
  "bintoa m buf num = num_to_str m buf num 2"

partial_function (option) strlen_loop :: "byte_mem \<Rightarrow> addr \<Rightarrow> int \<Rightarrow> int option" where
  "strlen_loop m buf len = (if m buf \<noteq> 0 then strlen_loop m (buf + 1) (len + 1) else Some len)"

definition strlen :: "byte_mem \<Rightarrow> addr \<Rightarrow> int option" where
  "strlen m buf = (if buf = 0 then Some (- 1) else strlen_loop m buf 0)"

partial_function (option) strcpy_loop :: "byte_mem \<Rightarrow> addr \<Rightarrow> addr \<Rightarrow> byte_mem option" where
  "strcpy_loop m des src =
     (let c = m src; m = m(des := c) in
      if c \<noteq> 0 then strcpy_loop m (des + 1) (src + 1) else Some m)"

text \<open>A null return value is the address 0.\<close>

definition strcpy :: "byte_mem \<Rightarrow> addr \<Rightarrow> addr \<Rightarrow> (addr \<times> byte_mem) option" where
  "strcpy m des src =
     (if des = 0 \<or> src = 0 then Some (0, m)
      else Option.bind (strcpy_loop m des src) (\<lambda>m. Some (des, m)))"

definition strncpy :: "byte_mem \<Rightarrow> addr \<Rightarrow> addr \<Rightarrow> int \<Rightarrow> addr \<times> byte_mem" where
  "strncpy m des src len =
     (if des = 0 \<or> src = 0 then (0, m)
      else (des, foldl (\<lambda>m i. m(des + word_of_int i := m (src + word_of_int i))) m [0..len - 1]))"

definition is_digit :: "u8 \<Rightarrow> bool" where
  "is_digit ch \<longleftrightarrow> sint ch \<le> 57 \<and> 48 \<le> sint ch"

partial_function (option) strcmp :: "byte_mem \<Rightarrow> addr \<Rightarrow> addr \<Rightarrow> int option" where
  "strcmp m src dst =
     (let ret = uint (m src) - uint (m dst) in
      if ret = 0 \<and> m dst \<noteq> 0 then strcmp m (src + 1) (dst + 1)
      else Some (if ret < 0 then - 1 else if ret > 0 then 1 else ret))"

text \<open>\<open>ret\<close> is a \<open>char\<close>: the difference wraps at eight bits.\<close>

fun memcmp_loop :: "byte_mem \<Rightarrow> addr \<Rightarrow> addr \<Rightarrow> int list \<Rightarrow> int" where
  "memcmp_loop m src dst [] = 0"
| "memcmp_loop m src dst (i # is) =
     (let s = m (src + word_of_int i); d = m (dst + word_of_int i); ret = sint (s - d) in
      if s \<noteq> d \<and> ret < 0 then - 1
      else if s \<noteq> d \<and> ret > 0 then 1
      else memcmp_loop m src dst is)"

definition memcmp :: "byte_mem \<Rightarrow> addr \<Rightarrow> addr \<Rightarrow> int \<Rightarrow> int" where
  "memcmp m src dst sz = (if sz = 0 then - EINVAL else memcmp_loop m src dst [0..sz - 1])"

partial_function (option) strncmp_loop ::
  "byte_mem \<Rightarrow> addr \<Rightarrow> addr \<Rightarrow> int \<Rightarrow> int \<Rightarrow> int option" where
  "strncmp_loop m src dst n ret =
     (if n = 0 then Some ret
      else let ret = uint (m src) - uint (m dst) in
        if ret = 0 then strncmp_loop m (src + 1) (dst + 1) (n - 1) ret else Some ret)"

definition strncmp :: "byte_mem \<Rightarrow> addr \<Rightarrow> addr \<Rightarrow> int \<Rightarrow> int option" where
  "strncmp m src dst n =
     Option.bind (strncmp_loop m src dst n 0) (\<lambda>ret.
       Some (if ret < 0 then - 1 else if ret > 0 then 1 else ret))"

partial_function (option) strchr :: "byte_mem \<Rightarrow> addr \<Rightarrow> u8 \<Rightarrow> addr option" where
  "strchr m src ch =
     (if m src = ch then Some src
      else if m src = 0 then Some 0
      else strchr m (src + 1) ch)"

fun copy_loop :: "byte_mem \<Rightarrow> addr \<Rightarrow> addr \<Rightarrow> nat \<Rightarrow> byte_mem" where
  "copy_loop m t s 0 = m"
| "copy_loop m t s (Suc n) = copy_loop (m(t := m s)) (t + 1) (s + 1) n"

definition memcpy :: "byte_mem \<Rightarrow> addr \<Rightarrow> addr \<Rightarrow> int \<Rightarrow> int \<times> byte_mem" where
  "memcpy m target source sz =
     (if sz \<le> 0 then (0, m) else (sz, copy_loop m target source (nat sz)))"

text \<open>A word in memory, least significant byte first.\<close>

definition word_bytes :: "u32 \<Rightarrow> u8 list" where
  "word_bytes w = map (\<lambda>i. ucast (drop_bit (8 * i) w)) [0..<4]"

definition word_at :: "byte_mem \<Rightarrow> addr \<Rightarrow> u32" where
  "word_at m a = ucast (m a) OR push_bit 8 (ucast (m (a + 1))) OR push_bit 16 (ucast (m (a + 2))) OR push_bit 24 (ucast (m (a + 3)))"

definition put_word :: "byte_mem \<Rightarrow> addr \<Rightarrow> u32 \<Rightarrow> byte_mem" where
  "put_word m a w = put_bytes m a (word_bytes w)"

definition memset :: "byte_mem \<Rightarrow> addr \<Rightarrow> u8 \<Rightarrow> int \<Rightarrow> byte_mem" where
  "memset m base ch sz = foldl (\<lambda>m i. m(base + word_of_int i := ch)) m [0..sz - 1]"

section \<open>Numbers\<close>

definition digit_val :: "u8 \<Rightarrow> nat" where
  "digit_val c = (if c \<le> 57 then unat (c - 48) else unat (c - 87))"

text \<open>The value of a digit string, least digit first.\<close>

definition num_value :: "nat \<Rightarrow> u8 list \<Rightarrow> nat" where
  "num_value b ds = foldr (\<lambda>d acc. digit_val d + b * acc) ds 0"

lemma hex_value: "i < 16 \<Longrightarrow> digit_val (hex ! i) = i"
proof -
  assume "i < 16"
  then have "i \<in> {0..<16}" by simp
  moreover have "\<forall>i \<in> {0..<16}. digit_val (hex ! i) = i" by code_simp
  ultimately show ?thesis by blast
qed

lemma num_value_Cons [simp]: "num_value b (d # ds) = digit_val d + b * num_value b ds"
  and num_value_Nil [simp]: "num_value b [] = 0"
  by (simp_all add: num_value_def)

lemma num_loop_correct:
  assumes "2 \<le> bdho" "bdho \<le> 16"
  shows "\<exists>ds. num_loop num bdho = Some ds \<and> num_value (unat bdho) ds = unat num
           \<and> (\<forall>d \<in> set ds. digit_val d < unat bdho) \<and> ds \<noteq> []
           \<and> (num \<noteq> 0 \<longrightarrow> digit_val (last ds) \<noteq> 0)"
proof (induction "unat num" arbitrary: num rule: less_induct)
  case less
  let ?m = "num mod bdho" and ?q = "num div bdho"
  have b: "2 \<le> unat bdho" "unat bdho \<le> 16"
    using assms by (simp_all add: word_le_nat_alt)
  have m: "unat ?m = unat num mod unat bdho" and q: "unat ?q = unat num div unat bdho"
    by (simp_all add: unat_mod_distrib unat_div_distrib)
  have mlt: "unat ?m < unat bdho" using b m by simp
  have d: "digit_val (hex ! unat ?m) = unat ?m" using hex_value b mlt by simp
  have sum: "unat ?m + unat bdho * unat ?q = unat num" using m q by simp
  show ?case
  proof (cases "?q \<ge> bdho")
    case True
    then have ge: "unat bdho \<le> unat ?q" by (simp add: word_le_nat_alt)
    have "unat num \<noteq> 0" using ge b q by (metis div_0 le_zero_eq not_numeral_le_zero)
    then have "unat ?q < unat num" using q b by (simp add: div_less_dividend)
    from less [OF this] obtain ds where ds: "num_loop ?q bdho = Some ds"
      "num_value (unat bdho) ds = unat ?q" "\<forall>d \<in> set ds. digit_val d < unat bdho"
      "ds \<noteq> []" "?q \<noteq> 0 \<longrightarrow> digit_val (last ds) \<noteq> 0" by blast
    have "?q \<noteq> 0" using ge b by auto
    moreover have "num_loop num bdho = Some (hex ! unat ?m # ds)"
      using True ds(1) by (subst num_loop.simps) (simp add: Let_def)
    ultimately show ?thesis using ds d sum mlt by auto
  next
    case False
    then have lt: "unat ?q < unat bdho" by (simp add: word_le_nat_alt)
    then have dq: "digit_val (hex ! unat ?q) = unat ?q" using hex_value b by simp
    have nz: "unat ?m \<noteq> 0" if "num \<noteq> 0" "?q = 0"
      using that sum by (metis add_0 mult_0_right unat_0 unat_eq_zero)
    have "num_loop num bdho = Some (hex ! unat ?m # (if ?q \<noteq> 0 then [hex ! unat ?q] else []))"
      using False by (subst num_loop.simps) (simp add: Let_def)
    then show ?thesis using d dq sum mlt lt nz by (auto simp: unat_gt_0)
  qed
qed

lemma num_loop_length:
  assumes "num_loop num bdho = Some ds" "unat num < unat bdho ^ Suc k" "2 \<le> bdho"
  shows "length ds \<le> Suc k"
  using assms
proof (induction k arbitrary: num ds)
  case 0
  then have "num div bdho = 0"
    by (simp add: word_arith_nat_div unat_div_distrib flip: unat_eq_0)
  moreover have "\<not> bdho \<le> 0" using 0 by (auto simp: word_le_nat_alt)
  ultimately show ?case using 0 by (subst (asm) num_loop.simps) (auto simp: Let_def)
next
  case (Suc k)
  have "unat (num div bdho) < unat bdho ^ Suc k"
    using Suc.prems by (simp add: unat_div_distrib less_mult_imp_div_less mult.commute)
  then show ?case using Suc.prems(1) Suc.IH Suc.prems(3)
    by (subst (asm) num_loop.simps) (auto simp: Let_def split: if_splits bind_splits)
qed

section \<open>Memory\<close>

text \<open>
  Addresses wrap, so the offset of \<open>a\<close> from \<open>p\<close> is the word \<open>a - p\<close>; a range of
  \<open>n\<close> bytes at \<open>p\<close> holds the addresses with an offset below \<open>n\<close>.
\<close>

lemma offset_Suc:
  fixes a p :: addr
  assumes "a \<noteq> p"
  shows "unat (a - p) = Suc (unat (a - (p + 1)))"
proof -
  have "a - p \<noteq> 0" using assms by simp
  then have "unat (a - p) = Suc (unat (a - p - 1))"
    by (simp add: unat_minus_one unat_gt_0)
  then show ?thesis by (simp add: diff_diff_add)
qed

lemma offset_minus: "unat ((p :: addr) - (p + 1)) = 2 ^ 32 - 1"
proof -
  have "p - (p + 1) = - 1" by simp
  then show ?thesis by (simp only: unsigned_minus_1_eq_mask mask_eq_exp_minus_1) simp
qed

lemma put_bytes_at:
  assumes "length cs \<le> 2 ^ 32"
  shows "put_bytes m p cs a = (if unat (a - p) < length cs then cs ! unat (a - p) else m a)"
  using assms
proof (induction cs arbitrary: m p)
  case (Cons c cs)
  show ?case
  proof (cases "a = p")
    case True
    then show ?thesis using Cons offset_minus [of p] by simp
  next
    case False
    then show ?thesis using Cons offset_Suc [OF False] by simp
  qed
qed simp

definition bytes_at :: "byte_mem \<Rightarrow> addr \<Rightarrow> nat \<Rightarrow> u8 list" where
  "bytes_at m p n = map (\<lambda>i. m (p + word_of_nat i)) [0..<n]"

lemma unat_of_nat_offset: "i < 2 ^ 32 \<Longrightarrow> unat ((p :: addr) + word_of_nat i - p) = i"
  by (simp add: unat_word_of_nat)

lemma bytes_at_put_bytes:
  assumes "length cs \<le> 2 ^ 32"
  shows "bytes_at (put_bytes m p cs) p (length cs) = cs"
  using assms by (auto simp: bytes_at_def put_bytes_at unat_word_of_nat intro!: nth_equalityI)

lemma copy_loop_at:
  assumes "n \<le> 2 ^ 32" "\<forall>i < n. \<not> unat (s + word_of_nat i - t) < n"
  shows "copy_loop m t s n a = (if unat (a - t) < n then m (s + (a - t)) else m a)"
  using assms
proof (induction n arbitrary: m t s)
  case (Suc n)
  have dis: "\<not> unat (s + 1 + word_of_nat i - (t + 1)) < n" if "i < n" for i
    using Suc.prems(2) [rule_format, of i] that by (auto simp: algebra_simps)
  have s0: "s \<noteq> t" using Suc.prems(2) [rule_format, of 0] by auto
  show ?case
  proof (cases "a = t")
    case True
    then show ?thesis using Suc dis offset_minus [of t] by simp
  next
    case False
    have "s + (a - t) \<noteq> t" if "unat (a - t) < Suc n"
      using Suc.prems(2) [rule_format, of "unat (a - t)"] that by auto
    then show ?thesis using Suc.IH [of "s + 1" "t + 1"] Suc.prems(1) dis offset_Suc [OF False]
      by (auto simp: algebra_simps)
  qed
qed simp

section \<open>Regions\<close>

text \<open>Two regions of memory that share no byte.\<close>

definition apart :: "addr \<Rightarrow> nat \<Rightarrow> addr \<Rightarrow> nat \<Rightarrow> bool" where
  "apart a n b k \<longleftrightarrow> (\<forall>i < n. \<forall>j < k. a + word_of_nat i \<noteq> b + word_of_nat j)"

lemma apart_sym: "apart a n b k \<longleftrightarrow> apart b k a n"
  by (auto simp: apart_def) metis+

lemma apart_part:
  assumes "apart a n b k" "i + n' \<le> n" "j + k' \<le> k"
  shows "apart (a + word_of_nat i) n' (b + word_of_nat j) k'"
proof -
  have "a + word_of_nat i + word_of_nat x \<noteq> b + word_of_nat j + word_of_nat y" if "x < n'" "y < k'" for x y
  proof -
    have "i + x < n" "j + y < k" using assms(2,3) that by simp_all
    then have "a + word_of_nat (i + x) \<noteq> b + word_of_nat (j + y)" using assms(1) unfolding apart_def by blast
    then show ?thesis by (simp add: algebra_simps)
  qed
  then show ?thesis by (simp add: apart_def)
qed

lemma apart_offset:
  assumes "apart t n s k" "i < k"
  shows "\<not> unat (s + word_of_nat i - t) < n"
proof
  assume "unat (s + word_of_nat i - t) < n"
  then have "t + word_of_nat (unat (s + word_of_nat i - t)) \<noteq> s + word_of_nat i" using assms unfolding apart_def by blast
  then show False by simp
qed

lemma bytes_at_append: "bytes_at m p (n + k) = bytes_at m p n @ bytes_at m (p + word_of_nat n) k"
proof (rule nth_equalityI)
  fix i assume "i < length (bytes_at m p (n + k))"
  then show "bytes_at m p (n + k) ! i = (bytes_at m p n @ bytes_at m (p + word_of_nat n) k) ! i"
    by (auto simp: bytes_at_def nth_append)
qed (simp add: bytes_at_def)

lemma length_bytes_at [simp]: "length (bytes_at m p n) = n"
  by (simp add: bytes_at_def)

lemma bytes_at_nth [simp]: "i < n \<Longrightarrow> bytes_at m p n ! i = m (p + word_of_nat i)"
  by (simp add: bytes_at_def)

text \<open>Copying between regions that do not overlap.\<close>

lemma memcpy_target:
  assumes "apart t n s n" "n \<le> 2 ^ 32"
  shows "bytes_at (snd (memcpy m t s (int n))) t n = bytes_at m s n"
proof (cases "n = 0")
  case False
  have "snd (memcpy m t s (int n)) = copy_loop m t s n" using False by (simp add: memcpy_def)
  moreover have "copy_loop m t s n (t + word_of_nat i) = m (s + word_of_nat i)" if "i < n" for i
    using copy_loop_at [OF assms(2), of s t m "t + word_of_nat i"] apart_offset [OF assms(1)] that assms(2)
    by (simp add: unat_word_of_nat)
  ultimately show ?thesis by (intro nth_equalityI) auto
qed (simp add: memcpy_def bytes_at_def)

lemma memcpy_other:
  assumes "apart t n s n" "apart t n p k" "n \<le> 2 ^ 32"
  shows "bytes_at (snd (memcpy m t s (int n))) p k = bytes_at m p k"
proof (cases "n = 0")
  case False
  have "snd (memcpy m t s (int n)) = copy_loop m t s n" using False by (simp add: memcpy_def)
  moreover have "copy_loop m t s n (p + word_of_nat i) = m (p + word_of_nat i)" if "i < k" for i
    using copy_loop_at [OF assms(3), of s t m "p + word_of_nat i"] apart_offset [OF assms(1)] apart_offset [OF assms(2) that] by auto
  ultimately show ?thesis by (intro nth_equalityI) auto
qed (simp add: memcpy_def)

text \<open>The same as sets of addresses.\<close>

definition region :: "addr \<Rightarrow> nat \<Rightarrow> addr set" where
  "region a n = (\<lambda>i. a + word_of_nat i) ` {..<n}"

definition same_outside :: "addr set \<Rightarrow> byte_mem \<Rightarrow> byte_mem \<Rightarrow> bool" where
  "same_outside A m m' \<longleftrightarrow> (\<forall>a. a \<notin> A \<longrightarrow> m' a = m a)"

lemma apart_region: "apart a n b k \<longleftrightarrow> region a n \<inter> region b k = {}"
  by (auto simp: apart_def region_def)

lemma region_part:
  assumes "i + n' \<le> n"
  shows "region (a + word_of_nat i) n' \<subseteq> region a n"
proof
  fix x assume "x \<in> region (a + word_of_nat i) n'"
  then obtain j where "j < n'" "x = a + word_of_nat (i + j)" by (auto simp: region_def add.assoc)
  then show "x \<in> region a n" using assms unfolding region_def by (intro image_eqI [of _ _ "i + j"]) auto
qed

lemma region_mono: "k \<le> n \<Longrightarrow> region a k \<subseteq> region a n"
  using region_part [of 0 k n a] by simp

lemma region_append: "region a (n + k) = region a n \<union> region (a + word_of_nat n) k"
proof -
  have "i \<in> {..<n} \<union> (\<lambda>i. n + i) ` {..<k}" if "i < n + k" for i
    using that by (cases "i < n") (auto intro!: image_eqI [of i _ "i - n"])
  then have "{..<n + k} = {..<n} \<union> (\<lambda>i. n + i) ` {..<k}" by auto
  then show ?thesis by (simp add: region_def image_Un image_image add.assoc)
qed

lemma same_outside_refl [simp]: "same_outside A m m"
  by (simp add: same_outside_def)

lemma same_outside_trans: "same_outside A m m' \<Longrightarrow> same_outside B m' m'' \<Longrightarrow> same_outside (A \<union> B) m m''"
  by (simp add: same_outside_def)

lemma same_outside_mono: "same_outside A m m' \<Longrightarrow> A \<subseteq> B \<Longrightarrow> same_outside B m m'"
  by (auto simp: same_outside_def)

lemma bytes_at_outside:
  assumes "same_outside A m m'" "A \<inter> region p n = {}"
  shows "bytes_at m' p n = bytes_at m p n"
proof (rule nth_equalityI)
  fix i assume i: "i < length (bytes_at m' p n)"
  then have "p + word_of_nat i \<notin> A" using assms(2) by (auto simp: region_def)
  then show "bytes_at m' p n ! i = bytes_at m p n ! i" using assms(1) i by (simp add: same_outside_def)
qed simp

lemma copy_loop_outside: "same_outside (region t n) m (copy_loop m t s n)"
proof (induction n arbitrary: m t s)
  case (Suc n)
  have "region t (1 + n) = region t 1 \<union> region (t + 1) n" using region_append [of t 1 n] by simp
  moreover have "region t 1 = {t}" by (simp add: region_def lessThan_Suc)
  ultimately have "a \<noteq> t \<and> a \<notin> region (t + 1) n" if "a \<notin> region t (Suc n)" for a using that by auto
  then have "copy_loop (m(t := m s)) (t + 1) (s + 1) n a = (m(t := m s)) a \<and> a \<noteq> t" if "a \<notin> region t (Suc n)" for a
    using Suc.IH [of "t + 1" "m(t := m s)" "s + 1"] that unfolding same_outside_def by blast
  then show ?case by (simp add: same_outside_def)
qed simp

lemma memcpy_outside: "same_outside (region t (nat n)) m (snd (memcpy m t s n))"
  using copy_loop_outside by (simp add: memcpy_def)

lemma memset_outside: "same_outside (region a (nat n)) m (memset m a c n)"
proof -
  have "same_outside (region a k) m (foldl (\<lambda>m i. m(a + word_of_int i := c)) m [0..int k - 1])" for k
  proof (induction k)
    case (Suc k)
    have "[0..int (Suc k) - 1] = [0..int k - 1] @ [int k]" using upto_rec2 [of 0 "int k"] by simp
    moreover have "a + word_of_nat k \<in> region a (Suc k)" unfolding region_def by (rule imageI) simp
    moreover have "region a k \<subseteq> region a (Suc k)" by (rule region_mono) simp
    ultimately show ?case using Suc by (auto simp: same_outside_def)
  qed simp
  from this [of "nat n"] show ?thesis by (cases "0 \<le> n") (simp_all add: memset_def)
qed

text \<open>Words in memory.\<close>

lemma join_bytes:
  "(ucast (ucast w :: u8) OR push_bit 8 (ucast (ucast (drop_bit 8 w) :: u8)) OR push_bit 16 (ucast (ucast (drop_bit 16 w) :: u8))
    OR push_bit 24 (ucast (ucast (drop_bit 24 w) :: u8)) :: u32) = w"
proof (rule bit_word_eqI)
  fix n assume n: "n < LENGTH(32)"
  consider "n < 8" | "8 \<le> n" "n < 16" | "16 \<le> n" "n < 24" | "24 \<le> n" by linarith
  then show "bit (ucast (ucast w :: u8) OR push_bit 8 (ucast (ucast (drop_bit 8 w) :: u8)) OR push_bit 16 (ucast (ucast (drop_bit 16 w) :: u8))
    OR push_bit 24 (ucast (ucast (drop_bit 24 w) :: u8)) :: u32) n = bit w n"
    using n by cases (auto simp: bit_simps)
qed

lemma unat_4 [simp]: "unat (4 :: addr) = 4"
  by simp

lemma bytes_at_4: "bytes_at m a 4 = [m a, m (a + 1), m (a + 2), m (a + 3)]"
  by (simp add: bytes_at_def upt_rec)

lemma word_at_bytes: "bytes_at m a 4 = word_bytes w \<Longrightarrow> word_at m a = w"
  unfolding bytes_at_4 by (simp add: word_bytes_def upt_rec word_at_def join_bytes)

lemma word_at_put_word [simp]: "word_at (put_word m a w) a = w"
  by (rule word_at_bytes) (use bytes_at_put_bytes [of "word_bytes w" m a] in \<open>simp add: put_word_def word_bytes_def\<close>)

lemma word_at_cong: "bytes_at m' a' 4 = bytes_at m a 4 \<Longrightarrow> word_at m' a' = word_at m a"
  unfolding bytes_at_4 by (simp add: word_at_def)

lemma put_bytes_outside: "same_outside (region p (length cs)) m (put_bytes m p cs)"
proof (induction cs arbitrary: m p)
  case (Cons c cs)
  have "region p (1 + length cs) = region p 1 \<union> region (p + 1) (length cs)" using region_append [of p 1 "length cs"] by simp
  moreover have "region p 1 = {p}" by (simp add: region_def lessThan_Suc)
  ultimately have "a \<noteq> p \<and> a \<notin> region (p + 1) (length cs)" if "a \<notin> region p (length (c # cs))" for a using that by auto
  then have "put_bytes (m(p := c)) (p + 1) cs a = (m(p := c)) a \<and> a \<noteq> p" if "a \<notin> region p (length (c # cs))" for a
    using Cons [of "p + 1" "m(p := c)"] that unfolding same_outside_def by blast
  then show ?case by (simp add: same_outside_def)
qed simp

lemma put_word_outside: "same_outside (region a 4) m (put_word m a w)"
  using put_bytes_outside [of a "word_bytes w" m] by (simp add: put_word_def word_bytes_def)

lemma word_at_outside: "same_outside A m m' \<Longrightarrow> A \<inter> region a 4 = {} \<Longrightarrow> word_at m' a = word_at m a"
  by (rule word_at_cong) (rule bytes_at_outside)

lemma region_parts_apart:
  assumes "i + n \<le> j \<or> j + k \<le> i" "i + n \<le> 2 ^ 32" "j + k \<le> 2 ^ 32"
  shows "region (a + word_of_nat i) n \<inter> region (a + word_of_nat j) k = {}"
proof -
  have "a + word_of_nat i + word_of_nat x \<noteq> a + word_of_nat j + word_of_nat y" if "x < n" "y < k" for x y
  proof
    assume "a + word_of_nat i + word_of_nat x = a + word_of_nat j + word_of_nat y"
    then have "(word_of_nat (i + x) :: addr) = word_of_nat (j + y)" by simp
    moreover have "i + x < 2 ^ 32" "j + y < 2 ^ 32" "i + x \<noteq> j + y" using that assms by auto
    ultimately show False using unat_word_of_nat by metis
  qed
  then show ?thesis by (auto simp: region_def)
qed

text \<open>An array of words.\<close>

definition words_at :: "byte_mem \<Rightarrow> addr \<Rightarrow> nat \<Rightarrow> u32 list" where
  "words_at m a n = map (\<lambda>i. word_at m (a + word_of_nat (4 * i))) [0..<n]"

lemma words_at_simps [simp]: "length (words_at m a n) = n" "i < n \<Longrightarrow> words_at m a n ! i = word_at m (a + word_of_nat (4 * i))"
  by (simp_all add: words_at_def)

lemma words_at_outside:
  assumes "same_outside A m m'" "A \<inter> region a (4 * n) = {}"
  shows "words_at m' a n = words_at m a n"
proof (rule nth_equalityI)
  fix i assume "i < length (words_at m' a n)"
  then have i: "i < n" by simp
  then have "A \<inter> region (a + word_of_nat (4 * i)) 4 = {}" using assms(2) region_part [of "4 * i" 4 "4 * n" a] by auto
  then show "words_at m' a n ! i = words_at m a n ! i" using word_at_outside [OF assms(1)] i by simp
qed simp

lemma words_at_bytes:
  assumes "bytes_at m' a' (4 * n) = bytes_at m a (4 * n)"
  shows "words_at m' a' n = words_at m a n"
proof (rule nth_equalityI)
  fix i assume "i < length (words_at m' a' n)"
  then have i: "i < n" by simp
  have "m' (a' + word_of_nat (4 * i + k)) = m (a + word_of_nat (4 * i + k))" if "k < 4" for k
    using arg_cong [OF assms, of "\<lambda>xs. xs ! (4 * i + k)"] that i by simp
  then have "bytes_at m' (a' + word_of_nat (4 * i)) 4 = bytes_at m (a + word_of_nat (4 * i)) 4"
    by (intro nth_equalityI) (simp_all add: add.assoc)
  then have "word_at m' (a' + word_of_nat (4 * i)) = word_at m (a + word_of_nat (4 * i))" by (rule word_at_cong)
  then show "words_at m' a' n ! i = words_at m a n ! i" using i by simp
qed simp

lemma words_at_put_word:
  assumes "4 * n \<le> 2 ^ 32" "i < n"
  shows "words_at (put_word m (a + word_of_nat (4 * i)) w) a n = (words_at m a n)[i := w]"
proof (rule nth_equalityI)
  fix j assume "j < length (words_at (put_word m (a + word_of_nat (4 * i)) w) a n)"
  then have j: "j < n" by simp
  show "words_at (put_word m (a + word_of_nat (4 * i)) w) a n ! j = (words_at m a n)[i := w] ! j"
  proof (cases "i = j")
    case True
    then show ?thesis using j by simp
  next
    case False
    then have "region (a + word_of_nat (4 * i)) 4 \<inter> region (a + word_of_nat (4 * j)) 4 = {}"
      using region_parts_apart [of "4 * i" 4 "4 * j" 4 a] assms j by (auto simp: neq_iff)
    from word_at_outside [OF put_word_outside this] show ?thesis using False j by simp
  qed
qed simp
section \<open>Strings\<close>

fun str_at :: "byte_mem \<Rightarrow> addr \<Rightarrow> u8 list \<Rightarrow> bool" where
  "str_at m p [] \<longleftrightarrow> m p = 0"
| "str_at m p (c # cs) \<longleftrightarrow> c \<noteq> 0 \<and> m p = c \<and> str_at m (p + 1) cs"

lemma strlen_loop_str: "str_at m p cs \<Longrightarrow> strlen_loop m p n = Some (n + int (length cs))"
proof (induction cs arbitrary: p n)
  case Nil
  then show ?case by (subst strlen_loop.simps) simp
next
  case (Cons c cs)
  then show ?case by (subst strlen_loop.simps) simp
qed

lemma strcmp_str:
  assumes "str_at m p xs" "str_at m q ys"
  shows "\<exists>r. strcmp m p q = Some r \<and> (r = 0 \<longleftrightarrow> xs = ys)
           \<and> (r = - 1 \<longleftrightarrow> (xs, ys) \<in> lexord {(a, b). a < b})
           \<and> (r = 1 \<longleftrightarrow> (ys, xs) \<in> lexord {(a, b). a < b})"
  using assms
proof (induction xs arbitrary: p q ys)
  case Nil
  then show ?case by (cases ys) (subst strcmp.simps, auto simp: Let_def word_neq_0_conv word_less_def)+
next
  case (Cons x xs)
  show ?case
  proof (cases ys)
    case Nil
    then show ?thesis using Cons.prems
      by (subst strcmp.simps) (auto simp: Let_def word_less_def word_neq_0_conv)
  next
    case ys: (Cons y ys')
    show ?thesis
    proof (cases "x = y")
      case True
      then have "strcmp m p q = strcmp m (p + 1) (q + 1)"
        using Cons.prems ys by (subst strcmp.simps) simp
      then show ?thesis using Cons ys True by simp
    next
      case False
      then have "uint x \<noteq> uint y" using word_uint_eq_iff by blast
      then show ?thesis using Cons.prems ys False
        by (subst strcmp.simps) (auto simp: Let_def word_less_def)
    qed
  qed
qed

lemma bytes_at_Suc: "bytes_at m p (Suc n) = m p # bytes_at m (p + 1) n"
  by (simp add: bytes_at_def upt_conv_Cons map_Suc_upt [symmetric] o_def algebra_simps del: upt_Suc)

lemma str_at_iff: "str_at m p cs \<longleftrightarrow> 0 \<notin> set cs \<and> bytes_at m p (Suc (length cs)) = cs @ [0]"
proof (induction cs arbitrary: p)
  case Nil
  then show ?case by (simp add: bytes_at_def)
next
  case (Cons c cs)
  then show ?case by (simp only: str_at.simps bytes_at_Suc length_Cons) auto
qed

lemma put_bytes_str_at:
  assumes "length cs < 2 ^ 32" "0 \<notin> set cs"
  shows "str_at (put_bytes m p (cs @ [0])) p cs"
  using assms bytes_at_put_bytes [of "cs @ [0]" m p] by (simp add: str_at_iff)

lemma str_at_cong:
  assumes "\<forall>i \<le> length cs. m' (p + word_of_nat i) = m (p + word_of_nat i)"
  shows "str_at m' p cs = str_at m p cs"
proof -
  have "bytes_at m' p (Suc (length cs)) = bytes_at m p (Suc (length cs))"
    using assms by (simp add: bytes_at_def del: upt_Suc)
  then show ?thesis by (simp only: str_at_iff)
qed

lemma strcpy_loop_str:
  assumes "str_at m s cs" "length cs < 2 ^ 32"
    and "\<forall>i \<le> length cs. \<not> unat (s + word_of_nat i - d) \<le> length cs"
  shows "strcpy_loop m d s = Some (put_bytes m d (cs @ [0]))"
  using assms
proof (induction cs arbitrary: m s d)
  case Nil
  then show ?case by (subst strcpy_loop.simps) simp
next
  case (Cons c cs)
  have dis: "\<not> unat (s + 1 + word_of_nat i - (d + 1)) \<le> length cs" if "i \<le> length cs" for i
    using Cons.prems(3) [rule_format, of i] that by (auto simp: algebra_simps)
  have "str_at (m(d := c)) (s + 1) cs = str_at m (s + 1) cs"
  proof (rule str_at_cong, intro allI impI)
    fix i assume "i \<le> length cs"
    then have "s + word_of_nat (Suc i) \<noteq> d" using Cons.prems(3) [rule_format, of "Suc i"] by auto
    then show "(m(d := c)) (s + 1 + word_of_nat i) = m (s + 1 + word_of_nat i)"
      by (simp add: algebra_simps)
  qed
  then have "str_at (m(d := c)) (s + 1) cs" using Cons.prems(1) by simp
  moreover have "length cs < 2 ^ 32" using Cons.prems(2) by simp
  ultimately have "strcpy_loop (m(d := c)) (d + 1) (s + 1) = Some (put_bytes (m(d := c)) (d + 1) (cs @ [0]))"
    using dis by (intro Cons.IH) blast+
  then show ?case using Cons.prems by (subst strcpy_loop.simps) simp
qed

lemma put_bytes_append: "put_bytes m p (xs @ ys) = put_bytes (put_bytes m p xs) (p + word_of_nat (length xs)) ys"
  by (induction xs arbitrary: m p) (simp_all add: algebra_simps)

lemma str_at_append: "str_at m p (xs @ ys) \<longleftrightarrow> bytes_at m p (length xs) = xs \<and> 0 \<notin> set xs
    \<and> str_at m (p + word_of_nat (length xs)) ys"
proof (induction xs arbitrary: p)
  case Nil
  then show ?case by (simp add: bytes_at_def)
next
  case (Cons x xs)
  then show ?case by (auto simp: bytes_at_Suc algebra_simps)
qed

lemma strlen_str: "str_at m p cs \<Longrightarrow> p \<noteq> 0 \<Longrightarrow> strlen m p = Some (int (length cs))"
  using strlen_loop_str [of m p cs 0] by (simp add: strlen_def)

lemma str_at_outside: "same_outside A m m' \<Longrightarrow> A \<inter> region p (Suc (length cs)) = {} \<Longrightarrow> str_at m' p cs = str_at m p cs"
  by (simp only: str_at_iff bytes_at_outside)

lemma strchr_absent: "str_at m p cs \<Longrightarrow> ch \<notin> set cs \<Longrightarrow> ch \<noteq> 0 \<Longrightarrow> strchr m p ch = Some 0"
proof (induction cs arbitrary: p)
  case Nil
  then show ?case by (subst strchr.simps) simp
next
  case (Cons c cs)
  then show ?case by (subst strchr.simps) auto
qed

lemma strchr_first: "str_at m p (xs @ ch # ys) \<Longrightarrow> ch \<notin> set xs \<Longrightarrow> strchr m p ch = Some (p + word_of_nat (length xs))"
proof (induction xs arbitrary: p)
  case Nil
  then show ?case by (subst strchr.simps) simp
next
  case (Cons c xs)
  then show ?case by (subst strchr.simps) (auto simp: algebra_simps)
qed

lemma region_unat: "n \<le> 2 ^ 32 \<Longrightarrow> a \<in> region p n \<longleftrightarrow> unat (a - p) < n"
proof
  assume "n \<le> 2 ^ 32" "a \<in> region p n"
  then show "unat (a - p) < n" by (auto simp: region_def unat_word_of_nat)
next
  assume "unat (a - p) < n"
  then show "a \<in> region p n" unfolding region_def by (intro image_eqI [of _ _ "unat (a - p)"]) auto
qed

lemma strcpy_str:
  assumes "str_at m s cs" "length cs < 2 ^ 31" "d \<noteq> 0" "s \<noteq> 0" "region d (Suc (length cs)) \<inter> region s (Suc (length cs)) = {}"
  shows "\<exists>m'. strcpy m d s = Some (d, m') \<and> str_at m' d cs \<and> same_outside (region d (Suc (length cs))) m m'"
proof -
  have "\<not> unat (s + word_of_nat i - d) \<le> length cs" if "i \<le> length cs" for i
  proof -
    have "s + word_of_nat i \<in> region s (Suc (length cs))" using that by (auto simp: region_def)
    then have "s + word_of_nat i \<notin> region d (Suc (length cs))" using assms(5) by blast
    then show ?thesis using region_unat [of "Suc (length cs)" "s + word_of_nat i" d] assms(2) by simp
  qed
  then have "strcpy m d s = Some (d, put_bytes m d (cs @ [0]))" using strcpy_loop_str [of m s cs d] assms by (simp add: strcpy_def)
  moreover have "str_at (put_bytes m d (cs @ [0])) d cs" using put_bytes_str_at [of cs m d] assms(1,2) by (simp add: str_at_iff)
  ultimately show ?thesis using put_bytes_outside [of d "cs @ [0]" m] by simp
qed

lemma strncpy_bytes:
  assumes "length cs < 2 ^ 31" "d \<noteq> 0" "s \<noteq> 0" "bytes_at m s (length cs) = cs" "region d (length cs) \<inter> region s (length cs) = {}"
  shows "snd (strncpy m d s (int (length cs))) = put_bytes m d cs"
proof -
  have "foldl (\<lambda>m i. m(d + word_of_int i := m (s + word_of_int i))) m [0..int n - 1] = put_bytes m d (take n cs)" if "n \<le> length cs" for n
    using that
  proof (induction n)
    case (Suc n)
    let ?m = "put_bytes m d (take n cs)"
    have "[0..int (Suc n) - 1] = [0..int n - 1] @ [int n]" using upto_rec2 [of 0 "int n"] by simp
    moreover have "?m (s + word_of_nat n) = cs ! n"
    proof -
      have "s + word_of_nat n \<in> region s (length cs)" using Suc by (auto simp: region_def)
      then have "s + word_of_nat n \<notin> region d (length (take n cs))" using assms(5) region_mono [of n "length cs" d] Suc by auto
      then have "?m (s + word_of_nat n) = m (s + word_of_nat n)" using put_bytes_outside [of d "take n cs" m] by (simp add: same_outside_def)
      then show ?thesis using arg_cong [OF assms(4), of "\<lambda>xs. xs ! n"] Suc by simp
    qed
    moreover have "put_bytes m d (take (Suc n) cs) = ?m(d + word_of_nat n := cs ! n)"
      using Suc put_bytes_append [of m d "take n cs" "[cs ! n]"] by (simp add: take_Suc_conv_app_nth)
    ultimately show ?case using Suc by (simp del: of_nat_Suc) (simp only: of_int_of_nat_eq)
  qed simp
  from this [of "length cs"] show ?thesis using assms by (simp add: strncpy_def)
qed

section \<open>Properties\<close>

text \<open>
  C31.  \<open>num_to_str\<close> in every base from 2 to 16 returns, writes at most the 32
  characters its temporary buffer holds and nothing else, and what it writes,
  read back as a number in that base, is the argument; there is no leading zero
  unless the argument is 0.
\<close>

theorem num_to_str_roundtrip:
  assumes "2 \<le> bdho" "bdho \<le> 16"
  shows "\<exists>ds m'. num_to_str m buf num bdho = Some (int (length ds), m')
           \<and> bytes_at m' buf (length ds) = ds
           \<and> (\<forall>a. length ds \<le> unat (a - buf) \<longrightarrow> m' a = m a)
           \<and> num_value (unat bdho) (rev ds) = unat num
           \<and> (\<forall>d \<in> set ds. digit_val d < unat bdho)
           \<and> (num \<noteq> 0 \<longrightarrow> digit_val (hd ds) \<noteq> 0)
           \<and> 0 < length ds \<and> length ds \<le> 32"
proof -
  obtain ds where ds: "num_loop num bdho = Some ds" "num_value (unat bdho) ds = unat num"
    "\<forall>d \<in> set ds. digit_val d < unat bdho" "ds \<noteq> []" "num \<noteq> 0 \<longrightarrow> digit_val (last ds) \<noteq> 0"
    using num_loop_correct [OF assms] by blast
  have "2 \<le> unat bdho" using assms(1) by (simp add: word_le_nat_alt)
  then have "(2 :: nat) ^ 32 \<le> unat bdho ^ Suc 31" using power_mono [of 2 "unat bdho" 32] by simp
  moreover have "unat num < 2 ^ 32" using unat_u32_less [of num] by simp
  ultimately have len: "length ds \<le> 32"
    using num_loop_length [OF ds(1) _ assms(1), of 31] by simp
  have "bdho \<noteq> 0" using assms(1) by auto
  then show ?thesis
    using ds len bytes_at_put_bytes [of "rev ds" m buf] put_bytes_at [of "rev ds" m buf]
    by (intro exI [of _ "rev ds"] exI [of _ "put_bytes m buf (rev ds)"])
       (auto simp: num_to_str_def hd_rev)
qed

theorem num_to_str_roundtrip_witness:
  "\<exists>ds m'. num_to_str (\<lambda>_. 0) 0x1000 0xdeadbeef 16 = Some (int (length ds), m')
      \<and> bytes_at m' 0x1000 (length ds) = ds \<and> num_value 16 (rev ds) = 0xdeadbeef"
  using num_to_str_roundtrip [of 16 "\<lambda>_. 0" "0x1000" "0xdeadbeef"] by auto

text \<open>The number a decimal string with an optional minus sign stands for.\<close>

definition dec_value :: "u8 list \<Rightarrow> int" where
  "dec_value cs = (if hd cs = 45 then - int (num_value 10 (rev (tl cs))) else int (num_value 10 (rev cs)))"

lemma num_to_str_10:
  "\<exists>ds. num_to_str m buf num 10 = Some (int (length ds), put_bytes m buf ds)
     \<and> num_value 10 (rev ds) = unat num \<and> 45 \<notin> set ds \<and> ds \<noteq> [] \<and> length ds \<le> 10"
proof -
  obtain ds where ds: "num_loop num 10 = Some ds" "num_value 10 ds = unat num"
    "\<forall>d \<in> set ds. digit_val d < 10" "ds \<noteq> []"
    using num_loop_correct [of 10 num] by auto
  have "unat num < 10 ^ Suc 9" using unat_u32_less [of num] by simp
  then have "length ds \<le> 10" using num_loop_length [OF ds(1), of 9] by simp
  moreover have "digit_val 45 = 253" by (simp add: digit_val_def)
  ultimately show ?thesis using ds
    by (intro exI [of _ "rev ds"]) (auto simp: num_to_str_def)
qed

text \<open>
  \<open>itoa\<close> is right for every value of an \<open>int\<close>, the most negative one included
  (whose absolute value is not an \<open>int\<close>): it returns, writes at most eleven
  characters and nothing else, and the string read back is the argument.
\<close>

theorem itoa_roundtrip:
  assumes "buf \<noteq> 0" "- (2 ^ 31) \<le> num" "num < 2 ^ 31"
  shows "\<exists>cs m'. itoa m buf num = Some (int (length cs), m')
           \<and> bytes_at m' buf (length cs) = cs \<and> dec_value cs = num
           \<and> (\<forall>a. length cs \<le> unat (a - buf) \<longrightarrow> m' a = m a) \<and> length cs \<le> 11"
proof (cases "num < 0")
  case True
  have a: "absolute num = - num" using True by (simp add: absolute_def not_int_def)
  obtain ds where ds: "num_to_str (m(buf := 45)) (buf + 1) (word_of_int (- num)) 10
      = Some (int (length ds), put_bytes (m(buf := 45)) (buf + 1) ds)"
    "num_value 10 (rev ds) = unat (word_of_int (- num) :: u32)" "length ds \<le> 10"
    using num_to_str_10 [of "m(buf := 45)" "buf + 1" "word_of_int (- num)"] by blast
  have "unat (word_of_int (- num) :: u32) = nat (- num)"
    using True assms by (intro unat_word_of_int_u32) simp_all
  then have "dec_value (45 # ds) = num" using ds(2) True by (simp add: dec_value_def)
  then show ?thesis
    using ds a True assms(1) bytes_at_put_bytes [of "45 # ds" m buf] put_bytes_at [of "45 # ds" m buf]
    by (intro exI [of _ "45 # ds"] exI [of _ "put_bytes m buf (45 # ds)"]) (simp add: itoa_def)
next
  case False
  obtain ds where ds: "num_to_str m buf (word_of_int num) 10 = Some (int (length ds), put_bytes m buf ds)"
    "num_value 10 (rev ds) = unat (word_of_int num :: u32)" "45 \<notin> set ds" "ds \<noteq> []" "length ds \<le> 10"
    using num_to_str_10 [of m buf "word_of_int num"] by blast
  have "unat (word_of_int num :: u32) = nat num"
    using False assms by (intro unat_word_of_int_u32) simp_all
  moreover have "hd ds \<noteq> 45" using ds(3,4) hd_in_set by metis
  ultimately have "dec_value ds = num" using ds(2) False by (simp add: dec_value_def)
  then show ?thesis
    using ds False assms(1) bytes_at_put_bytes [of ds m buf] put_bytes_at [of ds m buf]
    by (intro exI [of _ ds] exI [of _ "put_bytes m buf ds"]) (simp add: itoa_def)
qed

theorem itoa_roundtrip_witness:
  "\<exists>cs m'. itoa (\<lambda>_. 0) 0x1000 (- 2147483648) = Some (int (length cs), m')
      \<and> bytes_at m' 0x1000 (length cs) = cs \<and> dec_value cs = - 2147483648"
  using itoa_roundtrip [of "0x1000" "- 2147483648" "\<lambda>_. 0"] by auto

text \<open>
  \<open>strcmp\<close> on two terminated strings ends and gives their lexicographic order
  on unsigned characters: 0 exactly for equal strings, -1 exactly when the first
  is smaller, 1 exactly when it is greater.
\<close>

theorem strcmp_order:
  assumes "str_at m p xs" "str_at m q ys"
  shows "\<exists>r. strcmp m p q = Some r \<and> (r = 0 \<longleftrightarrow> xs = ys)
           \<and> (r = - 1 \<longleftrightarrow> (xs, ys) \<in> lexord {(a, b). a < b})
           \<and> (r = 1 \<longleftrightarrow> (ys, xs) \<in> lexord {(a, b). a < b})"
  by (rule strcmp_str [OF assms])

theorem strcmp_order_witness:
  "strcmp ((\<lambda>_. 0)(8 := 200, 16 := 100)) 8 16 = Some 1"
proof -
  have "str_at ((\<lambda>_. 0)(8 := 200, 16 := 100)) 8 [200]" "str_at ((\<lambda>_. 0)(8 := 200, 16 := 100)) 16 [100]"
    by simp_all
  from strcmp_order [OF this] show ?thesis by auto
qed

text \<open>
  \<open>strcpy\<close> to a buffer that does not overlap the source ends, leaves the source
  string at the destination, changes nothing outside it, and \<open>strlen\<close> of the copy is
  the length of the source.
\<close>

theorem strcpy_copies:
  assumes "str_at m src cs" "length cs < 2 ^ 31" "des \<noteq> 0" "src \<noteq> 0"
    and "\<forall>i \<le> length cs. \<not> unat (src + word_of_nat i - des) \<le> length cs"
  shows "\<exists>m'. strcpy m des src = Some (des, m') \<and> str_at m' des cs
           \<and> strlen m' des = Some (int (length cs))
           \<and> (\<forall>a. length cs < unat (a - des) \<longrightarrow> m' a = m a)"
proof -
  have z: "0 \<notin> set cs" using assms(1) by (simp add: str_at_iff)
  have s: "str_at (put_bytes m des (cs @ [0])) des cs" using assms(2) z by (intro put_bytes_str_at) auto
  have "strcpy m des src = Some (des, put_bytes m des (cs @ [0]))"
    using strcpy_loop_str [OF assms(1) _ assms(5)] assms(2-4) by (simp add: strcpy_def)
  moreover have "strlen (put_bytes m des (cs @ [0])) des = Some (int (length cs))"
    using strlen_loop_str [OF s, of 0] assms(3) by (simp add: strlen_def)
  ultimately show ?thesis using s assms(2) by (simp add: put_bytes_at)
qed

theorem strcpy_copies_witness:
  "\<exists>m'. strcpy ((\<lambda>_. 0)(0x2000 := 104, 0x2001 := 105)) 0x1000 0x2000 = Some (0x1000, m') \<and> str_at m' 0x1000 [104, 105]"
proof -
  let ?m = "(\<lambda>_. 0)(0x2000 := 104, 0x2001 := 105)"
  have "str_at ?m 0x2000 [104, 105]" by simp
  moreover have "\<forall>i \<le> length [104 :: u8, 105]. \<not> unat ((0x2000 :: addr) + word_of_nat i - 0x1000) \<le> length [104 :: u8, 105]"
    by (auto simp: le_Suc_eq)
  ultimately show ?thesis
    using strcpy_copies [of ?m "0x2000" "[104, 105]" "0x1000"] by (simp del: str_at.simps) blast
qed

end
