(* ===== verification/Printk.thy ===== *)
theory Printk
  imports Kstring
begin

text \<open>
  kernel/printk.c: number and message formatting into a byte memory, and the
  kernel log, a ring of 8192 characters.  The variable arguments are a list of
  typed values; the console and the terminal driver are parameters of
  \<open>level_printk\<close>.
\<close>

section \<open>Definitions\<close>

abbreviation (input) PRINTF_DEC :: u32 where "PRINTF_DEC \<equiv> 0x0001"
abbreviation (input) PRINTF_HEX :: u32 where "PRINTF_HEX \<equiv> 0x0002"
abbreviation (input) PRINTF_OCT :: u32 where "PRINTF_OCT \<equiv> 0x0004"
abbreviation (input) PRINTF_BIN :: u32 where "PRINTF_BIN \<equiv> 0x0008"
abbreviation (input) PRINTF_MASK :: u32 where "PRINTF_MASK \<equiv> 0x0f"
abbreviation (input) PRINTF_UNSIGNED :: u32 where "PRINTF_UNSIGNED \<equiv> 0x0010"
abbreviation (input) PRINTF_SIGNED :: u32 where "PRINTF_SIGNED \<equiv> 0x0020"
abbreviation (input) CONFIG_LOG_LEVEL :: int where "CONFIG_LOG_LEVEL \<equiv> 3"
abbreviation (input) LOG_BUFFER_SIZE :: int where "LOG_BUFFER_SIZE \<equiv> 8192"

record log_buffer =
  lb_head :: int
  lb_tail :: int
  lb_total :: int
  lb_buf :: "u8 list"

definition log_buffer_init :: "log_buffer \<Rightarrow> log_buffer" where
  "log_buffer_init lb = lb\<lparr>lb_head := 0, lb_tail := 0, lb_total := 0\<rparr>"

definition numbric :: "byte_mem \<Rightarrow> addr \<Rightarrow> u32 \<Rightarrow> u32 \<Rightarrow> (int \<times> byte_mem) option" where
  "numbric m buf num flag =
     (let k = flag AND PRINTF_MASK in
      if k = PRINTF_DEC then
        (if flag AND PRINTF_SIGNED \<noteq> 0 then itoa m buf (sint num) else uitoa m buf num)
      else if k = PRINTF_HEX then hextoa m buf num
      else if k = PRINTF_OCT then octtoa m buf num
      else if k = PRINTF_BIN then bintoa m buf num
      else Some (0, m))"

datatype va_arg = VInt u32 | VStr addr | VChar u8

text \<open>
  The loop of \<open>vsprintf\<close>.  An argument of the wrong kind, or a missing one, is
  undefined in C and \<^const>\<open>None\<close> here.  The conversions d, x, u and o add to
  \<open>flag\<close> what the source adds.
\<close>

definition conv_flag :: "u8 \<Rightarrow> u32 option" where
  "conv_flag c =
     (if c = 100 then Some (PRINTF_DEC OR PRINTF_SIGNED)
      else if c = 120 then Some (PRINTF_HEX OR PRINTF_UNSIGNED)
      else if c = 117 then Some (PRINTF_DEC OR PRINTF_UNSIGNED)
      else if c = 111 then Some (PRINTF_DEC OR PRINTF_SIGNED)
      else None)"

partial_function (option) vsprintf_loop ::
  "byte_mem \<Rightarrow> addr \<Rightarrow> addr \<Rightarrow> va_arg list \<Rightarrow> u32 \<Rightarrow> (addr \<times> byte_mem) option" where
  "vsprintf_loop m str fmt args flag =
     (if m fmt = 0 then Some (str, m(str := 0))
      else if m fmt \<noteq> 37 then vsprintf_loop (m(str := m fmt)) (str + 1) (fmt + 1) args flag
      else let fmt = fmt + 1; c = m fmt in
        case conv_flag c of
          Some f \<Rightarrow>
            (case args of
               VInt number # args \<Rightarrow>
                 Option.bind (numbric m str number (flag OR f)) (\<lambda>(len, m).
                   vsprintf_loop m (str + word_of_int len) (fmt + 1) args 0)
             | _ \<Rightarrow> None)
        | None \<Rightarrow>
            if c = 115 then
              (case args of
                 VStr tmp # args \<Rightarrow>
                   Option.bind (strlen m tmp) (\<lambda>len.
                     vsprintf_loop (snd (strncpy m str tmp len)) (str + word_of_int len) (fmt + 1) args flag)
               | _ \<Rightarrow> None)
            else if c = 99 then
              (case args of
                 VChar ch # args \<Rightarrow> vsprintf_loop (m(str := ch)) (str + 1) (fmt + 1) args flag
               | _ \<Rightarrow> None)
            else if c = 37 then vsprintf_loop (m(str := 37)) (str + 1) (fmt + 1) args flag
            else vsprintf_loop (m(str := 37, str + 1 := c)) (str + 2) (fmt + 1) args flag)"

definition vsprintf :: "byte_mem \<Rightarrow> addr \<Rightarrow> addr \<Rightarrow> va_arg list \<Rightarrow> (int \<times> byte_mem) option" where
  "vsprintf m buf fmt args =
     (if buf = 0 then Some (- 1, m)
      else Option.bind (vsprintf_loop m buf fmt args 0) (\<lambda>(str, m). Some (sint (str - buf), m)))"

text \<open>\<open>memcpy\<close> into the ring, at an offset.\<close>

definition log_copy :: "u8 list \<Rightarrow> int \<Rightarrow> u8 list \<Rightarrow> u8 list" where
  "log_copy buf off cs = take (nat off) buf @ cs @ drop (nat off + length cs) buf"

definition update_log_buffer :: "log_buffer \<Rightarrow> u8 list \<Rightarrow> int \<Rightarrow> log_buffer" where
  "update_log_buffer lb buf printed =
     (let over = lb_tail lb + printed > LOG_BUFFER_SIZE - 1;
          len1 = (if over then LOG_BUFFER_SIZE - lb_tail lb else printed);
          len2 = (if over then printed - len1 else 0);
          b1 = (if len1 \<noteq> 0 then log_copy (lb_buf lb) (lb_tail lb) (take (nat len1) buf) else lb_buf lb);
          b2 = (if len2 \<noteq> 0 then log_copy b1 0 (take (nat len2) (drop (nat len1) buf)) else b1);
          lb = lb\<lparr>lb_buf := b2, lb_total := lb_total lb + printed\<rparr>
      in if len2 \<noteq> 0 then lb\<lparr>lb_head := len2, lb_tail := len2\<rparr>
         else let lb = lb\<lparr>lb_tail := lb_tail lb + len1\<rparr>
              in if lb_total lb > LOG_BUFFER_SIZE then lb\<lparr>lb_head := lb_tail lb\<rparr> else lb)"

text \<open>
  The console: whether an early console is registered, and the strings it was
  given (up to their terminators).
\<close>

record printk_state =
  console_early_printk :: bool
  console_out :: "u8 list list"
  log_buffer :: log_buffer

definition early_printk :: "u8 list \<Rightarrow> printk_state \<Rightarrow> printk_state" where
  "early_printk s st = (if console_early_printk st then st\<lparr>console_out := console_out st @ [s]\<rparr> else st)"

definition cstring :: "u8 list \<Rightarrow> u8 list" where
  "cstring cs = takeWhile (\<lambda>c. c \<noteq> 0) cs"

text \<open>An index of the ring that is not below its size is outside of the array.\<close>

definition register_early_printk :: "printk_state \<Rightarrow> printk_state option" where
  "register_early_printk st =
     (if console_early_printk st then Some st
      else let st = st\<lparr>console_early_printk := True\<rparr>; lb = log_buffer st; t = nat (lb_tail lb) in
        if t \<ge> length (lb_buf lb) then None
        else let bak = lb_buf lb ! t;
                 st = early_printk (cstring ((lb_buf lb)[t := 0])) st
             in Some (early_printk (cstring [bak, 0]) st))"

definition unregister_early_printk :: "printk_state \<Rightarrow> printk_state" where
  "unregister_early_printk st = st\<lparr>console_early_printk := False\<rparr>"

text \<open>
  \<open>buf\<close> is the address of the 1024-byte local buffer and \<open>flush\<close> what
  \<open>tty_flush_log\<close> answers.
\<close>

definition level_printk ::
  "(u8 list \<Rightarrow> bool) \<Rightarrow> byte_mem \<Rightarrow> addr \<Rightarrow> addr \<Rightarrow> va_arg list \<Rightarrow> printk_state
   \<Rightarrow> (int \<times> byte_mem \<times> printk_state) option" where
  "level_printk flush m buf fmt args st =
     (let m = m(buf := 0); ch = m fmt in
      if is_digit ch \<and> sint (ch - 48) > CONFIG_LOG_LEVEL then Some (0, m, st)
      else Option.bind (vsprintf m buf (if is_digit ch then fmt + 1 else fmt) args) (\<lambda>(printed, m).
        let msg = bytes_at m buf (nat printed);
            st = (if flush msg then st else early_printk (cstring msg) st)
        in Some (printed, m, st\<lparr>log_buffer := update_log_buffer (log_buffer st) msg printed\<rparr>)))"

section \<open>The ring keeps the last characters\<close>

definition last_n :: "nat \<Rightarrow> 'a list \<Rightarrow> 'a list" where
  "last_n n xs = drop (length xs - n) xs"

definition log_inv :: "log_buffer \<Rightarrow> bool" where
  "log_inv lb \<longleftrightarrow>
     length (lb_buf lb) = 8192 \<and> 0 \<le> lb_tail lb \<and> lb_tail lb \<le> 8192
     \<and> (if lb_total lb \<le> 8192 then lb_tail lb = lb_total lb \<and> lb_head lb = 0
        else lb_head lb = lb_tail lb)"

text \<open>The characters of the log, oldest first.\<close>

definition log_view :: "log_buffer \<Rightarrow> u8 list" where
  "log_view lb =
     (if lb_total lb \<le> 8192 then take (nat (lb_tail lb)) (lb_buf lb)
      else drop (nat (lb_head lb)) (lb_buf lb) @ take (nat (lb_tail lb)) (lb_buf lb))"

lemma log_update_fits:
  assumes "log_inv lb" "0 \<le> printed" "nat printed \<le> length msg" "lb_tail lb + printed \<le> 8192"
  shows "log_inv (update_log_buffer lb msg printed)
    \<and> log_view (update_log_buffer lb msg printed) = last_n 8192 (log_view lb @ take (nat printed) msg)"
proof -
  obtain t p where t: "lb_tail lb = int t" and p: "printed = int p"
    using assms(1,2) by (metis log_inv_def zero_le_imp_eq_int)
  let ?b = "take t (lb_buf lb) @ take p msg @ drop (t + p) (lb_buf lb)"
  have len: "length (lb_buf lb) = 8192" "t + p \<le> 8192" "p \<le> length msg"
    using assms t p by (auto simp: log_inv_def)
  have e: "8192 - t = p \<and> int t + int p = 8192" if "8191 < int t + int p" using len that by auto
  have up: "update_log_buffer lb msg printed = lb\<lparr>lb_buf := ?b, lb_total := lb_total lb + int p,
      lb_tail := int (t + p), lb_head := if lb_total lb + int p > 8192 then int (t + p) else lb_head lb\<rparr>"
    using len t p e by (auto simp: update_log_buffer_def log_copy_def Let_def nat_diff_distrib')
  show ?thesis
  proof (cases "lb_total lb \<le> 8192")
    case True
    then have "lb_total lb = int t" "lb_head lb = 0" using assms(1) t by (auto simp: log_inv_def)
    then show ?thesis unfolding up using len t p
      by (simp add: log_inv_def log_view_def last_n_def nat_int_add)
  next
    case False
    then have "lb_head lb = int t" using assms(1) t by (simp add: log_inv_def)
    then show ?thesis unfolding up using False len t p
      by (simp add: log_inv_def log_view_def last_n_def nat_int_add add.commute)
  qed
qed

lemma log_update_wraps:
  assumes "log_inv lb" "0 \<le> printed" "printed \<le> 8192" "nat printed \<le> length msg"
    and "lb_tail lb + printed > 8192"
  shows "log_inv (update_log_buffer lb msg printed)
    \<and> log_view (update_log_buffer lb msg printed) = last_n 8192 (log_view lb @ take (nat printed) msg)"
proof -
  obtain t p where t: "lb_tail lb = int t" and p: "printed = int p"
    using assms(1,2) by (metis log_inv_def zero_le_imp_eq_int)
  define w where "w = t + p - 8192"
  define b where "b = drop (8192 - t) (take p msg) @ drop w (take t (lb_buf lb)) @ take (8192 - t) msg"
  have len: "length (lb_buf lb) = 8192" "t + p > 8192" "p \<le> length msg" "p \<le> 8192" "t \<le> 8192"
    using assms t p by (auto simp: log_inv_def)
  have w: "w > 0" "w \<le> t" "int w = int t + int p - 8192" "p - (8192 - t) = w"
    using len by (auto simp: w_def)
  have up: "update_log_buffer lb msg printed = lb\<lparr>lb_buf := b, lb_total := lb_total lb + int p,
      lb_head := int w, lb_tail := int w\<rparr>"
    using len t p w by (auto simp: update_log_buffer_def log_copy_def Let_def b_def nat_diff_distrib' drop_take)
  have blen: "length b = 8192" "take w b = drop (8192 - t) (take p msg)"
    "drop w b = drop w (take t (lb_buf lb)) @ take (8192 - t) msg"
    using len w by (simp_all add: b_def)
  have msg: "take (8192 - t) msg @ drop (8192 - t) (take p msg) = take p msg"
  proof -
    have "8192 - t \<le> p" using len by arith
    then have "take (8192 - t) (take p msg) = take (8192 - t) msg" by (simp add: min_def)
    then show ?thesis by (metis append_take_drop_id)
  qed
  show ?thesis
  proof (cases "lb_total lb \<le> 8192")
    case True
    then have "lb_total lb = int t" "lb_head lb = 0" using assms(1) t by (auto simp: log_inv_def)
    then show ?thesis unfolding up using len t p w(1,2) msg blen
      by (simp add: log_inv_def log_view_def last_n_def w_def [symmetric])
  next
    case False
    then have "lb_head lb = int t" using assms(1) t by (simp add: log_inv_def)
    then show ?thesis unfolding up using False len t p w(1,2,4) msg blen
      by (simp add: log_inv_def log_view_def last_n_def)
  qed
qed

section \<open>What a format string prints\<close>

text \<open>
  A format string as a sequence of items: its characters, the argument each item
  takes, and the characters it stands for.
\<close>

datatype fmt_item = Lit u8 | Percent | Dec u32 | Uns u32 | Hexa u32 | Chr u8 | Str addr "u8 list"

definition digits :: "u32 \<Rightarrow> u32 \<Rightarrow> u8 list" where
  "digits b num = rev (case num_loop num b of Some ds \<Rightarrow> ds | None \<Rightarrow> [])"

fun item_fmt :: "fmt_item \<Rightarrow> u8 list" where
  "item_fmt (Lit c) = [c]"
| "item_fmt Percent = [37, 37]"
| "item_fmt (Dec _) = [37, 100]"
| "item_fmt (Uns _) = [37, 117]"
| "item_fmt (Hexa _) = [37, 120]"
| "item_fmt (Chr _) = [37, 99]"
| "item_fmt (Str _ _) = [37, 115]"

fun item_arg :: "fmt_item \<Rightarrow> va_arg list" where
  "item_arg (Dec n) = [VInt n]"
| "item_arg (Uns n) = [VInt n]"
| "item_arg (Hexa n) = [VInt n]"
| "item_arg (Chr c) = [VChar c]"
| "item_arg (Str p _) = [VStr p]"
| "item_arg _ = []"

fun item_out :: "fmt_item \<Rightarrow> u8 list" where
  "item_out (Lit c) = [c]"
| "item_out Percent = [37]"
| "item_out (Dec n) = (if sint n < 0 then 45 # digits 10 (word_of_int (- sint n)) else digits 10 n)"
| "item_out (Uns n) = digits 10 n"
| "item_out (Hexa n) = digits 16 n"
| "item_out (Chr c) = [c]"
| "item_out (Str _ cs) = cs"

text \<open>The addresses \<open>R\<close> hold what is read: the format and the string arguments.\<close>

definition in_ro :: "addr set \<Rightarrow> addr \<Rightarrow> nat \<Rightarrow> bool" where
  "in_ro R p n \<longleftrightarrow> (\<forall>i \<le> n. p + word_of_nat i \<in> R)"

fun item_ok :: "addr set \<Rightarrow> byte_mem \<Rightarrow> fmt_item \<Rightarrow> bool" where
  "item_ok R m (Lit c) \<longleftrightarrow> c \<noteq> 0 \<and> c \<noteq> 37"
| "item_ok R m (Str p cs) \<longleftrightarrow> p \<noteq> 0 \<and> str_at m p cs \<and> in_ro R p (length cs)"
| "item_ok R m _ \<longleftrightarrow> True"

text \<open>The output area: \<open>n\<close> characters and a terminator at \<open>str\<close>, apart from \<open>R\<close>.\<close>

definition room :: "addr set \<Rightarrow> addr \<Rightarrow> nat \<Rightarrow> bool" where
  "room R str n \<longleftrightarrow> str \<noteq> 0 \<and> unat str + n < 2 ^ 32 \<and> (\<forall>a \<in> R. n < unat (a - str))"

lemma unat_add_nat: "unat (p :: addr) + k < 2 ^ 32 \<Longrightarrow> unat (p + word_of_nat k) = unat p + k"
  by (simp add: unat_word_ariths unat_of_nat)

lemma room_step:
  assumes "room R str n" "l \<le> n"
  shows "room R (str + word_of_nat l) (n - l)"
proof -
  have s: "unat (str + word_of_nat l) = unat str + l"
    using assms by (intro unat_add_nat) (auto simp: room_def)
  have "n - l < unat (a - (str + word_of_nat l))" if "a \<in> R" for a
  proof -
    have lt: "n < unat (a - str)" using assms that by (simp add: room_def)
    have "l < 2 ^ 32" using assms by (simp add: room_def)
    then have l: "unat (word_of_nat l :: u32) = l" by (rule unat_word_of_nat)
    have "unat (a - str - word_of_nat l) = unat (a - str) - l"
      using lt assms(2) l by (subst unat_sub) (auto simp: word_le_nat_alt)
    then show ?thesis using lt assms(2) by (simp add: diff_diff_add)
  qed
  moreover have "unat str \<noteq> 0" using assms(1) by (simp add: room_def unat_eq_zero)
  ultimately show ?thesis using assms s by (auto simp: room_def)
qed

lemma put_bytes_ro:
  assumes "room R str n" "length cs \<le> Suc n" "a \<in> R"
  shows "put_bytes m str cs a = m a"
proof -
  have "n < unat (a - str)" "n < 2 ^ 32" using assms by (auto simp: room_def)
  then show ?thesis using assms(2) by (subst put_bytes_at) auto
qed

lemma str_at_ro:
  assumes "in_ro R p (length cs)" "\<forall>a \<in> R. m' a = m a"
  shows "str_at m' p cs = str_at m p cs"
  using assms by (intro str_at_cong) (simp add: in_ro_def)

lemma in_ro_drop: "in_ro R p (k + n) \<Longrightarrow> in_ro R (p + word_of_nat k) n"
  unfolding in_ro_def
proof (intro allI impI)
  fix i assume "\<forall>i \<le> k + n. p + word_of_nat i \<in> R" "i \<le> n"
  then have "p + word_of_nat (k + i) \<in> R" by (metis add_le_cancel_left)
  then show "p + word_of_nat k + word_of_nat i \<in> R" by (simp add: algebra_simps)
qed

lemma strncpy_str:
  assumes "str_at m src cs" "in_ro R src (length cs)" "room R des n" "length cs \<le> n" "src \<noteq> 0"
  shows "strncpy m des src (int (length cs)) = (des, put_bytes m des cs)"
proof -
  have "foldl (\<lambda>m i. m(des + word_of_int i := m (src + word_of_int i))) m [0..int k - 1]
      = put_bytes m des (take k cs)" if "k \<le> length cs" for k
    using that
  proof (induction k)
    case (Suc k)
    have up: "[0..int (Suc k) - 1] = [0..int k - 1] @ [int k]" by (simp add: upto_rec2)
    have "src + word_of_nat k \<in> R" using assms(2) Suc.prems by (simp add: in_ro_def)
    then have "put_bytes m des (take k cs) (src + word_of_nat k) = m (src + word_of_nat k)"
      using assms(3,4) Suc.prems by (intro put_bytes_ro) auto
    also have "\<dots> = cs ! k"
      using assms(1) Suc.prems unfolding str_at_iff bytes_at_def
      by (metis (no_types, lifting) Suc_le_lessD add.left_neutral diff_zero length_upt lessI less_SucI
          nth_append nth_map nth_upt)
    finally show ?case using Suc unfolding up
      by (simp add: take_Suc_conv_app_nth put_bytes_append min_def cong: if_cong)
  qed simp
  from this [of "length cs"] show ?thesis using assms(3,5) by (simp add: strncpy_def room_def)
qed

lemma numbric_digits:
  assumes "2 \<le> b" "b \<le> 16"
  shows "num_to_str m buf n b = Some (int (length (digits b n)), put_bytes m buf (digits b n))"
  using num_loop_correct [OF assms, of n] assms(1) by (auto simp: num_to_str_def digits_def)

lemma numbric_dec:
  assumes "buf \<noteq> 0"
  shows "numbric m buf n 0x21 = Some (int (length (item_out (Dec n))), put_bytes m buf (item_out (Dec n)))"
proof (cases "sint n < 0")
  case True
  then have "absolute (sint n) = - sint n" by (simp add: absolute_def not_int_def)
  then show ?thesis using True assms
    by (simp add: numbric_def itoa_def numbric_digits)
next
  case False
  then show ?thesis using assms by (simp add: numbric_def itoa_def numbric_digits)
qed

lemma conv_flag_None: "conv_flag 99 = None" "conv_flag 115 = None" "conv_flag 37 = None"
  by (simp_all add: conv_flag_def)

lemma vsprintf_item:
  assumes "item_ok R m it" "bytes_at m fmt (length (item_fmt it)) = item_fmt it"
    and "room R str n" "length (item_out it) \<le> n"
  shows "vsprintf_loop m str fmt (item_arg it @ args) 0
    = vsprintf_loop (put_bytes m str (item_out it)) (str + word_of_nat (length (item_out it)))
        (fmt + word_of_nat (length (item_fmt it))) args 0"
proof -
  have z: "str \<noteq> 0" using assms(3) by (simp add: room_def)
  note b = assms(2) [unfolded bytes_at_def, simplified]
  show ?thesis
  proof (cases it)
    case (Lit c)
    then show ?thesis using assms(1) b by (subst vsprintf_loop.simps) simp
  next
    case Percent
    then show ?thesis using b
      by (subst vsprintf_loop.simps) (simp add: Let_def upt_rec conv_flag_None add.commute [of 2])
  next
    case (Dec k)
    have "conv_flag 100 = Some 0x21" by (simp add: conv_flag_def)
    then show ?thesis using b Dec numbric_dec [OF z, of m k]
      by (subst vsprintf_loop.simps) (simp add: Let_def upt_rec add.commute [of 2] del: item_out.simps)
  next
    case (Uns k)
    have "conv_flag 117 = Some 0x11" by (simp add: conv_flag_def)
    then show ?thesis using b Uns numbric_digits [of 10 m str k]
      by (subst vsprintf_loop.simps) (simp add: Let_def upt_rec numbric_def uitoa_def add.commute [of 2])
  next
    case (Hexa k)
    have "conv_flag 120 = Some 0x12" by (simp add: conv_flag_def)
    then show ?thesis using b Hexa numbric_digits [of 16 m str k]
      by (subst vsprintf_loop.simps) (simp add: Let_def upt_rec numbric_def hextoa_def add.commute [of 2])
  next
    case (Chr c)
    then show ?thesis using b
      by (subst vsprintf_loop.simps) (simp add: Let_def upt_rec conv_flag_None add.commute [of 2])
  next
    case (Str p cs)
    then have s: "str_at m p cs" "in_ro R p (length cs)" "p \<noteq> 0" using assms(1) by simp_all
    have "strlen m p = Some (int (length cs))" using strlen_loop_str [OF s(1), of 0] s(3) by (simp add: strlen_def)
    then show ?thesis using b Str strncpy_str [OF s(1,2) assms(3) _ s(3)] assms(4)
      by (subst vsprintf_loop.simps) (simp add: Let_def upt_rec conv_flag_None add.commute [of 2])
  qed
qed

lemma vsprintf_items:
  assumes "str_at m fmt (concat (map item_fmt its))" "in_ro R fmt (length (concat (map item_fmt its)))"
    and "\<forall>it \<in> set its. item_ok R m it" "room R str n" "length (concat (map item_out its)) \<le> n"
  shows "vsprintf_loop m str fmt (concat (map item_arg its)) 0
    = Some (str + word_of_nat (length (concat (map item_out its))),
            put_bytes m str (concat (map item_out its) @ [0]))"
  using assms
proof (induction its arbitrary: m str fmt n)
  case Nil
  then show ?case by (subst vsprintf_loop.simps) simp
next
  case (Cons it its)
  let ?o = "item_out it" and ?f = "item_fmt it"
  let ?m = "put_bytes m str ?o"
  have len: "length ?o \<le> n" "length (concat (map item_out its)) \<le> n - length ?o" using Cons.prems(5) by auto
  have ro: "\<forall>a \<in> R. ?m a = m a" using put_bytes_ro [OF Cons.prems(4)] len by simp
  have r: "in_ro R (fmt + word_of_nat (length ?f)) (length (concat (map item_fmt its)))"
    using Cons.prems(2) by (intro in_ro_drop) simp
  have f: "bytes_at m fmt (length ?f) = ?f" "str_at m (fmt + word_of_nat (length ?f)) (concat (map item_fmt its))"
    using Cons.prems(1) by (simp_all add: str_at_append)
  have ok: "item_ok R ?m i" if "i \<in> set its" for i
  proof -
    have "item_ok R m i" using that Cons.prems(3) by simp
    then show ?thesis using str_at_ro [OF _ ro] by (cases i) auto
  qed
  have "vsprintf_loop m str fmt (concat (map item_arg (it # its))) 0
      = vsprintf_loop ?m (str + word_of_nat (length ?o)) (fmt + word_of_nat (length ?f)) (concat (map item_arg its)) 0"
    using vsprintf_item [OF _ f(1) Cons.prems(4) len(1)] Cons.prems(3) by simp
  also have "\<dots> = Some (str + word_of_nat (length ?o) + word_of_nat (length (concat (map item_out its))),
      put_bytes ?m (str + word_of_nat (length ?o)) (concat (map item_out its) @ [0]))"
    using f(2) str_at_ro [OF r ro] r ok room_step [OF Cons.prems(4) len(1)] len(2) by (intro Cons.IH) auto
  finally show ?case by (simp add: put_bytes_append algebra_simps fun_upd_def)
qed

section \<open>Properties\<close>



text \<open>
  A message that ends exactly at the end of the ring leaves the tail at 8192, one
  past the last index; registering an early console in that state reads and writes
  the ring at the tail, outside of the array.  In every other state of the ring
  registration succeeds and shows the console the characters up to the tail.
\<close>

theorem register_early_printk_bounds:
  assumes "log_inv (log_buffer st)" "\<not> console_early_printk st"
  shows "if lb_tail (log_buffer st) = 8192 then register_early_printk st = None
    else \<exists>st'. register_early_printk st = Some st' \<and> log_buffer st' = log_buffer st
      \<and> hd (drop (length (console_out st)) (console_out st'))
          = cstring (take (nat (lb_tail (log_buffer st))) (lb_buf (log_buffer st)))"
proof (cases "lb_tail (log_buffer st) = 8192")
  case True
  then show ?thesis using assms by (simp add: register_early_printk_def Let_def log_inv_def)
next
  case False
  let ?t = "nat (lb_tail (log_buffer st))" and ?b = "lb_buf (log_buffer st)"
  have "?t < length ?b" using assms False by (auto simp: log_inv_def)
  moreover have "takeWhile (\<lambda>c. c \<noteq> 0) (?b[?t := 0]) = takeWhile (\<lambda>c. c \<noteq> 0) (take ?t ?b)"
    using calculation by (simp add: upd_conv_take_nth_drop takeWhile_tail)
  ultimately show ?thesis using assms False
    by (simp add: register_early_printk_def Let_def early_printk_def cstring_def)
qed

theorem register_early_printk_bounds_witness:
  "register_early_printk \<lparr>console_early_printk = False, console_out = [], log_buffer =
     \<lparr>lb_head = 0, lb_tail = 8192, lb_total = 8192, lb_buf = replicate 8192 65\<rparr>\<rparr> = None"
  using register_early_printk_bounds [of "\<lparr>console_early_printk = False, console_out = [], log_buffer =
     \<lparr>lb_head = 0, lb_tail = 8192, lb_total = 8192, lb_buf = replicate 8192 65\<rparr>\<rparr>"]
  by (simp add: log_inv_def)

text \<open>
  C30.  \<open>vsprintf\<close> prints what the format says: for a format built from plain characters
  and the conversions %%, %d, %u, %x, %c and %s, and an output area apart from the
  format and the string arguments, it returns, the area then holds the rendered
  items followed by a terminator, nothing else has changed, and the result is the
  number of characters.
\<close>

theorem vsprintf_renders:
  assumes "str_at m fmt (concat (map item_fmt its))" "in_ro R fmt (length (concat (map item_fmt its)))"
    and "\<forall>it \<in> set its. item_ok R m it" "room R buf (length (concat (map item_out its)))"
    and "length (concat (map item_out its)) < 2 ^ 31"
  shows "vsprintf m buf fmt (concat (map item_arg its))
    = Some (int (length (concat (map item_out its))), put_bytes m buf (concat (map item_out its) @ [0]))"
proof -
  let ?n = "length (concat (map item_out its))"
  have "sint (word_of_nat ?n :: u32) = int ?n"
    using assms(5) sint_word_of_int_u32 [of "int ?n"] by simp
  then show ?thesis using vsprintf_items [OF assms(1-4) order_refl] assms(4)
    by (simp add: vsprintf_def room_def)
qed

theorem vsprintf_renders_witness:
  "vsprintf ((\<lambda>_. 0)(0x2000 := 110, 0x2001 := 61, 0x2002 := 37, 0x2003 := 120)) 0x1000 0x2000 [VInt 255]
   = Some (4, put_bytes ((\<lambda>_. 0)(0x2000 := 110, 0x2001 := 61, 0x2002 := 37, 0x2003 := 120)) 0x1000 [110, 61, 102, 102, 0])"
proof -
  let ?m = "(\<lambda>_. 0)(0x2000 := 110, 0x2001 := 61, 0x2002 := 37, 0x2003 := 120)"
  let ?its = "[Lit 110, Lit 61, Hexa 255]" and ?R = "{0x2000, 0x2001, 0x2002, 0x2003, 0x2004}"
  have d: "digits 16 255 = [102, 102]" by (simp add: digits_def num_loop.simps hex_def)
  have "in_ro ?R 0x2000 (Suc (Suc (Suc (Suc 0))))" by (auto simp: in_ro_def le_Suc_eq)
  then show ?thesis using vsprintf_renders [of ?m "0x2000" ?its ?R "0x1000"]
    by (simp add: d room_def)
qed

end
