(* ===== verification/Sched.thy ===== *)
theory Sched
  imports Mm
begin

text \<open>
  kernel/sched.c: the priority scheduler, the sleep and idle lists and the process
  identifiers.  A task is its address; the scheduling fields of all task structures are one
  store, and the list nodes embedded in the structure are nodes of the link memory at the
  offsets they have in \<open>struct task_struct\<close> (i386, without \<open>CONFIG_SMP\<close>).  The code runs with
  interrupts off wherever it changes a list, so each function is one atomic step.

  \<^const>\<open>None\<close> is an access outside of the 64 run queues or of the pid table, a null
  \<open>current\<close>, or a list walk that does not end.
\<close>

section \<open>State\<close>

abbreviation (input) TASK_MAX_PRIO :: int where "TASK_MAX_PRIO \<equiv> 64"
abbreviation (input) TASK_DEFAULT_PRIO :: int where "TASK_DEFAULT_PRIO \<equiv> 20"

datatype state_t =
    PROCESS_STATE_PREPARE
  | PROCESS_STATE_RUNNING
  | PROCESS_STATE_SLEEP
  | PROCESS_STATE_IDLE
  | PROCESS_STATE_STOP
  | PROCESS_STATE_UNKNOWN

record task_struct =
  pid :: int
  state :: state_t
  run_time :: int
  wait_time :: int
  time_out :: int
  run_count :: u32
  prio :: int
  pre_prio :: int

text \<open>The lists of the scheduler: the three named ones and the entries of \<open>os_sched_table\<close>.\<close>

datatype queue = System | Idle | Sleep | Prio nat

record sched_list =
  list_at :: addr
  list_count :: u32

record pid_map =
  nr_free :: int
  pid_current :: int
  pid_nr :: int
  pid_addr :: "u32 list"

record sched_state =
  tasks :: "addr \<Rightarrow> task_struct"
  task_links :: list_heap
  sched_lists :: "queue \<Rightarrow> sched_list"
  current :: addr
  idle :: addr
  next_run :: addr
  schedule_running :: bool
  in_interrupt :: bool
  pids :: pid_map
  sched_mm :: mm_state

text \<open>The node of a task on a list; all run queues use the same member.\<close>

fun node_offset :: "queue \<Rightarrow> addr" where
  "node_offset (Prio p) = 1032"
| "node_offset System = 1040"
| "node_offset Sleep = 1048"
| "node_offset Idle = 1056"

abbreviation (input) WAIT_OFFSET :: addr where "WAIT_OFFSET \<equiv> 1068"
abbreviation (input) MUTEX_GET_OFFSET :: addr where "MUTEX_GET_OFFSET \<equiv> 1076"

definition node :: "queue \<Rightarrow> addr \<Rightarrow> addr" where
  "node q t = t + node_offset q"

definition upd_task :: "addr \<Rightarrow> (task_struct \<Rightarrow> task_struct) \<Rightarrow> sched_state \<Rightarrow> sched_state" where
  "upd_task t f st = st\<lparr>tasks := (tasks st)(t := f (tasks st t))\<rparr>"

definition upd_list :: "queue \<Rightarrow> (u32 \<Rightarrow> u32) \<Rightarrow> list_heap \<Rightarrow> sched_state \<Rightarrow> sched_state" where
  "upd_list q f h st =
     st\<lparr>task_links := h,
        sched_lists := (sched_lists st)(q := (sched_lists st q)\<lparr>list_count := f (list_count (sched_lists st q))\<rparr>)\<rparr>"

section \<open>Lists\<close>

definition sched_list_add_task :: "queue \<Rightarrow> addr \<Rightarrow> sched_state \<Rightarrow> sched_state" where
  "sched_list_add_task q t st =
     upd_list q (\<lambda>n. n + 1) (list_add (task_links st) (list_at (sched_lists st q)) (node q t)) st"

definition sched_list_add_task_tail :: "queue \<Rightarrow> addr \<Rightarrow> sched_state \<Rightarrow> sched_state" where
  "sched_list_add_task_tail q t st =
     upd_list q (\<lambda>n. n + 1) (list_add_tail (task_links st) (list_at (sched_lists st q)) (node q t)) st"

definition sched_list_del_task :: "queue \<Rightarrow> addr \<Rightarrow> sched_state \<Rightarrow> sched_state" where
  "sched_list_del_task q t st = upd_list q (\<lambda>n. n - 1) (list_del (task_links st) (node q t)) st"

text \<open>The run queue of a task, if its priority is an index of the table.\<close>

definition prio_queue :: "addr \<Rightarrow> sched_state \<Rightarrow> queue option" where
  "prio_queue t st =
     (if 0 \<le> prio (tasks st t) \<and> prio (tasks st t) < TASK_MAX_PRIO then Some (Prio (nat (prio (tasks st t)))) else None)"

definition prio_list_add_task_tail :: "addr \<Rightarrow> sched_state \<Rightarrow> sched_state option" where
  "prio_list_add_task_tail t st = map_option (\<lambda>q. sched_list_add_task_tail q t st) (prio_queue t st)"

definition prio_list_add_task :: "addr \<Rightarrow> sched_state \<Rightarrow> sched_state option" where
  "prio_list_add_task t st = map_option (\<lambda>q. sched_list_add_task q t st) (prio_queue t st)"

definition prio_list_del_task :: "addr \<Rightarrow> sched_state \<Rightarrow> sched_state option" where
  "prio_list_del_task t st = map_option (\<lambda>q. sched_list_del_task q t st) (prio_queue t st)"

section \<open>States of a task\<close>

datatype state_change_t =
    STATE_NONE_TO_PREPARE
  | STATE_NONE_TO_SLEEP
  | STATE_PREPARE_TO_RUNNING
  | STATE_PREPARE_TO_SLEEP
  | STATE_PREPARE_TO_IDLE
  | STATE_RUNNING_TO_SLEEP
  | STATE_RUNNING_TO_PREPARE
  | STATE_RUNNING_TO_IDLE
  | STATE_SLEEP_TO_PREPARE
  | STATE_SLEEP_TO_IDLE
  | STATE_SLEEP_TO_RUNNING
  | STATE_PREPARE_TO_UNKNOWN
  | STATE_NONE_TO_NONE

text \<open>The table filled by \<open>init_state_change_table\<close>.\<close>

fun change_table :: "state_t \<Rightarrow> state_t \<Rightarrow> state_change_t" where
  "change_table PROCESS_STATE_UNKNOWN PROCESS_STATE_PREPARE = STATE_NONE_TO_PREPARE"
| "change_table PROCESS_STATE_UNKNOWN PROCESS_STATE_SLEEP = STATE_NONE_TO_SLEEP"
| "change_table PROCESS_STATE_PREPARE PROCESS_STATE_RUNNING = STATE_PREPARE_TO_RUNNING"
| "change_table PROCESS_STATE_PREPARE PROCESS_STATE_SLEEP = STATE_PREPARE_TO_SLEEP"
| "change_table PROCESS_STATE_PREPARE PROCESS_STATE_IDLE = STATE_PREPARE_TO_IDLE"
| "change_table PROCESS_STATE_RUNNING PROCESS_STATE_SLEEP = STATE_RUNNING_TO_SLEEP"
| "change_table PROCESS_STATE_RUNNING PROCESS_STATE_PREPARE = STATE_RUNNING_TO_PREPARE"
| "change_table PROCESS_STATE_RUNNING PROCESS_STATE_IDLE = STATE_RUNNING_TO_IDLE"
| "change_table PROCESS_STATE_SLEEP PROCESS_STATE_PREPARE = STATE_SLEEP_TO_PREPARE"
| "change_table PROCESS_STATE_SLEEP PROCESS_STATE_IDLE = STATE_SLEEP_TO_IDLE"
| "change_table PROCESS_STATE_SLEEP PROCESS_STATE_RUNNING = STATE_SLEEP_TO_RUNNING"
| "change_table PROCESS_STATE_PREPARE PROCESS_STATE_UNKNOWN = STATE_PREPARE_TO_UNKNOWN"
| "change_table _ _ = STATE_NONE_TO_NONE"

fun change_lists :: "state_change_t \<Rightarrow> addr \<Rightarrow> sched_state \<Rightarrow> sched_state option" where
  "change_lists STATE_NONE_TO_PREPARE t st = prio_list_add_task_tail t (sched_list_add_task_tail System t st)"
| "change_lists STATE_NONE_TO_SLEEP t st = Some (sched_list_add_task Sleep t (sched_list_add_task_tail System t st))"
| "change_lists STATE_PREPARE_TO_RUNNING t st = prio_list_del_task t st"
| "change_lists STATE_PREPARE_TO_IDLE t st = map_option (sched_list_add_task_tail Idle t) (prio_list_del_task t st)"
| "change_lists STATE_PREPARE_TO_SLEEP t st = map_option (sched_list_add_task_tail Sleep t) (prio_list_del_task t st)"
| "change_lists STATE_RUNNING_TO_SLEEP t st = Some (sched_list_add_task_tail Sleep t st)"
| "change_lists STATE_RUNNING_TO_PREPARE t st = prio_list_add_task_tail t st"
| "change_lists STATE_RUNNING_TO_IDLE t st = Some (sched_list_add_task_tail Idle t st)"
| "change_lists STATE_SLEEP_TO_PREPARE t st = prio_list_add_task_tail t (sched_list_del_task Sleep t st)"
| "change_lists STATE_SLEEP_TO_IDLE t st = Some (sched_list_add_task_tail Idle t (sched_list_del_task Sleep t st))"
| "change_lists STATE_SLEEP_TO_RUNNING t st = Some (sched_list_del_task Sleep t st)"
| "change_lists STATE_PREPARE_TO_UNKNOWN t st = prio_list_del_task t st"
| "change_lists STATE_NONE_TO_NONE t st = Some st"

definition get_task_state :: "addr \<Rightarrow> sched_state \<Rightarrow> state_t" where
  "get_task_state t st = state (tasks st t)"

definition set_task_state :: "addr \<Rightarrow> state_t \<Rightarrow> sched_state \<Rightarrow> sched_state option" where
  "set_task_state t new st =
     (let change = change_table (get_task_state t st) new in
      if change = STATE_NONE_TO_NONE then Some st
      else change_lists change t (upd_task t (\<lambda>k. k\<lparr>state := new\<rparr>) st))"

section \<open>Process identifiers\<close>

definition init_pid_allocater :: "sched_state \<Rightarrow> (int \<times> sched_state) option" where
  "init_pid_allocater st =
     map_option (\<lambda>(va, ms).
       let st = st\<lparr>sched_mm := ms, pids := \<lparr>nr_free = 1024, pid_current = 0, pid_nr = 1024,
                                            pid_addr = if va = 0 then [] else replicate 1024 0\<rparr>\<rparr>
       in (if va = 0 then (- ENOMEM, st) else (0, st)))
       (get_free_pages 1 GFP_KERNEL (sched_mm st))"

definition get_task_pid :: "addr \<Rightarrow> sched_state \<Rightarrow> int" where
  "get_task_pid t st = pid (tasks st t)"

definition sys_getpid :: "sched_state \<Rightarrow> int" where
  "sys_getpid st = get_task_pid (current st) st"

definition release_pid :: "addr \<Rightarrow> sched_state \<Rightarrow> (int \<times> sched_state) option" where
  "release_pid t st =
     (let i = pid (tasks st t); base = pid_addr (pids st) in
      if 0 \<le> i \<and> nat i < length base
      then Some (0, st\<lparr>pids := (pids st)\<lparr>pid_addr := base[nat i := 0]\<rparr>\<rparr>) else None)"

function pid_loop :: "u32 list \<Rightarrow> int \<Rightarrow> int \<Rightarrow> int option option" where
  "pid_loop base nr i =
     (if i < nr then
        if \<not> (0 \<le> i \<and> nat i < length base) then None
        else if base ! nat i = 0 then Some (Some i)
        else pid_loop base nr (i + 1)
      else Some None)"
  by pat_completeness auto

termination by (relation "measure (\<lambda>(base, nr, i). nat (nr - i))") auto

declare pid_loop.simps [simp del]

definition get_new_pid :: "addr \<Rightarrow> sched_state \<Rightarrow> (int \<times> sched_state) option" where
  "get_new_pid t st =
     (let m = pids st in
      if nr_free m = 0 then Some (- 1, st)
      else map_option (\<lambda>r. case r of
          None \<Rightarrow> (- 1, st)
        | Some i \<Rightarrow> (i, st\<lparr>pids := m\<lparr>nr_free := nr_free m - 1, pid_current := pid_current m + 1,
                                     pid_addr := (pid_addr m)[nat i := t]\<rparr>\<rparr>))
        (pid_loop (pid_addr m) (pid_nr m) (pid_current m)))"

definition pid_get_task :: "int \<Rightarrow> sched_state \<Rightarrow> addr option" where
  "pid_get_task i st =
     (if i < pid_nr (pids st)
      then if 0 \<le> i \<and> nat i < length (pid_addr (pids st)) then Some (pid_addr (pids st) ! nat i) else None
      else Some 0)"

definition sched_remove_task :: "addr \<Rightarrow> sched_state \<Rightarrow> (int \<times> sched_state) option" where
  "sched_remove_task t st =
     (let p = get_task_pid t st in
      if get_task_state t st \<noteq> PROCESS_STATE_IDLE then Some (- EINVAL, st)
      else if p = 1 \<or> p = 0 then Some (- EINVAL, st)
      else map_option (\<lambda>(_, st). (0, st))
             (release_pid t (sched_list_del_task System t (sched_list_del_task Idle t st))))"

section \<open>Priorities and time slices\<close>

definition get_task_run_time :: "addr \<Rightarrow> sched_state \<Rightarrow> sched_state" where
  "get_task_run_time t st = upd_task t (\<lambda>k. k\<lparr>run_time := 5 + (TASK_MAX_PRIO - prio k)\<rparr>) st"

definition init_sched_struct :: "addr \<Rightarrow> sched_state \<Rightarrow> int \<times> sched_state" where
  "init_sched_struct t st =
     (let st = upd_task t (\<lambda>k. k\<lparr>prio := if t \<noteq> idle st then TASK_DEFAULT_PRIO else TASK_MAX_PRIO - 1\<rparr>) st;
          st = get_task_run_time t st;
          st = upd_task t (\<lambda>k. k\<lparr>wait_time := - 1, time_out := 0, run_count := 0, state := PROCESS_STATE_UNKNOWN\<rparr>) st
      in (0, st\<lparr>task_links := foldl (\<lambda>h off. init_list h (t + off)) (task_links st)
                  [1032, 1040, 1048, 1056, MUTEX_GET_OFFSET, WAIT_OFFSET]\<rparr>))"

definition set_task_prio :: "addr \<Rightarrow> int \<Rightarrow> sched_state \<Rightarrow> (int \<times> sched_state) option" where
  "set_task_prio t p st =
     (if p \<ge> TASK_MAX_PRIO then Some (- EINVAL, st)
      else case get_task_state t st of
        PROCESS_STATE_RUNNING \<Rightarrow> Some (0, upd_task t (\<lambda>k. k\<lparr>pre_prio := prio k, prio := p\<rparr>) st)
      | PROCESS_STATE_SLEEP \<Rightarrow> Some (0, upd_task t (\<lambda>k. k\<lparr>pre_prio := prio k, prio := p\<rparr>) st)
      | PROCESS_STATE_PREPARE \<Rightarrow>
          Option.bind (set_task_state t PROCESS_STATE_UNKNOWN st) (\<lambda>st.
            map_option (Pair 0)
              (set_task_state t PROCESS_STATE_PREPARE (upd_task t (\<lambda>k. k\<lparr>pre_prio := prio k, prio := p\<rparr>) st)))
      | _ \<Rightarrow> Some (0, st))"

definition dec_prio :: "addr \<Rightarrow> sched_state \<Rightarrow> sched_state" where
  "dec_prio t st =
     upd_task t (\<lambda>k.
       let k = (if prio k < TASK_MAX_PRIO - 1 then k\<lparr>prio := prio k + 1\<rparr> else k)
       in if pid k \<noteq> - 1 \<and> prio k = TASK_MAX_PRIO - 1 then k\<lparr>prio := 0\<rparr> else k) st"

section \<open>Switching\<close>

definition sched_table_empty :: "nat \<Rightarrow> sched_state \<Rightarrow> bool" where
  "sched_table_empty i st \<longleftrightarrow> list_count (sched_lists st (Prio i)) = 0"

definition find_next_run_task :: "sched_state \<Rightarrow> sched_state" where
  "find_next_run_task st =
     (case List.find (\<lambda>i. list_count (sched_lists st (Prio i)) \<noteq> 0) [0..<64] of
        None \<Rightarrow> st
      | Some i \<Rightarrow> st\<lparr>next_run := lnext (task_links st) (list_at (sched_lists st (Prio i))) - node_offset (Prio i)\<rparr>)"

definition prepare_to_switch :: "sched_state \<Rightarrow> (int \<times> sched_state) option" where
  "prepare_to_switch st =
     (if current st = 0 then None
      else if current st = next_run st
      then Some (- EAGAIN, upd_task (next_run st) (\<lambda>k. k\<lparr>run_count := run_count k + 1\<rparr>) (get_task_run_time (next_run st) st))
      else
        Option.bind
          (if get_task_state (current st) st = PROCESS_STATE_RUNNING
           then set_task_state (current st) PROCESS_STATE_PREPARE
                  (if run_time (tasks st (current st)) = 0 \<or> \<not> in_interrupt st
                   then get_task_run_time (current st) (dec_prio (current st) st) else st)
           else Some st)
          (\<lambda>st.
             let n = next_run st;
                 st = upd_task n (\<lambda>k. if wait_time k = 0 then k\<lparr>time_out := 1\<rparr> else k) st;
                 st = upd_task n (\<lambda>k. k\<lparr>wait_time := - 1\<rparr>) st
             in map_option (Pair 0) (set_task_state n PROCESS_STATE_RUNNING st)))"

text \<open>\<open>arch_switch_task_sw\<close> makes \<open>next_run\<close> the current task.\<close>

definition sched :: "sched_state \<Rightarrow> sched_state option" where
  "sched st =
     (if in_interrupt st then Some st
      else if \<not> schedule_running st then Some st
      else map_option (\<lambda>(ret, st). if ret \<noteq> 0 then st else st\<lparr>current := next_run st\<rparr>)
             (prepare_to_switch (find_next_run_task st)))"

partial_function (option) tick_loop :: "addr \<Rightarrow> sched_state \<Rightarrow> sched_state option" where
  "tick_loop l st =
     (if l = list_at (sched_lists st Sleep) then Some st
      else
        let t = l - node_offset Sleep;
            st = upd_task t (\<lambda>k. if wait_time k > 0 then k\<lparr>wait_time := wait_time k - 1\<rparr> else k) st
        in Option.bind
             (if wait_time (tasks st t) = 0 then set_task_state t PROCESS_STATE_PREPARE st else Some st)
             (\<lambda>st. tick_loop (lnext (task_links st) l) st))"

definition os_tick_handler :: "sched_state \<Rightarrow> (int \<times> sched_state) option" where
  "os_tick_handler st =
     Option.bind (tick_loop (lnext (task_links st) (list_at (sched_lists st Sleep))) st) (\<lambda>st.
       if current st = 0 then None
       else
         let st = upd_task (current st) (\<lambda>k. k\<lparr>run_time := run_time k - 1\<rparr>) st in
         if run_time (tasks st (current st)) = 0
         then map_option (\<lambda>(_, st). (0, st)) (prepare_to_switch (find_next_run_task st))
         else Some (0, st))"

text \<open>
  A task that suspends itself continues after the call to \<open>sched\<close>, when it is
  the current task again; it then returns its \<open>time_out\<close>.
\<close>

definition suspend_task_timeout :: "addr \<Rightarrow> int \<Rightarrow> sched_state \<Rightarrow> (int option \<times> sched_state) option" where
  "suspend_task_timeout t ms st =
     (if t = 0 \<or> ms = 0 then Some (Some (- EINVAL), st)
      else if get_task_state t st \<noteq> PROCESS_STATE_IDLE
      then
        Option.bind (set_task_state t PROCESS_STATE_SLEEP (upd_task t (\<lambda>k. k\<lparr>wait_time := ms, time_out := 0\<rparr>) st)) (\<lambda>st.
          map_option (Pair None) (sched st))
      else Some (Some (- EINVAL), st))"

definition suspend_result :: "addr \<Rightarrow> sched_state \<Rightarrow> int" where
  "suspend_result t st = time_out (tasks st t)"

definition wakeup_task :: "addr \<Rightarrow> sched_state \<Rightarrow> (int \<times> sched_state) option" where
  "wakeup_task t st =
     (if get_task_state t st \<noteq> PROCESS_STATE_SLEEP then Some (- EINVAL, st)
      else map_option (Pair 0) (set_task_state t PROCESS_STATE_PREPARE (get_task_run_time t st)))"

definition sched_init :: "sched_state \<Rightarrow> (int \<times> sched_state) option" where
  "sched_init st =
     (let qs = map Prio [0..<64] @ [Sleep, Idle, System];
          st = foldl (\<lambda>st q. upd_list q (\<lambda>_. 0) (init_list (task_links st) (list_at (sched_lists st q))) st) st qs
      in map_option (\<lambda>(_, st). (0, st\<lparr>current := 0, next_run := 0, schedule_running := True\<rparr>)) (init_pid_allocater st))"

section \<open>The lists hold the tasks of their state\<close>

fun valid_queue :: "queue \<Rightarrow> bool" where
  "valid_queue (Prio p) \<longleftrightarrow> p < 64"
| "valid_queue _ \<longleftrightarrow> True"

text \<open>The task structures in \<open>T\<close> do not overlap, nor do they overlap the list heads.\<close>

definition layout_ok :: "addr set \<Rightarrow> (queue \<Rightarrow> addr) \<Rightarrow> bool" where
  "layout_ok T at \<longleftrightarrow>
     (\<forall>t \<in> T. \<forall>t' \<in> T. \<forall>q q'. node q t = node q' t' \<longrightarrow> t = t' \<and> node_offset q = node_offset q')
     \<and> (\<forall>t \<in> T. \<forall>q q'. valid_queue q' \<longrightarrow> node q t \<noteq> at q')
     \<and> (\<forall>q q'. valid_queue q \<longrightarrow> valid_queue q' \<longrightarrow> at q = at q' \<longrightarrow> q = q')"

definition heads :: "sched_state \<Rightarrow> queue \<Rightarrow> addr" where
  "heads st q = list_at (sched_lists st q)"

text \<open>The lists in memory represent the sequences of tasks \<open>qs\<close>.\<close>

definition queues_rep :: "addr set \<Rightarrow> (queue \<Rightarrow> addr list) \<Rightarrow> sched_state \<Rightarrow> bool" where
  "queues_rep T qs st \<longleftrightarrow> layout_ok T (heads st)
     \<and> (\<forall>q. valid_queue q \<longrightarrow> dlist (task_links st) (heads st q) (map (node q) (qs q))
          \<and> list_count (sched_lists st q) = word_of_nat (length (qs q)) \<and> set (qs q) \<subseteq> T)
     \<and> (\<forall>p p'. p < 64 \<longrightarrow> p' < 64 \<longrightarrow> p \<noteq> p' \<longrightarrow> set (qs (Prio p)) \<inter> set (qs (Prio p')) = {})"

definition placed_at :: "(queue \<Rightarrow> addr list) \<Rightarrow> task_struct \<Rightarrow> addr \<Rightarrow> bool" where
  "placed_at qs k t \<longleftrightarrow>
     (t \<in> set (qs System) \<longleftrightarrow> state k \<noteq> PROCESS_STATE_UNKNOWN)
     \<and> (t \<in> set (qs Sleep) \<longleftrightarrow> state k = PROCESS_STATE_SLEEP)
     \<and> (t \<in> set (qs Idle) \<longleftrightarrow> state k = PROCESS_STATE_IDLE)
     \<and> (\<forall>p < 64. t \<in> set (qs (Prio p)) \<longleftrightarrow> state k = PROCESS_STATE_PREPARE \<and> prio k = int p)
     \<and> (state k = PROCESS_STATE_PREPARE \<longrightarrow> 0 \<le> prio k \<and> prio k < 64)"

definition placed :: "addr set \<Rightarrow> (queue \<Rightarrow> addr list) \<Rightarrow> (addr \<Rightarrow> task_struct) \<Rightarrow> bool" where
  "placed T qs ts \<longleftrightarrow> (\<forall>t \<in> T. placed_at qs (ts t) t)"

definition sched_inv :: "addr set \<Rightarrow> (queue \<Rightarrow> addr list) \<Rightarrow> sched_state \<Rightarrow> bool" where
  "sched_inv T qs st \<longleftrightarrow> queues_rep T qs st \<and> placed T qs (tasks st)"

text \<open>Everything but the tasks and the lists.\<close>

definition same_rest :: "sched_state \<Rightarrow> sched_state \<Rightarrow> bool" where
  "same_rest st st' \<longleftrightarrow> heads st' = heads st \<and> current st' = current st \<and> idle st' = idle st \<and> next_run st' = next_run st
     \<and> schedule_running st' = schedule_running st \<and> in_interrupt st' = in_interrupt st \<and> pids st' = pids st
     \<and> sched_mm st' = sched_mm st"

lemma same_rest_refl [simp]: "same_rest st st"
  by (simp add: same_rest_def)

lemma same_rest_trans: "same_rest a b \<Longrightarrow> same_rest b c \<Longrightarrow> same_rest a c"
  by (simp add: same_rest_def)

lemma upd_task_simps [simp]:
  "tasks (upd_task t f st) = (tasks st)(t := f (tasks st t))" "task_links (upd_task t f st) = task_links st"
  "sched_lists (upd_task t f st) = sched_lists st" "heads (upd_task t f st) = heads st"
  "current (upd_task t f st) = current st" "next_run (upd_task t f st) = next_run st" "idle (upd_task t f st) = idle st"
  "in_interrupt (upd_task t f st) = in_interrupt st" "schedule_running (upd_task t f st) = schedule_running st"
  "pids (upd_task t f st) = pids st" "sched_mm (upd_task t f st) = sched_mm st"
  "same_rest st' (upd_task t f st) = same_rest st' st"
  by (auto simp: upd_task_def heads_def fun_eq_iff same_rest_def)

lemma upd_list_simps [simp]:
  "tasks (upd_list q f h st) = tasks st" "task_links (upd_list q f h st) = h" "heads (upd_list q f h st) = heads st"
  "list_count (sched_lists (upd_list q f h st) k) =
     (if k = q then f (list_count (sched_lists st q)) else list_count (sched_lists st k))"
  "same_rest st' (upd_list q f h st) = same_rest st' st"
  by (auto simp: upd_list_def heads_def fun_eq_iff same_rest_def)

lemma queues_rep_upd_task [simp]: "queues_rep T qs (upd_task t f st) = queues_rep T qs st"
  by (simp add: queues_rep_def)

text \<open>Two tasks on different lists have different nodes, unless it is the same task on two run queues.\<close>

lemma same_offset: "node_offset q = node_offset q' \<longleftrightarrow> q = q' \<or> (\<exists>p p'. q = Prio p \<and> q' = Prio p')"
  by (cases q; cases q') auto

lemma queues_apart:
  assumes r: "queues_rep T qs st" and q: "valid_queue q" "valid_queue q'" "q' \<noteq> q" and t: "t \<in> T"
    and p: "\<And>p p'. q = Prio p \<Longrightarrow> q' = Prio p' \<Longrightarrow> t \<notin> set (qs q')"
  shows "set (heads st q' # map (node q') (qs q')) \<inter> set (heads st q # node q t # map (node q) (qs q)) = {}"
proof -
  have l: "layout_ok T (heads st)" using r by (simp add: queues_rep_def)
  have sub: "set (qs q) \<subseteq> T" "set (qs q') \<subseteq> T" using r q by (auto simp: queues_rep_def)
  have hd: "heads st q' \<noteq> heads st q" using l q unfolding layout_ok_def by metis
  have hn: "node k x \<noteq> heads st q" "node k x \<noteq> heads st q'" if "x \<in> T" for k x
    using l q that unfolding layout_ok_def by metis+
  have nn: "node q' x \<noteq> node q y" if x: "x \<in> set (qs q')" and y: "y = t \<or> y \<in> set (qs q)" for x y
  proof
    assume eq: "node q' x = node q y"
    have "x \<in> T" "y \<in> T" using x y sub t by auto
    then have "x = y" "node_offset q' = node_offset q" using l eq unfolding layout_ok_def by metis+
    moreover from this obtain i j where ij: "q = Prio i" "q' = Prio j" using same_offset q(3) by metis
    moreover have "x \<noteq> t" using p [OF ij] x by auto
    ultimately have "x \<in> set (qs (Prio i)) \<inter> set (qs (Prio j))" using x y by auto
    moreover have "set (qs (Prio i)) \<inter> set (qs (Prio j)) = {}" using r q ij by (auto simp: queues_rep_def)
    ultimately show False by blast
  qed
  show ?thesis using hd hn sub t nn by (auto; metis subsetD)
qed

lemma node_inj:
  assumes "queues_rep T qs st" "valid_queue q" "t \<in> T"
  shows "node q t \<in> set (map (node q) (qs q)) \<longleftrightarrow> t \<in> set (qs q)"
proof -
  have "layout_ok T (heads st)" "set (qs q) \<subseteq> T" using assms by (auto simp: queues_rep_def)
  then show ?thesis using assms(3) unfolding layout_ok_def by (auto; metis subsetD)
qed

text \<open>One list changes, the others are left alone.\<close>

lemma queues_rep_change:
  assumes r: "queues_rep T qs st" and hd: "heads st' = heads st"
    and own: "valid_queue q \<Longrightarrow> dlist (task_links st') (heads st q) (map (node q) ys)"
    and rest: "\<And>k. valid_queue k \<Longrightarrow> k \<noteq> q \<Longrightarrow> dlist (task_links st') (heads st k) (map (node k) (qs k))"
    and cnt: "list_count (sched_lists st' q) = word_of_nat (length ys)"
      "\<And>k. k \<noteq> q \<Longrightarrow> list_count (sched_lists st' k) = list_count (sched_lists st k)"
    and ys: "set ys \<subseteq> T" "\<And>i j. q = Prio i \<Longrightarrow> j < 64 \<Longrightarrow> j \<noteq> i \<Longrightarrow> set ys \<inter> set (qs (Prio j)) = {}"
  shows "queues_rep T (qs(q := ys)) st'"
proof -
  have pd: "set (qs (Prio i)) \<inter> set (qs (Prio j)) = {}" if "i < 64" "j < 64" "i \<noteq> j" for i j
    using r that by (simp add: queues_rep_def)
  have "set ((qs(q := ys)) (Prio i)) \<inter> set ((qs(q := ys)) (Prio j)) = {}" if "i < 64" "j < 64" "i \<noteq> j" for i j
    using ys(2) [of i j] ys(2) [of j i] pd [OF that] that by (cases "q = Prio i"; cases "q = Prio j") auto
  then show ?thesis using r own rest cnt ys(1) unfolding queues_rep_def hd by auto
qed

lemma queues_rep_disjoint:
  assumes "queues_rep T qs st" "valid_queue q" "t \<in> set (qs q)" "q = Prio i" "j < 64" "j \<noteq> i"
  shows "t \<notin> set (qs (Prio j))" "set (qs q) \<inter> set (qs (Prio j)) = {}"
proof -
  show "set (qs q) \<inter> set (qs (Prio j)) = {}" using assms by (simp add: queues_rep_def)
  then show "t \<notin> set (qs (Prio j))" using assms(3) by blast
qed

lemma node_fresh:
  assumes "queues_rep T qs st" "valid_queue q" "t \<in> T" "t \<notin> set (qs q)"
  shows "node q t \<notin> set (heads st q # map (node q) (qs q))"
  using node_inj [OF assms(1-3)] assms unfolding queues_rep_def layout_ok_def by auto

lemma queues_rep_add_tail:
  assumes r: "queues_rep T qs st" and q: "valid_queue q" and t: "t \<in> T" "t \<notin> set (qs q)"
    and p: "\<And>p p'. q = Prio p \<Longrightarrow> p' < 64 \<Longrightarrow> t \<notin> set (qs (Prio p'))"
  shows "queues_rep T (qs(q := qs q @ [t])) (sched_list_add_task_tail q t st)"
proof -
  have d: "dlist (task_links st) (heads st k) (map (node k) (qs k))" "set (qs q) \<subseteq> T" if "valid_queue k" for k
    using r q that by (simp_all add: queues_rep_def)
  have links: "task_links (sched_list_add_task_tail q t st) = list_add_tail (task_links st) (heads st q) (node q t)"
    by (simp add: sched_list_add_task_tail_def heads_def)
  show ?thesis
  proof (rule queues_rep_change [OF r])
    show "dlist (task_links (sched_list_add_task_tail q t st)) (heads st q) (map (node q) (qs q @ [t]))"
      using klist.add_tail_rep [OF d(1) [OF q] node_fresh [OF r q t]] links by simp
    fix k assume k: "valid_queue k" "k \<noteq> q"
    have "set (heads st k # map (node k) (qs k)) \<inter> set (heads st q # node q t # map (node q) (qs q)) = {}"
      using p k by (intro queues_apart [OF r q k t(1)]) auto
    then show "dlist (task_links (sched_list_add_task_tail q t st)) (heads st k) (map (node k) (qs k))"
      unfolding links using klist.add_tail_frame [OF d(1) [OF q] d(1) [OF k(1)]] by blast
  next
    show "list_count (sched_lists (sched_list_add_task_tail q t st) q) = word_of_nat (length (qs q @ [t]))"
      using r q by (simp add: sched_list_add_task_tail_def queues_rep_def)
    fix i j assume ij: "q = Prio i" "j < 64" "j \<noteq> i"
    then show "set (qs q @ [t]) \<inter> set (qs (Prio j)) = {}" using p [OF ij(1,2)] r q by (auto simp: queues_rep_def)
  qed (use d(2) [OF q] t(1) in \<open>auto simp: sched_list_add_task_tail_def\<close>)
qed

lemma queues_rep_add:
  assumes r: "queues_rep T qs st" and q: "valid_queue q" and t: "t \<in> T" "t \<notin> set (qs q)" and p: "\<And>p. q \<noteq> Prio p"
  shows "queues_rep T (qs(q := t # qs q)) (sched_list_add_task q t st)"
proof -
  have d: "dlist (task_links st) (heads st k) (map (node k) (qs k))" "set (qs q) \<subseteq> T" if "valid_queue k" for k
    using r q that by (simp_all add: queues_rep_def)
  have links: "task_links (sched_list_add_task q t st) = list_add (task_links st) (heads st q) (node q t)"
    by (simp add: sched_list_add_task_def heads_def)
  show ?thesis
  proof (rule queues_rep_change [OF r])
    show "dlist (task_links (sched_list_add_task q t st)) (heads st q) (map (node q) (t # qs q))"
      using klist.add_rep [OF d(1) [OF q] node_fresh [OF r q t]] links by simp
    fix k assume k: "valid_queue k" "k \<noteq> q"
    have "set (heads st k # map (node k) (qs k)) \<inter> set (heads st q # node q t # map (node q) (qs q)) = {}"
      using p by (intro queues_apart [OF r q k t(1)]) auto
    then show "dlist (task_links (sched_list_add_task q t st)) (heads st k) (map (node k) (qs k))"
      unfolding links using klist.add_frame [OF d(1) [OF q] d(1) [OF k(1)]] by blast
  next
    show "list_count (sched_lists (sched_list_add_task q t st) q) = word_of_nat (length (t # qs q))"
      using r q by (simp add: sched_list_add_task_def queues_rep_def)
  qed (use d(2) [OF q] t(1) p in \<open>auto simp: sched_list_add_task_def\<close>)
qed

lemma queues_rep_del:
  assumes r: "queues_rep T qs st" and q: "valid_queue q" and t: "t \<in> set (qs q)"
  shows "queues_rep T (qs(q := remove1 t (qs q))) (sched_list_del_task q t st)"
proof -
  have d: "dlist (task_links st) (heads st k) (map (node k) (qs k))" "set (qs q) \<subseteq> T" if "valid_queue k" for k
    using r q that by (simp_all add: queues_rep_def)
  have links: "task_links (sched_list_del_task q t st) = list_del (task_links st) (node q t)"
    by (simp add: sched_list_del_task_def)
  have tT: "t \<in> T" using d(2) [OF q] t by blast
  obtain xs ys where xy: "qs q = xs @ t # ys" using t by (meson split_list)
  have "distinct (map (node q) (qs q))" using klist.rep_distinct [OF d(1) [OF q]] by simp
  then have rm: "remove1 t (qs q) = xs @ ys" using xy by (auto simp: remove1_append)
  show ?thesis
  proof (rule queues_rep_change [OF r])
    show "dlist (task_links (sched_list_del_task q t st)) (heads st q) (map (node q) (remove1 t (qs q)))"
      using klist.del_rep [of "task_links st" "heads st q" "map (node q) xs" "node q t" "map (node q) ys"]
        d(1) [OF q] links xy rm by simp
    fix k assume k: "valid_queue k" "k \<noteq> q"
    have "set (heads st k # map (node k) (qs k)) \<inter> set (heads st q # node q t # map (node q) (qs q)) = {}"
      using queues_rep_disjoint(1) [OF r q t] k by (intro queues_apart [OF r q k tT]) auto
    then show "dlist (task_links (sched_list_del_task q t st)) (heads st k) (map (node k) (qs k))"
      unfolding links using klist.del_frame [OF d(1) [OF q] _ d(1) [OF k(1)], of "node q t"] t by auto
  next
    show "list_count (sched_lists (sched_list_del_task q t st) q) = word_of_nat (length (remove1 t (qs q)))"
      using r q xy rm by (simp add: sched_list_del_task_def queues_rep_def)
    show "set (remove1 t (qs q)) \<subseteq> T" using d(2) [OF q] set_remove1_subset [of t "qs q"] by blast
    fix i j assume ij: "q = Prio i" "j < 64" "j \<noteq> i"
    then show "set (remove1 t (qs q)) \<inter> set (qs (Prio j)) = {}"
      using queues_rep_disjoint(2) [OF r q t ij] set_remove1_subset [of t "qs q"] by blast
  qed (auto simp: sched_list_del_task_def)
qed

section \<open>A change of state moves the task\<close>

text \<open>The list a task belongs to by its state, besides the list of all tasks.\<close>

definition home :: "task_struct \<Rightarrow> queue option" where
  "home k = (case state k of
       PROCESS_STATE_PREPARE \<Rightarrow> Some (Prio (nat (prio k)))
     | PROCESS_STATE_SLEEP \<Rightarrow> Some Sleep
     | PROCESS_STATE_IDLE \<Rightarrow> Some Idle
     | _ \<Rightarrow> None)"

definition leave :: "queue option \<Rightarrow> addr \<Rightarrow> (queue \<Rightarrow> addr list) \<Rightarrow> queue \<Rightarrow> addr list" where
  "leave r t qs = (case r of None \<Rightarrow> qs | Some q \<Rightarrow> qs(q := remove1 t (qs q)))"

definition enter :: "queue option \<Rightarrow> addr \<Rightarrow> (queue \<Rightarrow> addr list) \<Rightarrow> queue \<Rightarrow> addr list" where
  "enter r t qs = (case r of None \<Rightarrow> qs | Some q \<Rightarrow> qs(q := qs q @ [t]))"

text \<open>The specification: from the old list to the end of the new one; a new task also joins the list of all tasks.\<close>

definition moved :: "task_struct \<Rightarrow> state_t \<Rightarrow> addr \<Rightarrow> (queue \<Rightarrow> addr list) \<Rightarrow> queue \<Rightarrow> addr list" where
  "moved k new t qs =
     (if state k = PROCESS_STATE_UNKNOWN then
        let qs = qs(System := qs System @ [t]) in
        if new = PROCESS_STATE_SLEEP then qs(Sleep := t # qs Sleep) else enter (home (k\<lparr>state := new\<rparr>)) t qs
      else enter (home (k\<lparr>state := new\<rparr>)) t (leave (home k) t qs))"

definition legal_change :: "task_struct \<Rightarrow> state_t \<Rightarrow> bool" where
  "legal_change k new \<longleftrightarrow> change_table (state k) new \<noteq> STATE_NONE_TO_NONE
     \<and> change_table (state k) new \<noteq> STATE_PREPARE_TO_UNKNOWN
     \<and> (new = PROCESS_STATE_PREPARE \<longrightarrow> 0 \<le> prio k \<and> prio k < 64)"

lemma queue_members: "queues_rep T qs st \<Longrightarrow> valid_queue q \<Longrightarrow> set (qs q) \<subseteq> T"
  by (simp add: queues_rep_def)

lemma sched_inv_placed: "sched_inv T qs st \<Longrightarrow> t \<in> T \<Longrightarrow> placed_at qs (tasks st t) t"
  by (simp add: sched_inv_def placed_def)

lemma queues_rep_distinct:
  assumes "queues_rep T qs st" "valid_queue q"
  shows "distinct (qs q)"
proof -
  have "dlist (task_links st) (heads st q) (map (node q) (qs q))" using assms by (simp add: queues_rep_def)
  then show ?thesis by (simp add: dlist_def distinct_map)
qed

lemma placed_moved:
  assumes p: "placed T qs ts" and t: "t \<in> T" and l: "legal_change (ts t) new"
    and d: "\<And>q. valid_queue q \<Longrightarrow> distinct (qs q)"
  shows "placed T (moved (ts t) new t qs) (ts(t := (ts t)\<lparr>state := new\<rparr>))"
  unfolding placed_def
proof
  fix x assume x: "x \<in> T"
  have dd: "distinct (qs Sleep)" "distinct (qs Idle)" "\<And>p. p < 64 \<Longrightarrow> distinct (qs (Prio p))" using d by simp_all
  have px: "placed_at qs (ts x) x" using p x by (simp add: placed_def)
  show "placed_at (moved (ts t) new t qs) ((ts(t := (ts t)\<lparr>state := new\<rparr>)) x) x"
  proof (cases "x = t")
    case True
    then show ?thesis using l px dd
      by (cases "state (ts t)"; cases new)
        (auto simp: placed_at_def legal_change_def moved_def home_def leave_def enter_def Let_def)
  next
    case False
    then have "x \<in> set (moved (ts t) new t qs q) \<longleftrightarrow> x \<in> set (qs q)" for q
      by (auto simp: moved_def leave_def enter_def Let_def in_set_remove1 split: option.splits if_splits)
    then show ?thesis using px False by (simp add: placed_at_def)
  qed
qed

lemma list_op_simps [simp]:
  "tasks (sched_list_add_task q t st) = tasks st" "tasks (sched_list_add_task_tail q t st) = tasks st"
  "tasks (sched_list_del_task q t st) = tasks st" "same_rest st' (sched_list_add_task q t st) = same_rest st' st"
  "same_rest st' (sched_list_add_task_tail q t st) = same_rest st' st"
  "same_rest st' (sched_list_del_task q t st) = same_rest st' st"
  by (simp_all add: sched_list_add_task_def sched_list_add_task_tail_def sched_list_del_task_def)

lemma prio_queue_cong: "tasks st' t = tasks st t \<Longrightarrow> prio_queue t st' = prio_queue t st"
  by (simp add: prio_queue_def)

text \<open>From a list in \<open>qs\<close> the task is on, or from none.\<close>

lemma enter_rep:
  assumes "queues_rep T qs st" "t \<in> T" "valid_queue q" "t \<notin> set (qs q)" "\<forall>p < 64. t \<notin> set (qs (Prio p))"
  shows "queues_rep T (enter (Some q) t qs) (sched_list_add_task_tail q t st)"
  unfolding enter_def using queues_rep_add_tail [OF assms(1,3,2,4)] assms(5) by simp

lemma moved_rep:
  assumes r: "queues_rep T qs st" and pt: "placed_at qs (tasks st t) t" and t: "t \<in> T" and l: "legal_change (tasks st t) new"
  shows "\<exists>st'. change_lists (change_table (state (tasks st t)) new) t (upd_task t (\<lambda>k. k\<lparr>state := new\<rparr>) st) = Some st'
    \<and> queues_rep T (moved (tasks st t) new t qs) st' \<and> tasks st' = (tasks st)(t := (tasks st t)\<lparr>state := new\<rparr>)
    \<and> same_rest st st'"
proof -
  let ?k = "tasks st t" and ?st = "upd_task t (\<lambda>k. k\<lparr>state := new\<rparr>) st"
  define n where "n = nat (prio ?k)"
  note pl = pt [unfolded placed_at_def]
  have r1: "queues_rep T qs ?st" using r by simp
  have n64: "n < 64" if "0 \<le> prio ?k" "prio ?k < 64" using that by (simp add: n_def nat_less_iff)
  have pq: "prio_queue t st' = Some (Prio n)" if "0 \<le> prio ?k" "prio ?k < 64" "tasks st' = tasks ?st" for st'
    using that by (simp add: prio_queue_def n_def)
  have pd: "queues_rep T (leave (Some q) t qs) (sched_list_del_task q t ?st)" if "valid_queue q" "t \<in> set (qs q)" for q
    unfolding leave_def using queues_rep_del [OF r1 that] by simp
  have ps: "queues_rep T (qs(System := qs System @ [t])) (sched_list_add_task_tail System t ?st)" if "t \<notin> set (qs System)"
    using queues_rep_add_tail [OF r1 _ t, of System] that by simp
  have dn: "t \<notin> set (remove1 t (qs q))" if "valid_queue q" for q
    using queues_rep_distinct [OF r that] by simp
  note defs = moved_def home_def prio_list_del_task_def prio_list_add_task_tail_def legal_change_def Let_def n_def [symmetric]
  show ?thesis
  proof (cases "state ?k")
    case PROCESS_STATE_PREPARE
    then have np: "0 \<le> prio ?k" "prio ?k < 64" "t \<in> set (qs (Prio n))" using pl by (auto simp: n_def)
    note q = pq [OF np(1,2)] n64 [OF np(1,2)]
    have d: "queues_rep T (leave (Some (Prio n)) t qs) (sched_list_del_task (Prio n) t ?st)" using pd q(2) np(3) by simp
    have "\<forall>p < 64. t \<notin> set (leave (Some (Prio n)) t qs (Prio p))" "t \<notin> set (leave (Some (Prio n)) t qs Sleep)"
      "t \<notin> set (leave (Some (Prio n)) t qs Idle)"
      using pl PROCESS_STATE_PREPARE dn [of "Prio n"] q(2) by (auto simp: leave_def n_def)
    note e = enter_rep [OF d t _ _ this(1)] this
    show ?thesis using l PROCESS_STATE_PREPARE q d e(1) [of Sleep] e(1) [of Idle] e(3,4)
      by (cases new) (auto simp: defs enter_def [of None])
  next
    case PROCESS_STATE_RUNNING
    then have o: "\<forall>p < 64. t \<notin> set (qs (Prio p))" "t \<notin> set (qs Sleep)" "t \<notin> set (qs Idle)" using pl by auto
    note e = enter_rep [OF r1 t _ _ o(1)]
    show ?thesis using l PROCESS_STATE_RUNNING pq n64 e [of Sleep] e [of Idle] e [of "Prio n"] o
      by (cases new) (auto simp: defs leave_def [of None])
  next
    case PROCESS_STATE_SLEEP
    then have d: "queues_rep T (leave (Some Sleep) t qs) (sched_list_del_task Sleep t ?st)" using pd pl by simp
    have o: "\<forall>p < 64. t \<notin> set (leave (Some Sleep) t qs (Prio p))" "t \<notin> set (leave (Some Sleep) t qs Idle)"
      using pl PROCESS_STATE_SLEEP by (auto simp: leave_def)
    note e = enter_rep [OF d t _ _ o(1)]
    show ?thesis using l PROCESS_STATE_SLEEP pq n64 d e [of Idle] e [of "Prio n"] o
      by (cases new) (auto simp: defs enter_def [of None])
  next
    case PROCESS_STATE_UNKNOWN
    let ?qs = "qs(System := qs System @ [t])"
    have o: "\<forall>p < 64. t \<notin> set (?qs (Prio p))" "t \<notin> set (?qs Sleep)" "t \<notin> set (qs System)"
      using pl PROCESS_STATE_UNKNOWN by auto
    note s = ps [OF o(3)]
    have e: "queues_rep T (enter (Some (Prio n)) t ?qs) (sched_list_add_task_tail (Prio n) t (sched_list_add_task_tail System t ?st))"
      if "n < 64" by (rule enter_rep [OF s t]) (use that o in auto)
    have z: "queues_rep T (?qs(Sleep := t # ?qs Sleep)) (sched_list_add_task Sleep t (sched_list_add_task_tail System t ?st))"
      by (rule queues_rep_add [OF s _ t o(2)]) simp_all
    show ?thesis using l PROCESS_STATE_UNKNOWN pq n64 e z
      by (cases new) (auto simp: defs)
  qed (use l in \<open>auto simp: legal_change_def\<close>)
qed

lemma set_task_state_step:
  assumes "sched_inv T qs st" "t \<in> T" "legal_change (tasks st t) new"
  shows "\<exists>st'. set_task_state t new st = Some st' \<and> sched_inv T (moved (tasks st t) new t qs) st'
    \<and> tasks st' = (tasks st)(t := (tasks st t)\<lparr>state := new\<rparr>) \<and> same_rest st st'"
proof -
  have r: "queues_rep T qs st" and p: "placed T qs (tasks st)" using assms(1) by (simp_all add: sched_inv_def)
  have "placed T (moved (tasks st t) new t qs) ((tasks st)(t := (tasks st t)\<lparr>state := new\<rparr>))"
    by (rule placed_moved [OF p assms(2,3) queues_rep_distinct [OF r]])
  moreover have "placed_at qs (tasks st t) t" using p assms(2) by (simp add: placed_def)
  moreover have "change_table (state (tasks st t)) new \<noteq> STATE_NONE_TO_NONE" using assms(3) by (simp add: legal_change_def)
  ultimately show ?thesis using moved_rep [OF r _ assms(2,3)]
    by (auto simp: set_task_state_def get_task_state_def Let_def sched_inv_def)
qed

lemma sched_inv_upd_task:
  assumes "sched_inv T qs st" "state (f (tasks st t)) = state (tasks st t)"
    and "prio (f (tasks st t)) = prio (tasks st t) \<or> state (tasks st t) \<noteq> PROCESS_STATE_PREPARE"
  shows "sched_inv T qs (upd_task t f st)"
  using assms by (auto simp: sched_inv_def placed_def placed_at_def)

section \<open>The next task\<close>

lemma short_queue:
  assumes "queues_rep T qs st" "valid_queue q"
  shows "list_count (sched_lists st q) = 0 \<longleftrightarrow> qs q = []"
proof -
  have "dlist (task_links st) (heads st q) (map (node q) (qs q))" using assms by (simp add: queues_rep_def)
  then have d: "distinct (heads st q # map (node q) (qs q))" by (rule klist.rep_distinct)
  have "card (set (heads st q # map (node q) (qs q))) \<le> CARD(u32)" by (rule card_mono) simp_all
  then have "length (qs q) < 2 ^ 32" using distinct_card [OF d] by (simp add: card_word)
  then have "(word_of_nat (length (qs q)) :: u32) = 0 \<longleftrightarrow> length (qs q) = 0"
    using nat_dvd_not_less [of "length (qs q)" "2 ^ 32"] by (auto simp: word_of_nat_eq_0_iff)
  then show ?thesis using assms by (simp add: queues_rep_def)
qed

text \<open>The task is the first of the run queue with the smallest number that has one.\<close>

definition ready :: "addr set \<Rightarrow> sched_state \<Rightarrow> addr set" where
  "ready T st = {t \<in> T. state (tasks st t) = PROCESS_STATE_PREPARE}"

definition best :: "addr set \<Rightarrow> sched_state \<Rightarrow> addr \<Rightarrow> bool" where
  "best T st t \<longleftrightarrow> t \<in> ready T st \<and> (\<forall>x \<in> ready T st. prio (tasks st t) \<le> prio (tasks st x))"

lemma ready_queue:
  assumes inv: "sched_inv T qs st" and t: "t \<in> T"
  shows "t \<in> ready T st \<Longrightarrow> \<exists>p < 64. t \<in> set (qs (Prio p)) \<and> prio (tasks st t) = int p"
    and "p < 64 \<Longrightarrow> t \<in> set (qs (Prio p)) \<Longrightarrow> t \<in> ready T st \<and> prio (tasks st t) = int p"
proof -
  note p = sched_inv_placed [OF inv t, unfolded placed_at_def]
  show "t \<in> ready T st \<and> prio (tasks st t) = int p" if "p < 64" "t \<in> set (qs (Prio p))"
    using p that t by (simp add: ready_def)
  assume r: "t \<in> ready T st"
  define n where "n = nat (prio (tasks st t))"
  have "n < 64" "prio (tasks st t) = int n" using p r by (auto simp: ready_def n_def)
  then show "\<exists>p < 64. t \<in> set (qs (Prio p)) \<and> prio (tasks st t) = int p" using p r by (auto simp: ready_def)
qed

lemma find_next_best:
  assumes inv: "sched_inv T qs st" and ex: "ready T st \<noteq> {}"
  shows "\<exists>t p. best T st t \<and> p < 64 \<and> prio (tasks st t) = int p \<and> qs (Prio p) \<noteq> [] \<and> hd (qs (Prio p)) = t
    \<and> find_next_run_task st = st\<lparr>next_run := t\<rparr>"
proof -
  have r: "queues_rep T qs st" using inv by (simp add: sched_inv_def)
  have c: "list_count (sched_lists st (Prio i)) \<noteq> 0 \<longleftrightarrow> qs (Prio i) \<noteq> []" if "i < 64" for i
    using short_queue [OF r, of "Prio i"] that by simp
  obtain x where x: "x \<in> ready T st" "x \<in> T" using ex by (auto simp: ready_def)
  have "\<exists>i < 64. qs (Prio i) \<noteq> []" using ready_queue(1) [OF inv x(2,1)] by force
  then have "List.find (\<lambda>i. list_count (sched_lists st (Prio i)) \<noteq> 0) [0..<64] \<noteq> None"
    using c by (auto simp: find_None_iff)
  then obtain p where f: "List.find (\<lambda>i. list_count (sched_lists st (Prio i)) \<noteq> 0) [0..<64] = Some p" by auto
  from find_Some_iff [THEN iffD1, OF f] obtain k where
    k: "k < 64" "p = [0..<64] ! k" "list_count (sched_lists st (Prio p)) \<noteq> 0"
      "\<forall>j < k. \<not> list_count (sched_lists st (Prio ([0..<64] ! j))) \<noteq> 0" by auto
  have p: "p < 64" "qs (Prio p) \<noteq> []" "\<forall>j < p. qs (Prio j) = []"
    using k c by (auto simp: nth_upt)
  then obtain t xs where q: "qs (Prio p) = t # xs" by (cases "qs (Prio p)") auto
  have "dlist (task_links st) (heads st (Prio p)) (map (node (Prio p)) (t # xs))"
    using r p(1) q unfolding queues_rep_def by (metis valid_queue.simps(1))
  then have "lnext (task_links st) (heads st (Prio p)) = node (Prio p) t" by (simp add: dlist_def)
  then have n: "find_next_run_task st = st\<lparr>next_run := t\<rparr>"
    by (simp add: find_next_run_task_def f heads_def node_def)
  have "t \<in> T" using queue_members [OF r, of "Prio p"] p(1) q by simp
  then have tp: "t \<in> ready T st" "prio (tasks st t) = int p" using ready_queue(2) [OF inv _ p(1), of t] q by simp_all
  have "prio (tasks st t) \<le> prio (tasks st x)" if rx: "x \<in> ready T st" for x
  proof -
    obtain j where j: "j < 64" "x \<in> set (qs (Prio j))" "prio (tasks st x) = int j"
      using rx ready_queue(1) [OF inv, of x] by (auto simp: ready_def)
    then have "\<not> j < p" using p(3) by auto
    then show ?thesis using j(3) tp(2) by simp
  qed
  then show ?thesis using tp p(1) q n by (auto simp: best_def)
qed

lemma find_next_none:
  assumes inv: "sched_inv T qs st" and no: "ready T st = {}"
  shows "find_next_run_task st = st"
proof -
  have r: "queues_rep T qs st" using inv by (simp add: sched_inv_def)
  have "qs (Prio i) = []" if "i < 64" for i
  proof (rule ccontr)
    assume "qs (Prio i) \<noteq> []"
    then obtain t where "t \<in> set (qs (Prio i))" by (cases "qs (Prio i)") auto
    moreover from this have "t \<in> T" using queue_members [OF r, of "Prio i"] that by auto
    ultimately have "t \<in> ready T st" using ready_queue(2) [OF inv _ that] by blast
    then show False using no by simp
  qed
  then have "List.find (\<lambda>i. list_count (sched_lists st (Prio i)) \<noteq> 0) [0..<64] = None"
    using short_queue [OF r] by (simp add: find_None_iff)
  then show ?thesis by (simp add: find_next_run_task_def)
qed

section \<open>The switch\<close>

text \<open>Only the current task can be running, and its priority is an index of the table.\<close>

definition current_ok :: "addr set \<Rightarrow> sched_state \<Rightarrow> bool" where
  "current_ok T st \<longleftrightarrow> current st \<in> T \<and> current st \<noteq> 0
     \<and> state (tasks st (current st)) \<notin> {PROCESS_STATE_PREPARE, PROCESS_STATE_UNKNOWN}
     \<and> (\<forall>t \<in> T. state (tasks st t) = PROCESS_STATE_RUNNING \<longrightarrow> t = current st)
     \<and> 0 \<le> prio (tasks st (current st)) \<and> prio (tasks st (current st)) < 64"

definition switched :: "addr set \<Rightarrow> sched_state \<Rightarrow> addr \<Rightarrow> sched_state \<Rightarrow> bool" where
  "switched T st n st' \<longleftrightarrow>
     (\<forall>t \<in> T. state (tasks st' t) = PROCESS_STATE_RUNNING \<longleftrightarrow> t = n)
     \<and> state (tasks st' (current st)) = (if state (tasks st (current st)) = PROCESS_STATE_RUNNING
          then PROCESS_STATE_PREPARE else state (tasks st (current st)))
     \<and> time_out (tasks st' n) = (if wait_time (tasks st n) = 0 then 1 else time_out (tasks st n))
     \<and> wait_time (tasks st' n) = - 1 \<and> prio (tasks st' n) = prio (tasks st n)
     \<and> (\<forall>t. t \<noteq> current st \<longrightarrow> t \<noteq> n \<longrightarrow> tasks st' t = tasks st t)"

lemma dec_prio_range:
  assumes "0 \<le> prio (tasks st t)" "prio (tasks st t) < 64"
  shows "0 \<le> prio (tasks (dec_prio t st) t) \<and> prio (tasks (dec_prio t st) t) < 64"
  using assms by (auto simp: dec_prio_def Let_def)

lemma requeue_current:
  assumes inv: "sched_inv T qs st" and c: "current_ok T st"
  defines "r \<equiv> if state (tasks st (current st)) = PROCESS_STATE_RUNNING
     then set_task_state (current st) PROCESS_STATE_PREPARE
            (if run_time (tasks st (current st)) = 0 \<or> \<not> in_interrupt st
             then get_task_run_time (current st) (dec_prio (current st) st) else st)
     else Some st"
  shows "\<exists>qs' st'. r = Some st' \<and> sched_inv T qs' st' \<and> same_rest st st'
    \<and> state (tasks st' (current st)) = (if state (tasks st (current st)) = PROCESS_STATE_RUNNING
          then PROCESS_STATE_PREPARE else state (tasks st (current st)))
    \<and> (\<forall>t. t \<noteq> current st \<longrightarrow> tasks st' t = tasks st t)"
proof (cases "state (tasks st (current st)) = PROCESS_STATE_RUNNING")
  case False
  then show ?thesis using inv unfolding r_def by auto
next
  case True
  let ?c = "current st"
  define st1 where "st1 = (if run_time (tasks st ?c) = 0 \<or> \<not> in_interrupt st
    then get_task_run_time ?c (dec_prio ?c st) else st)"
  have i: "sched_inv T qs (dec_prio ?c st)"
    unfolding dec_prio_def by (rule sched_inv_upd_task [OF inv]) (use True in \<open>auto simp: Let_def\<close>)
  have s: "state (tasks (dec_prio ?c st) ?c) = PROCESS_STATE_RUNNING" using True by (simp add: dec_prio_def Let_def)
  have "sched_inv T qs st1"
    unfolding st1_def get_task_run_time_def using inv sched_inv_upd_task [OF i] s by auto
  moreover have "legal_change (tasks st1 ?c) PROCESS_STATE_PREPARE"
    using True c dec_prio_range [of st ?c] s
    by (auto simp: legal_change_def st1_def get_task_run_time_def current_ok_def)
  moreover have "?c \<in> T" using c by (simp add: current_ok_def)
  ultimately obtain st2 where st2: "set_task_state ?c PROCESS_STATE_PREPARE st1 = Some st2"
    "sched_inv T (moved (tasks st1 ?c) PROCESS_STATE_PREPARE ?c qs) st2"
    "tasks st2 = (tasks st1)(?c := (tasks st1 ?c)\<lparr>state := PROCESS_STATE_PREPARE\<rparr>)" "same_rest st1 st2"
    using set_task_state_step by blast
  have rest: "same_rest st st1" "\<forall>t. t \<noteq> ?c \<longrightarrow> tasks st1 t = tasks st t"
    by (auto simp: st1_def get_task_run_time_def dec_prio_def)
  have "r = Some st2" using True st2(1) by (simp add: r_def st1_def)
  then show ?thesis using st2 rest True same_rest_trans by fastforce
qed

lemma prepare_to_switch_step:
  assumes inv: "sched_inv T qs st" and c: "current_ok T st" and n: "next_run st \<in> ready T st"
  shows "\<exists>qs' st'. prepare_to_switch st = Some (0, st') \<and> sched_inv T qs' st' \<and> switched T st (next_run st) st'
    \<and> same_rest st st'"
proof -
  let ?c = "current st" and ?n = "next_run st"
  have nc: "?n \<noteq> ?c" "?n \<in> T" "state (tasks st ?n) = PROCESS_STATE_PREPARE" using n c by (auto simp: ready_def current_ok_def)
  obtain qs1 st1 where s1: "(if state (tasks st ?c) = PROCESS_STATE_RUNNING
      then set_task_state ?c PROCESS_STATE_PREPARE
             (if run_time (tasks st ?c) = 0 \<or> \<not> in_interrupt st then get_task_run_time ?c (dec_prio ?c st) else st)
      else Some st) = Some st1"
    and i1: "sched_inv T qs1 st1" "same_rest st st1" and t1: "state (tasks st1 ?c) = (if state (tasks st ?c) = PROCESS_STATE_RUNNING
          then PROCESS_STATE_PREPARE else state (tasks st ?c))" "\<forall>t. t \<noteq> ?c \<longrightarrow> tasks st1 t = tasks st t"
    using requeue_current [OF inv c] by blast
  define st2 where "st2 = upd_task ?n (\<lambda>k. k\<lparr>wait_time := - 1\<rparr>)
    (upd_task ?n (\<lambda>k. if wait_time k = 0 then k\<lparr>time_out := 1\<rparr> else k) st1)"
  have i2: "sched_inv T qs1 st2"
    unfolding st2_def by (rule sched_inv_upd_task, rule sched_inv_upd_task [OF i1(1)]) auto
  have "legal_change (tasks st2 ?n) PROCESS_STATE_RUNNING"
    using nc t1(2) by (simp add: legal_change_def st2_def)
  from set_task_state_step [OF i2 nc(2) this] obtain st3 where st3:
    "set_task_state ?n PROCESS_STATE_RUNNING st2 = Some st3"
    "sched_inv T (moved (tasks st2 ?n) PROCESS_STATE_RUNNING ?n qs1) st3"
    "tasks st3 = (tasks st2)(?n := (tasks st2 ?n)\<lparr>state := PROCESS_STATE_RUNNING\<rparr>)" "same_rest st2 st3" by blast
  have nr: "next_run st1 = ?n" using i1(2) by (simp add: same_rest_def)
  have "prepare_to_switch st = Some (0, st3)"
    using c nc(1) s1 st3(1) by (simp add: prepare_to_switch_def current_ok_def get_task_state_def nr st2_def Let_def)
  moreover have "state (tasks st1 t) \<noteq> PROCESS_STATE_RUNNING" if "t \<in> T" for t
    using c t1 that by (cases "t = ?c") (auto simp: current_ok_def)
  then have "switched T st ?n st3"
    using c nc t1 unfolding switched_def st3(3) st2_def by (auto simp: current_ok_def)
  moreover have "same_rest st st3"
    using same_rest_trans [OF _ st3(4), of st] i1(2) unfolding st2_def by simp
  ultimately show ?thesis using st3(2) by blast
qed

section \<open>The tick\<close>

text \<open>What a tick does to a sleeping task.\<close>

definition ticked :: "task_struct \<Rightarrow> task_struct" where
  "ticked k =
     (let k = (if wait_time k > 0 then k\<lparr>wait_time := wait_time k - 1\<rparr> else k)
      in if wait_time k = 0 then k\<lparr>state := PROCESS_STATE_PREPARE\<rparr> else k)"

text \<open>Waking a task leaves the link of its sleep node in place, so the walk over the list goes on.\<close>

lemma wake_keeps_link:
  assumes inv: "sched_inv T qs st" and t: "t \<in> T" "state (tasks st t) = PROCESS_STATE_SLEEP"
    and w: "set_task_state t PROCESS_STATE_PREPARE st = Some st'"
  shows "lnext (task_links st') (node Sleep t) = lnext (task_links st) (node Sleep t)"
proof -
  let ?h = "task_links st" and ?x = "node Sleep t" and ?q = "Prio (nat (prio (tasks st t)))"
  let ?st = "upd_task t (\<lambda>k. k\<lparr>state := PROCESS_STATE_PREPARE\<rparr>) st"
  have r: "queues_rep T qs st" using inv by (simp add: sched_inv_def)
  have "prio_queue t (sched_list_del_task Sleep t ?st) \<noteq> None"
    using w t by (auto simp: set_task_state_def get_task_state_def prio_list_add_task_tail_def)
  then have vq: "valid_queue ?q" and pq: "prio_queue t (sched_list_del_task Sleep t ?st) = Some ?q"
    by (auto simp: prio_queue_def nat_less_iff split: if_splits)
  have links: "task_links st' = list_add_tail (list_del ?h ?x) (heads st ?q) (node ?q t)"
    using w t pq by (auto simp: set_task_state_def get_task_state_def prio_list_add_task_tail_def
        sched_list_add_task_tail_def sched_list_del_task_def upd_list_def heads_def)
  have sl: "t \<in> set (qs Sleep)" using sched_inv_placed [OF inv t(1)] t(2) by (simp add: placed_at_def)
  have d: "dlist ?h (heads st Sleep) (map (node Sleep) (qs Sleep))" "dlist ?h (heads st ?q) (map (node ?q) (qs ?q))"
    using r vq by (simp_all add: queues_rep_def)
  have apart: "set (heads st Sleep # map (node Sleep) (qs Sleep)) \<inter> set (heads st ?q # node ?q t # map (node ?q) (qs ?q)) = {}"
    by (rule queues_apart [OF r vq _ _ t(1)]) simp_all
  have x: "?x \<in> set (map (node Sleep) (qs Sleep))" using sl by simp
  have "lpre ?h ?x \<noteq> ?x"
  proof -
    obtain xs ys where xy: "map (node Sleep) (qs Sleep) = xs @ ?x # ys" using x by (meson split_list)
    then have "lpre ?h ?x = last (heads st Sleep # xs)" using d(1) seg_pre by (simp add: dlist_def seg_append)
    moreover have "?x \<notin> set (heads st Sleep # xs)" using d(1) xy by (auto simp: dlist_def)
    ultimately show ?thesis using last_in_set [of "heads st Sleep # xs"] by auto
  qed
  then have ln: "lnext (list_del ?h ?x) ?x = lnext ?h ?x" by (auto simp: list_del_def Let_def)
  have "dlist (list_del ?h ?x) (heads st ?q) (map (node ?q) (qs ?q))"
    by (rule klist.del_frame [OF d(1) x d(2)]) (use apart in auto)
  then have lp: "lpre (list_del ?h ?x) (heads st ?q) \<in> set (heads st ?q # map (node ?q) (qs ?q))"
    using dlist_links(2) by fastforce
  have "?x \<notin> set (heads st ?q # node ?q t # map (node ?q) (qs ?q))"
    using apart x unfolding disjoint_iff by (metis list.set_intros(2))
  then have "?x \<notin> set (heads st ?q # map (node ?q) (qs ?q))" "?x \<noteq> node ?q t" by simp_all
  then have "lpre (list_del ?h ?x) (heads st ?q) \<noteq> ?x" "node ?q t \<noteq> ?x" using lp by metis+
  then show ?thesis using ln unfolding links by (auto simp: list_add_tail_def Let_def)
qed

definition sleep_node :: "sched_state \<Rightarrow> addr list \<Rightarrow> addr" where
  "sleep_node st ts = (case ts of [] \<Rightarrow> heads st Sleep | t # _ \<Rightarrow> node Sleep t)"

lemma sleep_next:
  assumes "queues_rep T qs st" "qs Sleep = ks @ t # ts"
  shows "lnext (task_links st) (node Sleep t) = sleep_node st ts" "node Sleep t \<noteq> heads st Sleep"
proof -
  have "dlist (task_links st) (heads st Sleep) (map (node Sleep) (qs Sleep))" using assms(1) by (simp add: queues_rep_def)
  then have d: "dlist (task_links st) (heads st Sleep) (map (node Sleep) ks @ node Sleep t # map (node Sleep) ts)"
    using assms(2) by simp
  then show "lnext (task_links st) (node Sleep t) = sleep_node st ts"
    by (cases ts) (auto simp: dlist_def seg_append sleep_node_def)
  show "node Sleep t \<noteq> heads st Sleep" using d by (auto simp: dlist_def)
qed

lemma tick_loop_all:
  assumes "sched_inv T qs st" "qs Sleep = ks @ ts" "\<forall>t \<in> T. 0 \<le> prio (tasks st t) \<and> prio (tasks st t) < 64"
  shows "\<exists>qs' st'. tick_loop (sleep_node st ts) st = Some st' \<and> sched_inv T qs' st' \<and> same_rest st st'
    \<and> tasks st' = (\<lambda>t. if t \<in> set ts then ticked (tasks st t) else tasks st t)"
  using assms
proof (induction ts arbitrary: ks qs st)
  case Nil
  then show ?case by (subst tick_loop.simps) (auto simp: sleep_node_def heads_def)
next
  case (Cons t ts)
  have r: "queues_rep T qs st" using Cons.prems(1) by (simp add: sched_inv_def)
  have "t \<in> T" using queue_members [OF r, of Sleep] Cons.prems(2) by simp
  note tT = this
  have sl: "state (tasks st t) = PROCESS_STATE_SLEEP"
    using sched_inv_placed [OF Cons.prems(1) tT] Cons.prems(2) by (simp add: placed_at_def)
  have dis: "distinct (ks @ t # ts)" using queues_rep_distinct [OF r, of Sleep] Cons.prems(2) by simp
  note nx = sleep_next [OF r Cons.prems(2)]
  define st1 where "st1 = upd_task t (\<lambda>k. if wait_time k > 0 then k\<lparr>wait_time := wait_time k - 1\<rparr> else k) st"
  have i1: "sched_inv T qs st1" unfolding st1_def by (rule sched_inv_upd_task [OF Cons.prems(1)]) auto
  have sl1: "state (tasks st1 t) = PROCESS_STATE_SLEEP" using sl by (simp add: st1_def)
  have pr1: "\<forall>t \<in> T. 0 \<le> prio (tasks st1 t) \<and> prio (tasks st1 t) < 64" using Cons.prems(3) by (simp add: st1_def)
  have step: "tick_loop (sleep_node st (t # ts)) st = Option.bind
      (if wait_time (tasks st1 t) = 0 then set_task_state t PROCESS_STATE_PREPARE st1 else Some st1)
      (\<lambda>st'. tick_loop (lnext (task_links st') (node Sleep t)) st')"
    using nx(2) by (subst tick_loop.simps) (simp add: sleep_node_def heads_def node_def st1_def Let_def)
  have tk: "tasks st1 = (tasks st)(t := (if wait_time (tasks st t) > 0
      then (tasks st t)\<lparr>wait_time := wait_time (tasks st t) - 1\<rparr> else tasks st t))" by (simp add: st1_def)
  show ?case
  proof (cases "wait_time (tasks st1 t) = 0")
    case True
    have "legal_change (tasks st1 t) PROCESS_STATE_PREPARE" using sl1 pr1 tT by (simp add: legal_change_def)
    from set_task_state_step [OF i1 tT this] obtain st2 where st2:
      "set_task_state t PROCESS_STATE_PREPARE st1 = Some st2" "sched_inv T (moved (tasks st1 t) PROCESS_STATE_PREPARE t qs) st2"
      "tasks st2 = (tasks st1)(t := (tasks st1 t)\<lparr>state := PROCESS_STATE_PREPARE\<rparr>)" "same_rest st1 st2" by blast
    have "moved (tasks st1 t) PROCESS_STATE_PREPARE t qs Sleep = ks @ ts"
      using sl1 dis Cons.prems(2) by (simp add: moved_def home_def leave_def enter_def remove1_append)
    moreover have "\<forall>t \<in> T. 0 \<le> prio (tasks st2 t) \<and> prio (tasks st2 t) < 64" using pr1 st2(3) by simp
    ultimately obtain qs' st' where ih: "tick_loop (sleep_node st2 ts) st2 = Some st'" "sched_inv T qs' st'" "same_rest st2 st'"
      "tasks st' = (\<lambda>x. if x \<in> set ts then ticked (tasks st2 x) else tasks st2 x)"
      using Cons.IH [OF st2(2)] by blast
    have "heads st2 = heads st" using st2(4) by (simp add: same_rest_def st1_def)
    then have "lnext (task_links st2) (node Sleep t) = sleep_node st2 ts"
      using wake_keeps_link [OF i1 tT sl1 st2(1)] nx(1) by (simp add: st1_def sleep_node_def split: list.split)
    then have "tick_loop (sleep_node st (t # ts)) st = Some st'" using step True st2(1) ih(1) by simp
    moreover have "tasks st' = (\<lambda>x. if x \<in> set (t # ts) then ticked (tasks st x) else tasks st x)"
      using True dis unfolding ih(4) st2(3) tk by (auto simp: ticked_def Let_def fun_eq_iff)
    moreover have "same_rest st st'" using same_rest_trans [OF st2(4) ih(3)] by (simp add: st1_def same_rest_def)
    ultimately show ?thesis using ih(2) by blast
  next
    case False
    obtain qs' st' where ih: "tick_loop (sleep_node st1 ts) st1 = Some st'" "sched_inv T qs' st'" "same_rest st1 st'"
      "tasks st' = (\<lambda>x. if x \<in> set ts then ticked (tasks st1 x) else tasks st1 x)"
      using Cons.IH [OF i1, of "ks @ [t]"] Cons.prems(2) pr1 by auto
    have "lnext (task_links st1) (node Sleep t) = sleep_node st1 ts" using nx(1) by (simp add: st1_def sleep_node_def split: list.split)
    then have "tick_loop (sleep_node st (t # ts)) st = Some st'" using step False ih(1) by simp
    moreover have "tasks st' = (\<lambda>x. if x \<in> set (t # ts) then ticked (tasks st x) else tasks st x)"
      using False dis unfolding ih(4) tk by (auto simp: ticked_def Let_def fun_eq_iff)
    moreover have "same_rest st st'" using ih(3) by (simp add: st1_def same_rest_def)
    ultimately show ?thesis using ih(2) by blast
  qed
qed

lemma ready_next_run [simp]: "ready T (st\<lparr>next_run := n\<rparr>) = ready T st"
  by (simp add: ready_def)

lemma heads_next_run [simp]: "heads (st\<lparr>next_run := n\<rparr>) = heads st" "heads (st\<lparr>current := n\<rparr>) = heads st"
  by (simp_all add: heads_def fun_eq_iff)

lemma sched_inv_next_run [simp]:
  "sched_inv T qs (st\<lparr>next_run := n\<rparr>) = sched_inv T qs st" "sched_inv T qs (st\<lparr>current := n\<rparr>) = sched_inv T qs st"
  by (simp_all add: sched_inv_def queues_rep_def)

lemma sched_step:
  assumes inv: "sched_inv T qs st" and c: "current_ok T st" and f: "schedule_running st" "\<not> in_interrupt st"
    and ex: "ready T st \<noteq> {}"
  shows "\<exists>n qs' st'. sched st = Some st' \<and> best T st n \<and> current st' = n \<and> sched_inv T qs' st' \<and> switched T st n st'"
proof -
  obtain n where n: "best T st n" "find_next_run_task st = st\<lparr>next_run := n\<rparr>" using find_next_best [OF inv ex] by blast
  let ?st = "st\<lparr>next_run := n\<rparr>"
  have "next_run ?st \<in> ready T ?st" using n(1) by (simp add: best_def)
  moreover have "sched_inv T qs ?st" "current_ok T ?st" using inv c by (simp_all add: current_ok_def)
  ultimately obtain qs' st' where s: "prepare_to_switch ?st = Some (0, st')" "sched_inv T qs' st'"
    "switched T ?st (next_run ?st) st'" "same_rest ?st st'" using prepare_to_switch_step by blast
  have "sched st = Some (st'\<lparr>current := n\<rparr>)"
    using f s(1,4) n(2) by (simp add: sched_def same_rest_def)
  moreover have "switched T st n (st'\<lparr>current := n\<rparr>)" using s(3) by (simp add: switched_def)
  ultimately show ?thesis using n(1) s(2) by (intro exI [of _ n] exI [of _ qs'] exI [of _ "st'\<lparr>current := n\<rparr>"]) simp
qed

section \<open>A concrete system\<close>

text \<open>Two tasks; the second is ready with the default priority.\<close>

fun base_heads :: "queue \<Rightarrow> addr" where
  "base_heads (Prio p) = 0x1000 + 12 * word_of_nat p"
| "base_heads System = 0x2000"
| "base_heads Idle = 0x2010"
| "base_heads Sleep = 0x2020"

definition task_a :: addr where "task_a = 0x100000"
definition task_b :: addr where "task_b = 0x200000"

definition plain_task :: "state_t \<Rightarrow> int \<Rightarrow> task_struct" where
  "plain_task s w = \<lparr>pid = 2, state = s, run_time = 49, wait_time = w, time_out = 0, run_count = 0, prio = 20, pre_prio = 20\<rparr>"

definition no_tasks :: "(addr \<Rightarrow> task_struct) \<Rightarrow> sched_state" where
  "no_tasks ts = \<lparr>tasks = ts, task_links = \<lparr>lnext = (\<lambda>a. a), lpre = (\<lambda>a. a)\<rparr>,
     sched_lists = (\<lambda>q. \<lparr>list_at = base_heads q, list_count = 0\<rparr>), current = task_a, idle = 0, next_run = task_a,
     schedule_running = True, in_interrupt = False,
     pids = \<lparr>nr_free = 1024, pid_current = 0, pid_nr = 1024, pid_addr = replicate 1024 0\<rparr>, sched_mm = small_bank\<rparr>"

definition two_tasks :: "queue \<Rightarrow> task_struct \<Rightarrow> sched_state" where
  "two_tasks q k = sched_list_add_task_tail q task_b (sched_list_add_task_tail System task_b
     (sched_list_add_task_tail System task_a (no_tasks ((\<lambda>_. plain_task PROCESS_STATE_RUNNING (-1))(task_b := k)))))"

lemma uint_head: "p < 64 \<Longrightarrow> uint (base_heads (Prio p)) = 0x1000 + 12 * int p"
proof -
  assume "p < 64"
  have "base_heads (Prio p) = word_of_int (0x1000 + 12 * int p)" by simp
  then show ?thesis using \<open>p < 64\<close> by (simp only:) (rule uint_word_of_int_u32, auto)
qed

lemma base_heads_inj:
  assumes "valid_queue q" "valid_queue q'" "base_heads q = base_heads q'"
  shows "q = q'"
proof -
  have "uint (base_heads q) = uint (base_heads q')" using assms(3) by simp
  then show ?thesis using assms(1,2) by (cases q; cases q') (auto simp: uint_head simp del: base_heads.simps(1))
qed

lemma base_heads_low: "valid_queue q \<Longrightarrow> uint (base_heads q) < 0x10000"
  by (cases q) (auto simp: uint_head simp del: base_heads.simps(1))

lemma node_two: "uint (node q task_a) \<in> {0x100408, 0x100410, 0x100418, 0x100420}"
  "uint (node q task_b) \<in> {0x200408, 0x200410, 0x200418, 0x200420}"
  by (cases q; simp add: node_def task_a_def task_b_def)+

lemma two_layout: "layout_ok {task_a, task_b} base_heads"
proof -
  have "node q t \<noteq> base_heads q'" if "t \<in> {task_a, task_b}" "valid_queue q'" for q q' t
    using node_two [of q] base_heads_low [OF that(2)] that(1) by auto
  moreover have "t = t' \<and> node_offset q = node_offset q'" if "t \<in> {task_a, task_b}" "t' \<in> {task_a, task_b}" "node q t = node q' t'" for q q' t t'
    using that by (cases q; cases q') (auto simp: node_def task_a_def task_b_def)
  ultimately show ?thesis using base_heads_inj unfolding layout_ok_def by blast
qed

lemma two_tasks_inv:
  assumes q: "valid_queue q" "home k = Some q" and s: "state k \<in> {PROCESS_STATE_PREPARE, PROCESS_STATE_SLEEP}"
    and p: "0 \<le> prio k" "prio k < 64"
  shows "sched_inv {task_a, task_b} ((\<lambda>_. [])(System := [task_a, task_b], q := [task_b])) (two_tasks q k)"
    "tasks (two_tasks q k) = (\<lambda>_. plain_task PROCESS_STATE_RUNNING (-1))(task_b := k)"
    "current (two_tasks q k) = task_a" "in_interrupt (two_tasks q k) = False" "schedule_running (two_tasks q k)"
proof -
  let ?T = "{task_a, task_b}" and ?st = "no_tasks ((\<lambda>_. plain_task PROCESS_STATE_RUNNING (-1))(task_b := k))"
  have ab: "task_a \<noteq> task_b" by (simp add: task_a_def task_b_def)
  have qS: "q \<noteq> System" using q(2) by (auto simp: home_def split: state_t.splits)
  have "heads ?st = base_heads" by (simp add: heads_def no_tasks_def fun_eq_iff)
  then have "queues_rep ?T (\<lambda>_. []) ?st"
    using two_layout by (simp add: queues_rep_def) (simp add: no_tasks_def dlist_def)
  then have "queues_rep ?T ((\<lambda>_. [])(System := [task_a])) (sched_list_add_task_tail System task_a ?st)"
    using queues_rep_add_tail [of ?T "\<lambda>_. []" ?st System task_a] by simp
  then have "queues_rep ?T ((\<lambda>_. [])(System := [task_a, task_b]))
      (sched_list_add_task_tail System task_b (sched_list_add_task_tail System task_a ?st))"
    using queues_rep_add_tail [of ?T "(\<lambda>_. [])(System := [task_a])" _ System task_b] ab by (simp del: fun_upd_apply) simp
  then have r: "queues_rep ?T ((\<lambda>_. [])(System := [task_a, task_b], q := [task_b])) (two_tasks q k)"
    unfolding two_tasks_def
    using queues_rep_add_tail [of ?T "(\<lambda>_. [])(System := [task_a, task_b])" _ q task_b] qS q(1) by auto
  show tk: "tasks (two_tasks q k) = (\<lambda>_. plain_task PROCESS_STATE_RUNNING (-1))(task_b := k)"
    by (simp add: two_tasks_def no_tasks_def)
  have "placed ?T ((\<lambda>_. [])(System := [task_a, task_b], q := [task_b])) (tasks (two_tasks q k))"
    using s q p ab unfolding tk placed_def by (auto simp: placed_at_def plain_task_def home_def split: state_t.splits)
  then show "sched_inv ?T ((\<lambda>_. [])(System := [task_a, task_b], q := [task_b])) (two_tasks q k)"
    using r by (simp add: sched_inv_def)
  have "same_rest ?st (two_tasks q k)" by (simp add: two_tasks_def)
  then show "current (two_tasks q k) = task_a" "in_interrupt (two_tasks q k) = False" "schedule_running (two_tasks q k)"
    by (simp_all add: same_rest_def no_tasks_def)
qed

section \<open>Properties\<close>

text \<open>
  C18.  \<open>set_task_state\<close> implements the state machine of Documents/sched.txt: for every
  change of state the table allows, except the step back to the unknown state, the task
  leaves the list of its old state and is appended to the list of the new one, a new task
  also joins the list of all tasks, and afterwards every task is again on the list of all
  tasks and on the list of its state only, with correct links and counts.
\<close>

theorem set_task_state_moves:
  assumes "sched_inv T qs st" "t \<in> T" "legal_change (tasks st t) new"
  shows "\<exists>st'. set_task_state t new st = Some st' \<and> sched_inv T (moved (tasks st t) new t qs) st'
    \<and> tasks st' = (tasks st)(t := (tasks st t)\<lparr>state := new\<rparr>) \<and> same_rest st st'"
  by (rule set_task_state_step [OF assms])

theorem set_task_state_moves_witness:
  "\<exists>st'. set_task_state task_b PROCESS_STATE_SLEEP (two_tasks (Prio 20) (plain_task PROCESS_STATE_PREPARE (-1))) = Some st'
     \<and> sched_inv {task_a, task_b} ((\<lambda>_. [])(System := [task_a, task_b], Prio 20 := [], Sleep := [task_b])) st'"
proof -
  let ?k = "plain_task PROCESS_STATE_PREPARE (-1)" and ?qs = "(\<lambda>_. [])(System := [task_a, task_b], Prio 20 := [task_b])"
  note i = two_tasks_inv [of "Prio 20" ?k]
  have "moved ?k PROCESS_STATE_SLEEP task_b ?qs = (\<lambda>_. [])(System := [task_a, task_b], Prio 20 := [], Sleep := [task_b])"
    by (simp add: moved_def home_def plain_task_def enter_def leave_def)
  then show ?thesis
    using set_task_state_moves [OF i(1), of task_b PROCESS_STATE_SLEEP] i(2)
    by (auto simp: plain_task_def home_def legal_change_def)
qed





text \<open>The walk over the sleep list, as the tick handler makes it, several times.\<close>

fun sleep_ticks :: "nat \<Rightarrow> sched_state \<Rightarrow> sched_state option" where
  "sleep_ticks 0 st = Some st"
| "sleep_ticks (Suc n) st =
     Option.bind (tick_loop (lnext (task_links st) (list_at (sched_lists st Sleep))) st) (sleep_ticks n)"

lemma first_sleep_node:
  assumes "sched_inv T qs st"
  shows "lnext (task_links st) (list_at (sched_lists st Sleep)) = sleep_node st (qs Sleep)"
proof -
  have "dlist (task_links st) (heads st Sleep) (map (node Sleep) (qs Sleep))"
    using assms by (simp add: sched_inv_def queues_rep_def)
  then show ?thesis by (cases "qs Sleep") (auto simp: sleep_node_def dlist_def heads_def)
qed

lemma sleep_ticks_all:
  assumes "sched_inv T qs st" "\<forall>t \<in> T. 0 \<le> prio (tasks st t) \<and> prio (tasks st t) < 64"
    and "t \<in> T" "state (tasks st t) = PROCESS_STATE_SLEEP" "int n \<le> wait_time (tasks st t)" "0 < wait_time (tasks st t)"
  shows "\<exists>qs' st'. sleep_ticks n st = Some st' \<and> sched_inv T qs' st' \<and> wait_time (tasks st' t) = wait_time (tasks st t) - int n
    \<and> state (tasks st' t) = (if int n = wait_time (tasks st t) then PROCESS_STATE_PREPARE else PROCESS_STATE_SLEEP)"
  using assms
proof (induction n arbitrary: qs st)
  case 0
  then show ?case by auto
next
  case (Suc n)
  obtain qs1 st1 where l: "tick_loop (sleep_node st (qs Sleep)) st = Some st1" "sched_inv T qs1 st1"
    "tasks st1 = (\<lambda>t. if t \<in> set (qs Sleep) then ticked (tasks st t) else tasks st t)"
    using tick_loop_all [OF Suc.prems(1), of "[]"] Suc.prems(2) by auto
  have tq: "t \<in> set (qs Sleep)" using sched_inv_placed [OF Suc.prems(1,3)] Suc.prems(4) by (simp add: placed_at_def)
  have pr: "\<forall>x \<in> T. 0 \<le> prio (tasks st1 x) \<and> prio (tasks st1 x) < 64"
    using Suc.prems(2) unfolding l(3) by (auto simp: ticked_def Let_def)
  have step: "sleep_ticks (Suc n) st = sleep_ticks n st1" using l(1) first_sleep_node [OF Suc.prems(1)] by simp
  have w1: "wait_time (tasks st1 t) = wait_time (tasks st t) - 1"
    using tq Suc.prems(6) unfolding l(3) by (auto simp: ticked_def Let_def)
  show ?case
  proof (cases "wait_time (tasks st t) = 1")
    case True
    then have "n = 0" using Suc.prems(5) by simp
    moreover have "state (tasks st1 t) = PROCESS_STATE_PREPARE" using tq True unfolding l(3) by (simp add: ticked_def Let_def)
    ultimately show ?thesis using step l(2) w1 True by auto
  next
    case False
    then have "state (tasks st1 t) = PROCESS_STATE_SLEEP" using tq Suc.prems(4,6) unfolding l(3) by (auto simp: ticked_def Let_def)
    then obtain qs' st' where "sleep_ticks n st1 = Some st'" "sched_inv T qs' st'"
      "wait_time (tasks st' t) = wait_time (tasks st1 t) - int n"
      "state (tasks st' t) = (if int n = wait_time (tasks st1 t) then PROCESS_STATE_PREPARE else PROCESS_STATE_SLEEP)"
      using Suc.IH [OF l(2) pr Suc.prems(3)] Suc.prems(5,6) False w1 by auto
    then show ?thesis using step w1 by auto
  qed
qed



text \<open>The identifiers from \<open>pid_current\<close> on have never been used.\<close>

definition pids_ok :: "pid_map \<Rightarrow> bool" where
  "pids_ok m \<longleftrightarrow> pid_nr m = int (length (pid_addr m)) \<and> 0 \<le> pid_current m \<and> 0 \<le> nr_free m
     \<and> nr_free m + pid_current m = pid_nr m
     \<and> (\<forall>i. nat (pid_current m) \<le> i \<longrightarrow> i < length (pid_addr m) \<longrightarrow> pid_addr m ! i = 0)"

lemma pids_ok_clear:
  assumes "pids_ok m"
  shows "pids_ok (m\<lparr>pid_addr := (pid_addr m)[i := 0]\<rparr>)"
proof (cases "i < length (pid_addr m)")
  case True
  then show ?thesis using assms by (simp add: pids_ok_def nth_list_update)
next
  case False
  then show ?thesis using assms by (simp add: pids_ok_def)
qed

lemma pids_ok_take:
  assumes "pids_ok m" "nr_free m \<noteq> 0"
  shows "pids_ok (m\<lparr>nr_free := nr_free m - 1, pid_current := pid_current m + 1,
    pid_addr := (pid_addr m)[nat (pid_current m) := t]\<rparr>)"
  using assms by (auto simp: pids_ok_def nth_list_update)

text \<open>
  C32.  Process identifiers are handed out in increasing order and looked up correctly: a new
  task gets the first identifier that was never used, and \<open>pid_get_task\<close> finds it under
  that identifier.  But an identifier is never used again: \<open>release_pid\<close> does not raise
  the number of free ones, so that after as many creations as the table has entries every
  further one fails, however many tasks have ended.
\<close>

theorem get_new_pid_increases:
  assumes "pids_ok (pids st)"
  shows "if nr_free (pids st) = 0 then get_new_pid t st = Some (- 1, st)
    else \<exists>st'. get_new_pid t st = Some (pid_current (pids st), st') \<and> pids_ok (pids st')
       \<and> pid_get_task (pid_current (pids st)) st' = Some t
       \<and> pid_current (pids st') = pid_current (pids st) + 1 \<and> nr_free (pids st') = nr_free (pids st) - 1
       \<and> (\<forall>u st2. release_pid u st' = Some (0, st2) \<longrightarrow>
            pids_ok (pids st2) \<and> nr_free (pids st2) = nr_free (pids st') \<and> pid_current (pids st2) = pid_current (pids st'))"
proof (cases "nr_free (pids st) = 0")
  case True
  then show ?thesis by (simp add: get_new_pid_def Let_def)
next
  case False
  let ?m = "pids st" and ?i = "pid_current (pids st)"
  have lt: "?i < pid_nr ?m" "nat ?i < length (pid_addr ?m)" "0 \<le> ?i" using assms False by (auto simp: pids_ok_def)
  then have "pid_addr ?m ! nat ?i = 0" using assms by (simp add: pids_ok_def)
  then have "pid_loop (pid_addr ?m) (pid_nr ?m) ?i = Some (Some ?i)" using lt by (subst pid_loop.simps) simp
  then have g: "get_new_pid t st = Some (?i, st\<lparr>pids := ?m\<lparr>nr_free := nr_free ?m - 1, pid_current := ?i + 1,
      pid_addr := (pid_addr ?m)[nat ?i := t]\<rparr>\<rparr>)" (is "_ = Some (_, ?st)")
    using False by (simp add: get_new_pid_def Let_def)
  have ok: "pids_ok (pids ?st)" using pids_ok_take [OF assms False] by simp
  have "pids_ok (pids st2) \<and> nr_free (pids st2) = nr_free (pids ?st) \<and> pid_current (pids st2) = pid_current (pids ?st)"
    if "release_pid u ?st = Some (0, st2)" for u st2
  proof -
    have "st2 = ?st\<lparr>pids := (pids ?st)\<lparr>pid_addr := (pid_addr (pids ?st))[nat (pid (tasks ?st u)) := 0]\<rparr>\<rparr>"
      using that by (auto simp: release_pid_def Let_def split: if_splits)
    then show ?thesis using pids_ok_clear [OF ok] by simp
  qed
  moreover have "pid_get_task ?i ?st = Some t" using lt by (simp add: pid_get_task_def)
  moreover have "pid_current (pids ?st) = ?i + 1" "nr_free (pids ?st) = nr_free ?m - 1" by simp_all
  ultimately show ?thesis unfolding if_not_P [OF False] using g ok by blast
qed

theorem get_new_pid_increases_witness:
  "\<exists>st'. get_new_pid task_b (no_tasks (\<lambda>_. plain_task PROCESS_STATE_UNKNOWN 0)) = Some (0, st') \<and> pid_get_task 0 st' = Some task_b"
proof -
  let ?st = "no_tasks (\<lambda>_. plain_task PROCESS_STATE_UNKNOWN 0)"
  have "pids_ok (pids ?st)" by (simp add: pids_ok_def no_tasks_def)
  then show ?thesis using get_new_pid_increases [of ?st task_b] by (auto simp: no_tasks_def)
qed

text \<open>
  C38.  Changing the priority of a ready task corrupts the list of all tasks: the step back to
  the unknown state does not take the task off that list, and the step to the ready state
  adds it once more.  No assignment of tasks to lists agrees with the lists afterwards.
\<close>

theorem set_task_prio_corrupts:
  assumes "sched_inv T qs st" "t \<in> T" "state (tasks st t) = PROCESS_STATE_PREPARE" "0 \<le> p" "p < 64" "finite T"
    and "length (qs System) < 2 ^ 32 - 1"
  shows "\<exists>st'. set_task_prio t p st = Some (0, st')
    \<and> list_count (sched_lists st' System) = word_of_nat (length (qs System)) + 1 \<and> (\<forall>qs'. \<not> sched_inv T qs' st')"
proof -
  have r: "queues_rep T qs st" using assms(1) by (simp add: sched_inv_def)
  have pr: "0 \<le> prio (tasks st t)" "prio (tasks st t) < 64"
    using sched_inv_placed [OF assms(1,2)] assms(3) by (simp_all add: placed_at_def)
  define st1 where "st1 = sched_list_del_task (Prio (nat (prio (tasks st t)))) t (upd_task t (\<lambda>k. k\<lparr>state := PROCESS_STATE_UNKNOWN\<rparr>) st)"
  have s1: "set_task_state t PROCESS_STATE_UNKNOWN st = Some st1"
    using assms(3) pr by (simp add: set_task_state_def get_task_state_def prio_list_del_task_def prio_queue_def st1_def)
  define st2 where "st2 = upd_task t (\<lambda>k. k\<lparr>state := PROCESS_STATE_PREPARE\<rparr>) (upd_task t (\<lambda>k. k\<lparr>pre_prio := prio k, prio := p\<rparr>) st1)"
  define st3 where "st3 = sched_list_add_task_tail (Prio (nat p)) t (sched_list_add_task_tail System t st2)"
  have "set_task_state t PROCESS_STATE_PREPARE (upd_task t (\<lambda>k. k\<lparr>pre_prio := prio k, prio := p\<rparr>) st1) = Some st3"
    using assms(4,5) by (simp add: set_task_state_def get_task_state_def prio_list_add_task_tail_def prio_queue_def
        st1_def st2_def st3_def)
  then have g: "set_task_prio t p st = Some (0, st3)"
    using assms(3,5) s1 by (simp add: set_task_prio_def get_task_state_def)
  have c: "list_count (sched_lists st3 System) = word_of_nat (length (qs System)) + 1"
    using r by (simp add: st3_def st2_def st1_def sched_list_add_task_tail_def sched_list_del_task_def queues_rep_def)
  have ts: "state (tasks st3 x) \<noteq> PROCESS_STATE_UNKNOWN \<longleftrightarrow> state (tasks st x) \<noteq> PROCESS_STATE_UNKNOWN" for x
    using assms(3) by (simp add: st3_def st2_def st1_def)
  have "\<not> sched_inv T qs' st3" for qs'
  proof
    assume i: "sched_inv T qs' st3"
    then have r': "queues_rep T qs' st3" by (simp add: sched_inv_def)
    have "x \<in> set (qs' System) \<longleftrightarrow> x \<in> set (qs System)" for x
      using sched_inv_placed [OF i, of x] sched_inv_placed [OF assms(1), of x] ts [of x]
        queue_members [OF r', of System] queue_members [OF r, of System] by (auto simp: placed_at_def)
    then have "length (qs' System) = length (qs System)"
      using queues_rep_distinct [OF r', of System] queues_rep_distinct [OF r, of System]
      by (metis distinct_card set_eqI valid_queue.simps(2))
    then have "(word_of_nat (length (qs System)) :: u32) = word_of_nat (length (qs System)) + 1"
      using c r' by (simp add: queues_rep_def)
    then show False by simp
  qed
  then show ?thesis using g c by blast
qed

theorem set_task_prio_corrupts_witness:
  "\<exists>st'. set_task_prio task_b 5 (two_tasks (Prio 20) (plain_task PROCESS_STATE_PREPARE (-1))) = Some (0, st')
     \<and> list_count (sched_lists st' System) = 3 \<and> (\<forall>qs'. \<not> sched_inv {task_a, task_b} qs' st')"
proof -
  let ?k = "plain_task PROCESS_STATE_PREPARE (-1)"
  have k: "valid_queue (Prio 20)" "home ?k = Some (Prio 20)" "state ?k \<in> {PROCESS_STATE_PREPARE, PROCESS_STATE_SLEEP}"
    "0 \<le> prio ?k" "prio ?k < 64" by (simp_all add: plain_task_def home_def)
  note j = two_tasks_inv [OF k]
  show ?thesis using set_task_prio_corrupts [OF j(1), of task_b 5] unfolding j(2) by (auto simp: plain_task_def)
qed

end
