(* ===== verification/Mutex.thy ===== *)
theory Mutex
  imports Sched
begin

text \<open>
  kernel/mutex.c: sleeping locks on top of the scheduler.  A mutex is its address: the
  \<open>count\<close> of every mutex is in one store, and the list heads \<open>wait\<close> and \<open>task\<close> embedded in
  \<open>struct mutex\<close> are nodes of the link memory at their offsets.

  A task that has to wait is suspended inside \<open>mutex_lock_timeout\<close>.  The model cuts the call
  there: \<open>mutex_lock_timeout\<close> is the part up to the switch to another task,
  \<open>mutex_resume\<close> the part from the return of \<open>suspend_task_timeout\<close>, when the task is the
  current one again.
\<close>

section \<open>Model\<close>

record mutex_state =
  mutex_count :: "addr \<Rightarrow> int"
  msched :: sched_state

definition mutex_wait :: "addr \<Rightarrow> addr" where "mutex_wait m = m + 4"
definition mutex_task :: "addr \<Rightarrow> addr" where "mutex_task m = m + 12"
definition wait_node :: "addr \<Rightarrow> addr" where "wait_node t = t + WAIT_OFFSET"
definition mutex_get :: "addr \<Rightarrow> addr" where "mutex_get t = t + MUTEX_GET_OFFSET"

definition upd_links :: "(list_heap \<Rightarrow> list_heap) \<Rightarrow> mutex_state \<Rightarrow> mutex_state" where
  "upd_links f st = st\<lparr>msched := (msched st)\<lparr>task_links := f (task_links (msched st))\<rparr>\<rparr>"

abbreviation mlinks :: "mutex_state \<Rightarrow> list_heap" where "mlinks st \<equiv> task_links (msched st)"

definition init_mutex :: "addr \<Rightarrow> mutex_state \<Rightarrow> mutex_state" where
  "init_mutex m st =
     upd_links (\<lambda>h. init_list (init_list h (mutex_wait m)) (mutex_task m))
       (st\<lparr>mutex_count := (mutex_count st)(m := 0)\<rparr>)"

datatype lock_result = Returned int | Suspended

text \<open>The loop of \<open>mutex_lock_timeout\<close> from the head of the loop to the next switch.\<close>

partial_function (option) lock_loop ::
    "addr \<Rightarrow> int \<Rightarrow> addr \<Rightarrow> mutex_state \<Rightarrow> (lock_result \<times> mutex_state) option" where
  "lock_loop m ms t st =
     (if mutex_count st m \<noteq> 0 then
        let st = upd_links (\<lambda>h. list_add_tail h (mutex_wait m) (wait_node t)) st in
        Option.bind (suspend_task_timeout t ms (msched st)) (\<lambda>(r, s).
          let st = st\<lparr>msched := s\<rparr> in
          case r of
            None \<Rightarrow> Some (Suspended, st)
          | Some timeout \<Rightarrow>
              if timeout \<noteq> 0 then Some (Returned (- ETIMEDOUT), upd_links (\<lambda>h. list_del h (wait_node t)) st)
              else lock_loop m ms t st)
      else
        Some (Returned 0, upd_links (\<lambda>h. list_add_tail h (mutex_get t) (mutex_task m))
                            (st\<lparr>mutex_count := (mutex_count st)(m := 1)\<rparr>)))"

definition mutex_lock_timeout :: "addr \<Rightarrow> int \<Rightarrow> mutex_state \<Rightarrow> (lock_result \<times> mutex_state) option" where
  "mutex_lock_timeout m ms st =
     (let t = current (msched st) in if t = 0 then Some (Returned 0, st) else lock_loop m ms t st)"

definition mutex_lock :: "addr \<Rightarrow> mutex_state \<Rightarrow> (lock_result \<times> mutex_state) option" where
  "mutex_lock m st = mutex_lock_timeout m (- 1) st"

definition mutex_resume :: "addr \<Rightarrow> int \<Rightarrow> addr \<Rightarrow> mutex_state \<Rightarrow> (lock_result \<times> mutex_state) option" where
  "mutex_resume m ms t st =
     (if suspend_result t (msched st) \<noteq> 0
      then Some (Returned (- ETIMEDOUT), upd_links (\<lambda>h. list_del h (wait_node t)) st)
      else lock_loop m ms t st)"

partial_function (option) unlock_loop :: "addr \<Rightarrow> addr \<Rightarrow> mutex_state \<Rightarrow> mutex_state option" where
  "unlock_loop m l st =
     (if l = mutex_wait m then Some st
      else
        let t = l - WAIT_OFFSET; st = upd_links (\<lambda>h. list_del h (wait_node t)) st in
        Option.bind (wakeup_task t (msched st)) (\<lambda>(_, s).
          unlock_loop m (lnext (task_links s) l) (st\<lparr>msched := s\<rparr>)))"

definition mutex_unlock :: "addr \<Rightarrow> mutex_state \<Rightarrow> mutex_state option" where
  "mutex_unlock m st =
     (if mutex_count st m = 0 then Some st
      else
        let st = st\<lparr>mutex_count := (mutex_count st)(m := 0)\<rparr> in
        map_option (\<lambda>st. if \<not> is_list_empty (mlinks st) (mutex_task m)
                         then upd_links (\<lambda>h. list_del h (mutex_task m)) st else st)
          (unlock_loop m (lnext (mlinks st) (mutex_wait m)) st))"

section \<open>The nodes of the scheduler and the other nodes\<close>

definition sched_nodes :: "addr set \<Rightarrow> sched_state \<Rightarrow> addr set" where
  "sched_nodes T st = {heads st q | q. valid_queue q} \<union> {node q t | q t. t \<in> T}"

text \<open>Links from a node of \<open>N\<close> lead to nodes of \<open>N\<close>.\<close>

definition closed_links :: "addr set \<Rightarrow> list_heap \<Rightarrow> bool" where
  "closed_links N h \<longleftrightarrow> (\<forall>a \<in> N. lnext h a \<in> N \<and> lpre h a \<in> N)"

definition same_links :: "addr set \<Rightarrow> list_heap \<Rightarrow> list_heap \<Rightarrow> bool" where
  "same_links A h h' \<longleftrightarrow> (\<forall>a \<in> A. lnext h' a = lnext h a \<and> lpre h' a = lpre h a)"

definition kept :: "addr set \<Rightarrow> list_heap \<Rightarrow> list_heap \<Rightarrow> bool" where
  "kept N h h' \<longleftrightarrow> closed_links N h' \<and> same_links (- N) h h'"

lemma same_links_trans: "same_links A h h1 \<Longrightarrow> same_links A h1 h2 \<Longrightarrow> same_links A h h2"
  by (simp add: same_links_def)

lemma same_links_refl [simp]: "same_links A h h"
  by (simp add: same_links_def)

lemma same_links_mono: "same_links A h h' \<Longrightarrow> B \<subseteq> A \<Longrightarrow> same_links B h h'"
  by (auto simp: same_links_def)

lemma kept_refl: "closed_links N h \<Longrightarrow> kept N h h"
  by (simp add: kept_def)

lemma kept_trans: "kept N h h1 \<Longrightarrow> kept N h1 h2 \<Longrightarrow> kept N h h2"
  by (auto simp: kept_def intro: same_links_trans)

lemma keptD: "kept N h h' \<Longrightarrow> closed_links N h'" "kept N h h' \<Longrightarrow> same_links (- N) h h'"
  by (simp_all add: kept_def)

lemma kept_ops:
  assumes "closed_links N h" "n \<in> N"
  shows "l \<in> N \<Longrightarrow> kept N h (list_add_tail h l n)" "l \<in> N \<Longrightarrow> kept N h (list_add h l n)" "kept N h (list_del h n)"
  using assms
  by (auto simp: kept_def closed_links_def same_links_def list_add_tail_def list_add_def list_del_def Let_def)

lemma dlist_same_links: "dlist h l xs \<Longrightarrow> same_links A h h' \<Longrightarrow> set (l # xs) \<subseteq> A \<Longrightarrow> dlist h' l xs"
  by (rule dlist_frame) (auto simp: same_links_def)

lemma sched_nodes_heads: "heads st' = heads st \<Longrightarrow> sched_nodes T st' = sched_nodes T st"
  by (simp add: sched_nodes_def)

lemma sched_nodesI [intro]:
  "valid_queue q \<Longrightarrow> heads st q \<in> sched_nodes T st" "t \<in> T \<Longrightarrow> node q t \<in> sched_nodes T st"
  by (auto simp: sched_nodes_def)

text \<open>A step of the scheduler: the heads stay, and only nodes of the scheduler change.\<close>

definition sched_frame :: "addr set \<Rightarrow> sched_state \<Rightarrow> sched_state \<Rightarrow> bool" where
  "sched_frame T st st' \<longleftrightarrow> heads st' = heads st
     \<and> (closed_links (sched_nodes T st) (task_links st) \<longrightarrow> kept (sched_nodes T st) (task_links st) (task_links st'))"

lemma sched_frame_trans: "sched_frame T a b \<Longrightarrow> sched_frame T b c \<Longrightarrow> sched_frame T a c"
  using sched_nodes_heads [of b a T] by (auto simp: sched_frame_def intro: kept_trans dest: keptD(1))

lemma sched_frame_refl [simp]: "sched_frame T st st"
  by (simp add: sched_frame_def kept_refl)

lemma sched_frame_upd_task [simp]: "sched_frame T st' (upd_task t f st) = sched_frame T st' st"
  by (simp add: sched_frame_def)

lemma sched_frame_fields [simp]:
  "sched_frame T st' (st\<lparr>next_run := n\<rparr>) = sched_frame T st' st" "sched_frame T st' (st\<lparr>current := n\<rparr>) = sched_frame T st' st"
  by (simp_all add: sched_frame_def)

lemma sched_frame_upd_task1 [simp]: "sched_frame T (upd_task t f st) st' = sched_frame T st st'"
  using sched_nodes_heads [of "upd_task t f st" st T] by (simp add: sched_frame_def)

lemma sched_frame_ops:
  assumes "valid_queue q" "t \<in> T"
  shows "sched_frame T st (sched_list_add_task q t st)" "sched_frame T st (sched_list_add_task_tail q t st)"
    "sched_frame T st (sched_list_del_task q t st)"
proof -
  have n: "node q t \<in> sched_nodes T st" "list_at (sched_lists st q) \<in> sched_nodes T st"
    using sched_nodesI(1) [OF assms(1), of st T] sched_nodesI(2) [OF assms(2)] by (simp_all add: heads_def)
  show "sched_frame T st (sched_list_add_task q t st)" "sched_frame T st (sched_list_add_task_tail q t st)"
    "sched_frame T st (sched_list_del_task q t st)"
    using kept_ops [OF _ n(1)] n(2)
    by (simp_all add: sched_frame_def sched_list_add_task_def sched_list_add_task_tail_def sched_list_del_task_def)
qed

lemma sched_frame_prio:
  assumes "t \<in> T"
  shows "prio_list_add_task_tail t st = Some st' \<Longrightarrow> sched_frame T st st'"
    "prio_list_del_task t st = Some st' \<Longrightarrow> sched_frame T st st'"
proof -
  have q: "valid_queue q" if "prio_queue t st = Some q" for q using that by (auto simp: prio_queue_def split: if_splits)
  show "prio_list_add_task_tail t st = Some st' \<Longrightarrow> sched_frame T st st'" "prio_list_del_task t st = Some st' \<Longrightarrow> sched_frame T st st'"
    using sched_frame_ops [OF q assms] by (auto simp: prio_list_add_task_tail_def prio_list_del_task_def)
qed

text \<open>Whatever list a task is moved to, only nodes of the scheduler change.\<close>

lemma sched_frame_change_lists:
  assumes "change_lists c t st = Some st'" "t \<in> T"
  shows "sched_frame T st st'"
proof -
  have v: "valid_queue System" "valid_queue Sleep" "valid_queue Idle" by simp_all
  note o = sched_frame_ops [OF v(1) assms(2)] sched_frame_ops [OF v(2) assms(2)] sched_frame_ops [OF v(3) assms(2)]
  note p = sched_frame_prio [OF assms(2)]
  show ?thesis using assms(1)
    by (cases c) (auto intro: sched_frame_trans o p)
qed

lemma sched_frame_set_task_state:
  assumes "set_task_state t new st = Some st'" "t \<in> T"
  shows "sched_frame T st st'"
  using assms sched_frame_change_lists [OF _ assms(2)]
  by (fastforce simp: set_task_state_def Let_def split: if_splits)

lemma sched_frame_wakeup:
  assumes "wakeup_task t st = Some (r, st')" "t \<in> T"
  shows "sched_frame T st st'"
  using assms(1) sched_frame_set_task_state [OF _ assms(2)]
  by (fastforce simp: wakeup_task_def get_task_run_time_def split: if_splits)

lemma same_rest_change_lists:
  assumes "change_lists c t st = Some st'"
  shows "same_rest st st'"
  using assms by (cases c) (auto simp: prio_list_add_task_tail_def prio_list_del_task_def)

lemma same_rest_set_task_state:
  assumes "set_task_state t new st = Some st'"
  shows "same_rest st st'"
  using assms same_rest_change_lists [of _ t "upd_task t (\<lambda>k. k\<lparr>state := new\<rparr>) st"]
  by (fastforce simp: set_task_state_def Let_def same_rest_def split: if_splits)

lemma sched_frame_prepare:
  assumes "prepare_to_switch st = Some (r, st')" "current st \<in> T" "next_run st \<in> T"
  shows "sched_frame T st st'"
proof (cases "current st = next_run st")
  case True
  then show ?thesis using assms(1) by (auto simp: prepare_to_switch_def get_task_run_time_def split: if_splits)
next
  case False
  obtain st1 where s1: "(if get_task_state (current st) st = PROCESS_STATE_RUNNING
      then set_task_state (current st) PROCESS_STATE_PREPARE
             (if run_time (tasks st (current st)) = 0 \<or> \<not> in_interrupt st
              then get_task_run_time (current st) (dec_prio (current st) st) else st)
      else Some st) = Some st1"
    and s2: "set_task_state (next_run st1) PROCESS_STATE_RUNNING (upd_task (next_run st1) (\<lambda>k. k\<lparr>wait_time := - 1\<rparr>)
      (upd_task (next_run st1) (\<lambda>k. if wait_time k = 0 then k\<lparr>time_out := 1\<rparr> else k) st1)) = Some st'"
    using assms(1) False by (auto simp: prepare_to_switch_def Let_def bind_eq_Some_conv split: if_splits)
  have 1: "sched_frame T st st1 \<and> next_run st1 = next_run st"
  proof (cases "get_task_state (current st) st = PROCESS_STATE_RUNNING")
    case True
    then have "set_task_state (current st) PROCESS_STATE_PREPARE
       (if run_time (tasks st (current st)) = 0 \<or> \<not> in_interrupt st
        then get_task_run_time (current st) (dec_prio (current st) st) else st) = Some st1" using s1 by simp
    from sched_frame_set_task_state [OF this assms(2)] same_rest_set_task_state [OF this] show ?thesis
      by (auto simp: same_rest_def get_task_run_time_def dec_prio_def split: if_splits)
  next
    case False
    then show ?thesis using s1 by simp
  qed
  have "next_run st1 \<in> T" using 1 assms(3) by simp
  from sched_frame_set_task_state [OF s2 this] show ?thesis using 1 by (auto intro: sched_frame_trans)
qed

lemma sched_frame_sched:
  assumes "sched_inv T qs st" "current_ok T st" "ready T st \<noteq> {}" "sched st = Some st'"
  shows "sched_frame T st st'"
proof -
  obtain n where n: "best T st n" "find_next_run_task st = st\<lparr>next_run := n\<rparr>" using find_next_best [OF assms(1,3)] by blast
  let ?st = "st\<lparr>next_run := n\<rparr>"
  have t: "current ?st \<in> T" "next_run ?st \<in> T" using n(1) assms(2) by (auto simp: best_def ready_def current_ok_def)
  have "sched_frame T ?st st2" if "prepare_to_switch ?st = Some (r, st2)" for r st2 using sched_frame_prepare [OF that t] .
  moreover have "sched_frame T ?st x = sched_frame T st x" for x
    using sched_nodes_heads [of ?st st T] by (simp add: sched_frame_def)
  ultimately show ?thesis using assms(4) n(2) by (auto simp: sched_def split: if_splits)
qed

section \<open>Locks beside the scheduler\<close>

text \<open>The nodes used for locks are no nodes of the scheduler and do not overlap.\<close>

definition lock_layout :: "addr set \<Rightarrow> addr \<Rightarrow> sched_state \<Rightarrow> bool" where
  "lock_layout T m s \<longleftrightarrow> closed_links (sched_nodes T s) (task_links s)
     \<and> mutex_wait m \<notin> sched_nodes T s \<and> mutex_task m \<notin> sched_nodes T s
     \<and> (\<forall>t \<in> T. wait_node t \<notin> sched_nodes T s \<and> mutex_get t \<notin> sched_nodes T s
          \<and> wait_node t \<noteq> mutex_wait m \<and> wait_node t \<noteq> mutex_task m \<and> mutex_get t \<noteq> mutex_wait m
          \<and> mutex_get t \<noteq> mutex_task m \<and> (\<forall>u \<in> T. wait_node t \<noteq> mutex_get u))"

definition waiters :: "addr set \<Rightarrow> addr \<Rightarrow> addr list \<Rightarrow> list_heap \<Rightarrow> bool" where
  "waiters T m ws h \<longleftrightarrow> dlist h (mutex_wait m) (map wait_node ws) \<and> set ws \<subseteq> T"

lemma wait_node_inj [simp]: "wait_node t = wait_node u \<longleftrightarrow> t = u"
  by (simp add: wait_node_def)

lemma mutex_nodes_differ [simp]: "mutex_wait m \<noteq> mutex_task m" "mutex_task m \<noteq> mutex_wait m"
  by (simp_all add: mutex_wait_def mutex_task_def)

lemma upd_links_simps [simp]:
  "mutex_count (upd_links f st) = mutex_count st" "msched (upd_links f st) = (msched st)\<lparr>task_links := f (mlinks st)\<rparr>"
  by (simp_all add: upd_links_def)

lemma heads_links [simp]: "heads (s\<lparr>task_links := h\<rparr>) = heads s"
  by (simp add: heads_def fun_eq_iff)

lemma same_links_add_tail: "dlist h l xs \<Longrightarrow> same_links (- set (l # n # xs)) h (list_add_tail h l n)"
  using dlist_links(2) [of h l xs l] by (auto simp: same_links_def list_add_tail_def Let_def)

lemma same_links_del: "dlist h l xs \<Longrightarrow> x \<in> set xs \<Longrightarrow> same_links (- set (l # xs)) h (list_del h x)"
  using dlist_links [of h l xs x] by (auto simp: same_links_def list_del_def Let_def)

lemma del_keeps_next:
  assumes "dlist h l (x # xs)"
  shows "lnext (list_del h x) x = hd (xs @ [l])"
  using assms by (cases xs) (auto simp: dlist_def list_del_def Let_def)

lemma sched_inv_links:
  assumes "sched_inv T qs s" "same_links (sched_nodes T s) (task_links s) h"
  shows "sched_inv T qs (s\<lparr>task_links := h\<rparr>)"
proof -
  have r: "queues_rep T qs s" and p: "placed T qs (tasks s)" using assms(1) by (simp_all add: sched_inv_def)
  have "dlist h (heads s q) (map (node q) (qs q))" if "valid_queue q" for q
  proof (rule dlist_same_links [OF _ assms(2)])
    show "dlist (task_links s) (heads s q) (map (node q) (qs q))" using r that by (simp add: queues_rep_def)
    show "set (heads s q # map (node q) (qs q)) \<subseteq> sched_nodes T s" using queue_members [OF r that] that by auto
  qed
  then show ?thesis using r p by (simp add: sched_inv_def queues_rep_def)
qed

lemma closed_links_same: "closed_links N h \<Longrightarrow> same_links N h h' \<Longrightarrow> closed_links N h'"
  by (simp add: closed_links_def same_links_def)

lemma lock_layout_frame:
  assumes "lock_layout T m s" "heads s' = heads s" "closed_links (sched_nodes T s) (task_links s')"
  shows "lock_layout T m s'"
  using assms sched_nodes_heads [OF assms(2), of T] by (auto simp: lock_layout_def)

lemma lock_layout_links:
  assumes "lock_layout T m s" "same_links (sched_nodes T s) (task_links s) h"
  shows "lock_layout T m (s\<lparr>task_links := h\<rparr>)"
  using assms by (intro lock_layout_frame [OF assms(1)]) (auto simp: lock_layout_def intro: closed_links_same)

section \<open>Waking the waiters\<close>

definition woken :: "task_struct \<Rightarrow> task_struct" where
  "woken k = (if state k = PROCESS_STATE_SLEEP then k\<lparr>run_time := 5 + (TASK_MAX_PRIO - prio k), state := PROCESS_STATE_PREPARE\<rparr> else k)"

lemma wakeup_step:
  assumes "sched_inv T qs s" "t \<in> T" "0 \<le> prio (tasks s t)" "prio (tasks s t) < 64"
  shows "\<exists>qs' s' r. wakeup_task t s = Some (r, s') \<and> sched_inv T qs' s' \<and> tasks s' = (tasks s)(t := woken (tasks s t)) \<and> same_rest s s'"
proof (cases "state (tasks s t) = PROCESS_STATE_SLEEP")
  case False
  then show ?thesis using assms(1) by (auto simp: wakeup_task_def get_task_state_def woken_def)
next
  case True
  let ?s = "get_task_run_time t s"
  have "sched_inv T qs ?s" unfolding get_task_run_time_def by (rule sched_inv_upd_task [OF assms(1)]) auto
  moreover have "legal_change (tasks ?s t) PROCESS_STATE_PREPARE"
    using True assms(3,4) by (simp add: legal_change_def get_task_run_time_def)
  ultimately obtain s' where "set_task_state t PROCESS_STATE_PREPARE ?s = Some s'"
    "sched_inv T (moved (tasks ?s t) PROCESS_STATE_PREPARE t qs) s'"
    "tasks s' = (tasks ?s)(t := (tasks ?s t)\<lparr>state := PROCESS_STATE_PREPARE\<rparr>)" "same_rest ?s s'"
    using set_task_state_step [OF _ assms(2)] by blast
  then show ?thesis using True
    by (auto simp: wakeup_task_def get_task_state_def woken_def get_task_run_time_def same_rest_def)
qed

lemma unlock_loop_all:
  assumes "sched_inv T qs (msched st)" "lock_layout T m (msched st)" "waiters T m ws (mlinks st)"
    and "\<forall>t \<in> T. 0 \<le> prio (tasks (msched st) t) \<and> prio (tasks (msched st) t) < 64"
  shows "\<exists>qs' st'. unlock_loop m (hd (map wait_node ws @ [mutex_wait m])) st = Some st' \<and> sched_inv T qs' (msched st')
    \<and> lock_layout T m (msched st') \<and> waiters T m [] (mlinks st') \<and> mutex_count st' = mutex_count st
    \<and> tasks (msched st') = (\<lambda>t. if t \<in> set ws then woken (tasks (msched st) t) else tasks (msched st) t)
    \<and> same_rest (msched st) (msched st')
    \<and> same_links (- (sched_nodes T (msched st) \<union> insert (mutex_wait m) (wait_node ` set ws))) (mlinks st) (mlinks st')
    \<and> (\<forall>t. ws = [t] \<longrightarrow> same_links {wait_node t} (mlinks st) (mlinks st'))"
  using assms
proof (induction ws arbitrary: qs st)
  case Nil
  then show ?case by (subst unlock_loop.simps) auto
next
  case (Cons t ws)
  let ?s = "msched st" and ?h = "mlinks st"
  have d: "dlist ?h (mutex_wait m) (wait_node t # map wait_node ws)" and t: "t \<in> T" "set ws \<subseteq> T"
    using Cons.prems(3) by (auto simp: waiters_def)
  have tw: "t \<notin> set ws" using d by (auto simp: dlist_def)
  let ?s1 = "?s\<lparr>task_links := list_del ?h (wait_node t)\<rparr>"
  have out: "set (mutex_wait m # wait_node t # map wait_node ws) \<subseteq> - sched_nodes T ?s"
    using Cons.prems(2) t by (auto simp: lock_layout_def)
  have sl: "same_links (- set (mutex_wait m # wait_node t # map wait_node ws)) ?h (list_del ?h (wait_node t))"
    by (rule same_links_del [OF d]) simp
  then have sn: "same_links (sched_nodes T ?s) ?h (list_del ?h (wait_node t))" by (rule same_links_mono) (use out in auto)
  have i1: "sched_inv T qs ?s1" "lock_layout T m ?s1"
    by (rule sched_inv_links [OF Cons.prems(1) sn], rule lock_layout_links [OF Cons.prems(2) sn])
  have d1: "dlist (list_del ?h (wait_node t)) (mutex_wait m) (map wait_node ws)"
    using klist.del_rep [of ?h "mutex_wait m" "[]"] d by simp
  obtain qs2 s2 r where s2: "wakeup_task t ?s1 = Some (r, s2)" "sched_inv T qs2 s2"
    "tasks s2 = (tasks ?s)(t := woken (tasks ?s t))" "same_rest ?s1 s2"
    using wakeup_step [OF i1(1) t(1)] Cons.prems(4) t(1) by auto
  have N: "sched_nodes T ?s1 = sched_nodes T ?s" by (rule sched_nodes_heads) simp
  have "sched_frame T ?s1 s2" by (rule sched_frame_wakeup [OF s2(1) t(1)])
  then have k: "kept (sched_nodes T ?s) (list_del ?h (wait_node t)) (task_links s2)" and h2: "heads s2 = heads ?s"
    using i1(2) N by (simp_all add: sched_frame_def lock_layout_def)
  have i2: "lock_layout T m s2" by (rule lock_layout_frame [OF Cons.prems(2) h2 keptD(1) [OF k]])
  have d2: "waiters T m ws (task_links s2)"
    using dlist_same_links [OF d1 keptD(2) [OF k]] out t(2) by (simp add: waiters_def)
  have nx: "lnext (task_links s2) (wait_node t) = hd (map wait_node ws @ [mutex_wait m])"
    using keptD(2) [OF k] out del_keeps_next [OF d] by (simp add: same_links_def)
  have pr: "\<forall>t \<in> T. 0 \<le> prio (tasks s2 t) \<and> prio (tasks s2 t) < 64"
    using Cons.prems(4) by (simp add: s2(3) woken_def)
  let ?st2 = "(upd_links (\<lambda>h. list_del h (wait_node t)) st)\<lparr>msched := s2\<rparr>"
  have m2: "msched ?st2 = s2" "mutex_count ?st2 = mutex_count st" by simp_all
  obtain qs' st' where ih: "unlock_loop m (hd (map wait_node ws @ [mutex_wait m])) ?st2 = Some st'"
    "sched_inv T qs' (msched st')" "lock_layout T m (msched st')" "waiters T m [] (mlinks st')" "mutex_count st' = mutex_count st"
    "tasks (msched st') = (\<lambda>x. if x \<in> set ws then woken (tasks s2 x) else tasks s2 x)" "same_rest s2 (msched st')"
    "same_links (- (sched_nodes T s2 \<union> insert (mutex_wait m) (wait_node ` set ws))) (task_links s2) (mlinks st')"
    using Cons.IH [of qs2 ?st2, unfolded m2, OF s2(2) i2 d2 pr] by blast
  have "unlock_loop m (wait_node t) st = unlock_loop m (lnext (task_links s2) (wait_node t)) ?st2"
    using out s2(1) t Cons.prems(2) by (subst unlock_loop.simps) (auto simp: lock_layout_def wait_node_def Let_def)
  then have "unlock_loop m (hd (map wait_node (t # ws) @ [mutex_wait m])) st = Some st'" using nx ih(1) by simp
  moreover have "tasks (msched st') = (\<lambda>x. if x \<in> set (t # ws) then woken (tasks ?s x) else tasks ?s x)"
    using tw unfolding ih(6) s2(3) by (auto simp: fun_eq_iff)
  moreover have "same_rest ?s (msched st')" using ih(7) s2(4) by (simp add: same_rest_def)
  moreover have "same_links (- (sched_nodes T ?s \<union> insert (mutex_wait m) (wait_node ` set (t # ws)))) ?h (mlinks st')"
    using sl keptD(2) [OF k] ih(8) sched_nodes_heads [OF h2, of T] by (auto simp: same_links_def)
  moreover have "same_links {wait_node t} ?h (mlinks st')" if "ws = []"
  proof -
    have x: "wait_node t \<noteq> mutex_wait m" "wait_node t \<notin> sched_nodes T s2"
      using out d unfolding sched_nodes_heads [OF h2] by (auto simp: dlist_def)
    have "same_links {wait_node t} ?h (list_del ?h (wait_node t))"
      using d that by (auto simp: same_links_def dlist_def list_del_def Let_def)
    moreover have "same_links {wait_node t} (task_links s2) (mlinks st')"
      by (rule same_links_mono [OF ih(8)]) (use x that in simp)
    moreover have "same_links {wait_node t} (list_del ?h (wait_node t)) (task_links s2)"
      by (rule same_links_mono [OF keptD(2) [OF k]]) (use out in simp)
    ultimately show ?thesis by (meson same_links_trans)
  qed
  ultimately show ?case using ih(2-5) by (intro exI [of _ qs'] exI [of _ st'] conjI allI impI) simp_all
qed

section \<open>Who holds a lock\<close>

lemma suspend_immediate: "suspend_task_timeout t ms s = Some (Some r, s') \<Longrightarrow> r = - EINVAL"
  by (auto simp: suspend_task_timeout_def bind_eq_Some_conv split: if_splits)

lemma lock_loop_free:
  assumes "mutex_count st m = 0"
  shows "lock_loop m ms t st = Some (Returned 0, upd_links (\<lambda>h. list_add_tail h (mutex_get t) (mutex_task m))
    (st\<lparr>mutex_count := (mutex_count st)(m := 1)\<rparr>))"
  using assms by (subst lock_loop.simps) simp

lemma lock_loop_count:
  assumes "lock_loop m ms t st = Some (r, st')"
  shows "if mutex_count st m = 0 then r = Returned 0 \<and> mutex_count st' = (mutex_count st)(m := 1)
         else r \<noteq> Returned 0 \<and> mutex_count st' = mutex_count st"
proof (cases "mutex_count st m = 0")
  case True
  then show ?thesis using assms by (subst (asm) lock_loop.simps) auto
next
  case False
  let ?st = "upd_links (\<lambda>h. list_add_tail h (mutex_wait m) (wait_node t)) st"
  have step: "lock_loop m ms t st = Option.bind (suspend_task_timeout t ms (msched ?st)) (\<lambda>(r, s).
      case r of None \<Rightarrow> Some (Suspended, ?st\<lparr>msched := s\<rparr>)
      | Some v \<Rightarrow> if v \<noteq> 0 then Some (Returned (- ETIMEDOUT), upd_links (\<lambda>h. list_del h (wait_node t)) (?st\<lparr>msched := s\<rparr>))
          else lock_loop m ms t (?st\<lparr>msched := s\<rparr>))"
    using False by (subst lock_loop.simps) (simp add: Let_def)
  obtain x s where x: "suspend_task_timeout t ms (msched ?st) = Some (x, s)"
    using assms step by (cases "suspend_task_timeout t ms (msched ?st)") auto
  show ?thesis
  proof (cases x)
    case None
    then show ?thesis using False assms x unfolding step by auto
  next
    case (Some v)
    then have "v = - EINVAL" using suspend_immediate x by simp
    then show ?thesis using Some False assms x unfolding step by auto
  qed
qed

lemma unlock_loop_count:
  assumes "unlock_loop m l st = Some st'"
  shows "mutex_count st' = mutex_count st"
  using assms
proof (rule unlock_loop.raw_induct [where P = "\<lambda>_ _ st st'. mutex_count st' = mutex_count st", rotated])
  fix f m l st y
  assume ih: "\<And>m l st y. f m l st = Some y \<Longrightarrow> mutex_count y = mutex_count st"
    and e: "(if l = mutex_wait m then Some st
       else let t = l - WAIT_OFFSET; st = upd_links (\<lambda>h. list_del h (wait_node t)) st in
         Option.bind (wakeup_task t (msched st)) (\<lambda>(_, s). f m (lnext (task_links s) l) (st\<lparr>msched := s\<rparr>))) = Some y"
  show "mutex_count y = mutex_count st"
    using e ih by (auto simp: Let_def bind_eq_Some_conv split: if_split_asm)
qed

text \<open>
  The states a kernel can be in that uses the mutex as intended, with the set of tasks that
  hold it: the current task calls \<open>mutex_lock_timeout\<close>, continues after a suspension, or
  unlocks a mutex it holds; every other step of the kernel leaves the count alone.
\<close>

inductive lock_reach :: "addr \<Rightarrow> mutex_state \<Rightarrow> addr set \<Rightarrow> bool" for m where
  start: "lock_reach m (init_mutex m st) {}"
| call: "lock_reach m st H \<Longrightarrow> current (msched st) \<noteq> 0 \<Longrightarrow> mutex_lock_timeout m ms st = Some (r, st')
     \<Longrightarrow> lock_reach m st' (if r = Returned 0 then insert (current (msched st)) H else H)"
| resume: "lock_reach m st H \<Longrightarrow> mutex_resume m ms (current (msched st)) st = Some (r, st')
     \<Longrightarrow> lock_reach m st' (if r = Returned 0 then insert (current (msched st)) H else H)"
| unlock: "lock_reach m st H \<Longrightarrow> current (msched st) \<in> H \<Longrightarrow> mutex_unlock m st = Some st'
     \<Longrightarrow> lock_reach m st' (H - {current (msched st)})"
| other: "lock_reach m st H \<Longrightarrow> mutex_count st' m = mutex_count st m \<Longrightarrow> lock_reach m st' H"

definition holders_ok :: "addr \<Rightarrow> mutex_state \<Rightarrow> addr set \<Rightarrow> bool" where
  "holders_ok m st H \<longleftrightarrow> (if mutex_count st m = 0 then H = {} else mutex_count st m = 1 \<and> (\<exists>t. H = {t}))"

lemma holders_ok_lock:
  assumes "lock_loop m ms t st = Some (r, st')" "holders_ok m st H"
  shows "holders_ok m st' (if r = Returned 0 then insert t H else H)"
  using lock_loop_count [OF assms(1)] assms(2) by (auto simp: holders_ok_def split: if_splits)

lemma lock_reach_ok: "lock_reach m st H \<Longrightarrow> holders_ok m st H"
proof (induction rule: lock_reach.induct)
  case (start st)
  then show ?case by (simp add: holders_ok_def init_mutex_def)
next
  case (call st H ms r st')
  then show ?case using holders_ok_lock by (simp add: mutex_lock_timeout_def)
next
  case (resume st H ms r st')
  show ?case
  proof (cases "suspend_result (current (msched st)) (msched st) = 0")
    case True
    then show ?thesis using resume holders_ok_lock by (simp add: mutex_resume_def)
  next
    case False
    then show ?thesis using resume by (auto simp: mutex_resume_def holders_ok_def)
  qed
next
  case (unlock st H st')
  then show ?case using unlock_loop_count [of m _ "st\<lparr>mutex_count := (mutex_count st)(m := 0)\<rparr>"]
    by (fastforce simp: holders_ok_def mutex_unlock_def Let_def split: if_splits)
next
  case (other st H st')
  then show ?case by (simp add: holders_ok_def)
qed

section \<open>Waiting for a lock\<close>

lemma suspend_current_step:
  assumes inv: "sched_inv T qs s" and c: "current_ok T s" and f: "schedule_running s" "\<not> in_interrupt s" and ex: "ready T s \<noteq> {}"
    and run: "state (tasks s (current s)) = PROCESS_STATE_RUNNING" and ms: "ms \<noteq> 0"
  shows "\<exists>n qs' s'. suspend_task_timeout (current s) ms s = Some (None, s') \<and> sched_inv T qs' s' \<and> sched_frame T s s'
    \<and> best T s n \<and> current s' = n \<and> state (tasks s' (current s)) = PROCESS_STATE_SLEEP
    \<and> state (tasks s' n) = PROCESS_STATE_RUNNING"
proof -
  let ?c = "current s"
  let ?s1 = "upd_task ?c (\<lambda>k. k\<lparr>wait_time := ms, time_out := 0\<rparr>) s"
  have c': "?c \<in> T" "?c \<noteq> 0" using c by (simp_all add: current_ok_def)
  have i1: "sched_inv T qs ?s1" by (rule sched_inv_upd_task [OF inv]) auto
  have "legal_change (tasks ?s1 ?c) PROCESS_STATE_SLEEP" using run by (simp add: legal_change_def)
  from set_task_state_step [OF i1 c'(1) this] obtain qs2 s2 where s2: "set_task_state ?c PROCESS_STATE_SLEEP ?s1 = Some s2"
    "sched_inv T qs2 s2" "tasks s2 = (tasks ?s1)(?c := (tasks ?s1 ?c)\<lparr>state := PROCESS_STATE_SLEEP\<rparr>)" "same_rest ?s1 s2" by blast
  have cur: "current s2 = ?c" using s2(4) by (simp add: same_rest_def)
  have ok: "current_ok T s2" "schedule_running s2" "\<not> in_interrupt s2"
    using c f s2(3,4) by (auto simp: current_ok_def same_rest_def)
  have r1: "ready T s2 = ready T s" using run unfolding ready_def s2(3) by auto
  have "tasks s2 x = tasks s x" if "x \<in> ready T s" for x using that run unfolding ready_def s2(3) by auto
  then have rd: "ready T s2 = ready T s" "best T s2 n \<longleftrightarrow> best T s n" for n using r1 by (auto simp: best_def)
  from sched_step [OF s2(2) ok] ex rd obtain n qs' s' where s': "sched s2 = Some s'" "best T s n" "current s' = n"
    "sched_inv T qs' s'" "switched T s2 n s'" by auto
  have "sched_frame T s s2" using sched_frame_set_task_state [OF s2(1) c'(1)] by simp
  moreover have "sched_frame T s2 s'" using sched_frame_sched [OF s2(2) ok(1) _ s'(1)] ex rd(1) by simp
  ultimately have "sched_frame T s s'" by (rule sched_frame_trans)
  moreover have "suspend_task_timeout ?c ms s = Some (None, s')"
    using c'(2) ms run s2(1) s'(1) by (simp add: suspend_task_timeout_def get_task_state_def)
  moreover have "state (tasks s' ?c) = PROCESS_STATE_SLEEP" using s'(5) cur s2(3) by (simp add: switched_def)
  moreover have "state (tasks s' n) = PROCESS_STATE_RUNNING" using s'(2,5) by (auto simp: switched_def best_def ready_def)
  ultimately show ?thesis using s'(2-4) by blast
qed

section \<open>A concrete system\<close>

text \<open>A mutex held by the running task, with or without the other task in its queue.\<close>

definition lock_m :: addr where "lock_m = 0x3000"

definition locked_by_a :: "sched_state \<Rightarrow> mutex_state" where
  "locked_by_a s = upd_links (\<lambda>h. list_add_tail h (mutex_get task_a) (mutex_task lock_m))
     \<lparr>mutex_count = (\<lambda>_. 0)(lock_m := 1), msched = s\<rparr>"

definition waited_by_b :: "sched_state \<Rightarrow> mutex_state" where
  "waited_by_b s = upd_links (\<lambda>h. list_add_tail h (mutex_wait lock_m) (wait_node task_b)) (locked_by_a s)"

lemma two_tasks_frame:
  assumes "valid_queue q"
  shows "heads (two_tasks q k) = base_heads" "kept (sched_nodes {task_a, task_b} (two_tasks q k)) \<lparr>lnext = (\<lambda>a. a), lpre = (\<lambda>a. a)\<rparr> (task_links (two_tasks q k))"
proof -
  let ?T = "{task_a, task_b}" and ?s = "no_tasks ((\<lambda>_. plain_task PROCESS_STATE_RUNNING (-1))(task_b := k))"
  have "sched_frame ?T ?s (two_tasks q k)" unfolding two_tasks_def
    by (intro sched_frame_trans [OF sched_frame_trans [OF sched_frame_ops(2) sched_frame_ops(2)] sched_frame_ops(2)])
      (simp_all add: assms)
  moreover have "heads ?s = base_heads" "task_links ?s = \<lparr>lnext = (\<lambda>a. a), lpre = (\<lambda>a. a)\<rparr>"
    by (simp_all add: heads_def no_tasks_def fun_eq_iff)
  ultimately show h: "heads (two_tasks q k) = base_heads" and
    "kept (sched_nodes ?T (two_tasks q k)) \<lparr>lnext = (\<lambda>a. a), lpre = (\<lambda>a. a)\<rparr> (task_links (two_tasks q k))"
    using sched_nodes_heads [of "two_tasks q k" ?s ?T] by (simp_all add: sched_frame_def closed_links_def)
qed

lemma two_sched_nodes:
  assumes "valid_queue q" "x \<in> sched_nodes {task_a, task_b} (two_tasks q k)"
  shows "uint x < 0x2030 \<or> uint x \<in> {0x100408, 0x100410, 0x100418, 0x100420} \<or> uint x \<in> {0x200408, 0x200410, 0x200418, 0x200420}"
proof -
  have "uint (base_heads r) < 0x2030" if "valid_queue r" for r
    using that by (cases r) (auto simp: uint_head simp del: base_heads.simps(1))
  then show ?thesis using assms(2) node_two unfolding sched_nodes_def two_tasks_frame(1) [OF assms(1)] by blast
qed

lemma lock_nodes_outside:
  assumes "valid_queue q"
  shows "mutex_wait lock_m \<notin> sched_nodes {task_a, task_b} (two_tasks q k)" "mutex_task lock_m \<notin> sched_nodes {task_a, task_b} (two_tasks q k)"
    "wait_node task_a \<notin> sched_nodes {task_a, task_b} (two_tasks q k)" "wait_node task_b \<notin> sched_nodes {task_a, task_b} (two_tasks q k)"
    "mutex_get task_a \<notin> sched_nodes {task_a, task_b} (two_tasks q k)" "mutex_get task_b \<notin> sched_nodes {task_a, task_b} (two_tasks q k)"
proof -
  have u: "uint (mutex_wait lock_m) = 0x3004" "uint (mutex_task lock_m) = 0x300c" "uint (wait_node task_a) = 0x10042c"
    "uint (wait_node task_b) = 0x20042c" "uint (mutex_get task_a) = 0x100434" "uint (mutex_get task_b) = 0x200434"
    by (simp_all add: mutex_wait_def mutex_task_def wait_node_def mutex_get_def lock_m_def task_a_def task_b_def)
  show "mutex_wait lock_m \<notin> sched_nodes {task_a, task_b} (two_tasks q k)" "mutex_task lock_m \<notin> sched_nodes {task_a, task_b} (two_tasks q k)"
    "wait_node task_a \<notin> sched_nodes {task_a, task_b} (two_tasks q k)" "wait_node task_b \<notin> sched_nodes {task_a, task_b} (two_tasks q k)"
    "mutex_get task_a \<notin> sched_nodes {task_a, task_b} (two_tasks q k)" "mutex_get task_b \<notin> sched_nodes {task_a, task_b} (two_tasks q k)"
    using two_sched_nodes [OF assms] u by fastforce+
qed

lemmas lock_addrs = mutex_wait_def mutex_task_def wait_node_def mutex_get_def lock_m_def task_a_def task_b_def

lemma locked_system:
  assumes q: "valid_queue q" "home k = Some q" "state k \<in> {PROCESS_STATE_PREPARE, PROCESS_STATE_SLEEP}" "0 \<le> prio k" "prio k < 64"
  defines "s \<equiv> two_tasks q k" and "N \<equiv> sched_nodes {task_a, task_b} (two_tasks q k)"
  shows "same_links N (task_links s) (mlinks (locked_by_a s))" "same_links N (task_links s) (mlinks (waited_by_b s))"
    "dlist (mlinks (locked_by_a s)) (mutex_wait lock_m) []" "dlist (mlinks (waited_by_b s)) (mutex_wait lock_m) [wait_node task_b]"
    "dlist (mlinks (waited_by_b s)) (mutex_get task_a) [mutex_task lock_m]" "lock_layout {task_a, task_b} lock_m s"
proof -
  note o = lock_nodes_outside [OF q(1), of k, folded N_def]
  have k: "closed_links N (task_links s)" "\<And>a. a \<notin> N \<Longrightarrow> lnext (task_links s) a = a \<and> lpre (task_links s) a = a"
    using two_tasks_frame(2) [OF q(1), of k] by (auto simp: kept_def same_links_def s_def N_def)
  have d0: "dlist (task_links s) a []" if "a \<notin> N" for a using k(2) that by (simp add: dlist_def)
  let ?h1 = "list_add_tail (task_links s) (mutex_get task_a) (mutex_task lock_m)"
  have h1: "mlinks (locked_by_a s) = ?h1" "mlinks (waited_by_b s) = list_add_tail ?h1 (mutex_wait lock_m) (wait_node task_b)"
    by (simp_all add: locked_by_a_def waited_by_b_def)
  have s1: "same_links (- {mutex_get task_a, mutex_task lock_m}) (task_links s) ?h1"
    using same_links_add_tail [OF d0 [OF o(5)], of "mutex_task lock_m"] by simp
  show l1: "same_links N (task_links s) (mlinks (locked_by_a s))" unfolding h1 by (rule same_links_mono [OF s1]) (use o in auto)
  show dw: "dlist (mlinks (locked_by_a s)) (mutex_wait lock_m) []"
    unfolding h1 by (rule dlist_same_links [OF d0 [OF o(1)] s1]) (simp add: lock_addrs)
  have da: "dlist ?h1 (mutex_get task_a) [mutex_task lock_m]"
    using klist.add_tail_rep [OF d0 [OF o(5)], of "mutex_task lock_m"] by (simp add: lock_addrs)
  have s2: "same_links (- {mutex_wait lock_m, wait_node task_b}) ?h1 (mlinks (waited_by_b s))"
    using same_links_add_tail [OF dw [unfolded h1], of "wait_node task_b"] by (simp add: h1)
  show "same_links N (task_links s) (mlinks (waited_by_b s))"
    using l1 [unfolded h1] same_links_mono [OF s2, of N] o by (auto intro: same_links_trans)
  show "dlist (mlinks (waited_by_b s)) (mutex_wait lock_m) [wait_node task_b]"
    using klist.add_tail_rep [OF dw, of "wait_node task_b"] by (simp add: h1 lock_addrs)
  show "dlist (mlinks (waited_by_b s)) (mutex_get task_a) [mutex_task lock_m]"
    by (rule dlist_same_links [OF da s2]) (simp add: lock_addrs)
  show "lock_layout {task_a, task_b} lock_m s"
    using k(1) o unfolding lock_layout_def by (auto simp: s_def N_def) (simp_all add: lock_addrs)
qed

lemma msched_locked: "msched (locked_by_a s) = s\<lparr>task_links := mlinks (locked_by_a s)\<rparr>" "mutex_count (locked_by_a s) lock_m = 1"
  "msched (waited_by_b s) = s\<lparr>task_links := mlinks (waited_by_b s)\<rparr>" "mutex_count (waited_by_b s) lock_m = 1"
  by (simp_all add: locked_by_a_def waited_by_b_def)

lemma locked_system_inv:
  assumes "valid_queue q" "home k = Some q" "state k \<in> {PROCESS_STATE_PREPARE, PROCESS_STATE_SLEEP}" "0 \<le> prio k" "prio k < 64"
  defines "T \<equiv> {task_a, task_b}" and "qs \<equiv> (\<lambda>_. [])(System := [task_a, task_b], q := [task_b])"
  shows "sched_inv T qs (msched (locked_by_a (two_tasks q k)))" "lock_layout T lock_m (msched (locked_by_a (two_tasks q k)))"
    "sched_inv T qs (msched (waited_by_b (two_tasks q k)))" "lock_layout T lock_m (msched (waited_by_b (two_tasks q k)))"
    "waiters T lock_m [] (mlinks (locked_by_a (two_tasks q k)))" "waiters T lock_m [task_b] (mlinks (waited_by_b (two_tasks q k)))"
    "tasks (msched (locked_by_a (two_tasks q k))) = (\<lambda>_. plain_task PROCESS_STATE_RUNNING (-1))(task_b := k)"
    "tasks (msched (waited_by_b (two_tasks q k))) = (\<lambda>_. plain_task PROCESS_STATE_RUNNING (-1))(task_b := k)"
proof -
  note l = locked_system [OF assms(1-5)] and i = two_tasks_inv [OF assms(1-5)]
  show "sched_inv T qs (msched (locked_by_a (two_tasks q k)))" "lock_layout T lock_m (msched (locked_by_a (two_tasks q k)))"
    "sched_inv T qs (msched (waited_by_b (two_tasks q k)))" "lock_layout T lock_m (msched (waited_by_b (two_tasks q k)))"
    unfolding T_def qs_def
    by (subst msched_locked(1), rule sched_inv_links [OF i(1) l(1)], subst msched_locked(1), rule lock_layout_links [OF l(6,1)],
        subst msched_locked(3), rule sched_inv_links [OF i(1) l(2)], subst msched_locked(3), rule lock_layout_links [OF l(6,2)])
  show "waiters T lock_m [] (mlinks (locked_by_a (two_tasks q k)))" "waiters T lock_m [task_b] (mlinks (waited_by_b (two_tasks q k)))"
    using l(3,4) by (simp_all add: waiters_def T_def)
  show "tasks (msched (locked_by_a (two_tasks q k))) = (\<lambda>_. plain_task PROCESS_STATE_RUNNING (-1))(task_b := k)"
    "tasks (msched (waited_by_b (two_tasks q k))) = (\<lambda>_. plain_task PROCESS_STATE_RUNNING (-1))(task_b := k)"
    using i(2) by (simp_all add: locked_by_a_def waited_by_b_def)
qed

section \<open>Properties\<close>

text \<open>
  C11.  Unlocking wakes every waiter: a mutex that is locked becomes free, every task that
  sleeps in its queue becomes ready with a new time slice, the queue is empty, the mutex
  leaves the list of its owner, no other task changes, and the lists of the scheduler stay
  correct.
\<close>

theorem mutex_unlock_wakes_all:
  assumes "sched_inv T qs (msched st)" "lock_layout T m (msched st)" "waiters T m ws (mlinks st)"
    and "\<forall>t \<in> T. 0 \<le> prio (tasks (msched st) t) \<and> prio (tasks (msched st) t) < 64"
    and "mutex_count st m \<noteq> 0" "k \<in> T" "dlist (mlinks st) (mutex_get k) (xs @ mutex_task m # ys)"
    and "set (mutex_get k # xs @ mutex_task m # ys) \<inter> (sched_nodes T (msched st) \<union> insert (mutex_wait m) (wait_node ` T)) = {}"
  shows "\<exists>qs' st'. mutex_unlock m st = Some st' \<and> mutex_count st' = (mutex_count st)(m := 0)
    \<and> sched_inv T qs' (msched st') \<and> waiters T m [] (mlinks st') \<and> dlist (mlinks st') (mutex_get k) (xs @ ys)
    \<and> tasks (msched st') = (\<lambda>t. if t \<in> set ws then woken (tasks (msched st) t) else tasks (msched st) t)"
proof -
  let ?N = "sched_nodes T (msched st)" and ?st = "st\<lparr>mutex_count := (mutex_count st)(m := 0)\<rparr>"
  let ?own = "set (mutex_get k # xs @ mutex_task m # ys)"
  have ms: "msched ?st = msched st" by simp
  obtain qs' st1 where l: "unlock_loop m (hd (map wait_node ws @ [mutex_wait m])) ?st = Some st1"
    "sched_inv T qs' (msched st1)" "waiters T m [] (mlinks st1)" "mutex_count st1 = (mutex_count st)(m := 0)"
    "tasks (msched st1) = (\<lambda>t. if t \<in> set ws then woken (tasks (msched st) t) else tasks (msched st) t)"
    "same_rest (msched st) (msched st1)"
    "same_links (- (?N \<union> insert (mutex_wait m) (wait_node ` set ws))) (mlinks st) (mlinks st1)"
    using unlock_loop_all [of T qs ?st m ws, unfolded ms, OF assms(1-4)] by auto
  have ws: "set ws \<subseteq> T" "lnext (mlinks st) (mutex_wait m) = hd (map wait_node ws @ [mutex_wait m])"
    using assms(3) seg_next by (auto simp: waiters_def dlist_def)
  have own: "?own \<subseteq> - (?N \<union> insert (mutex_wait m) (wait_node ` set ws))" using assms(8) image_mono [OF ws(1), of wait_node] by blast
  then have d: "dlist (mlinks st1) (mutex_get k) (xs @ mutex_task m # ys)"
    using dlist_same_links [OF assms(7) l(7)] by simp
  then have ne: "\<not> is_list_empty (mlinks st1) (mutex_task m)"
    by (cases ys) (auto simp: is_list_empty_def dlist_def seg_append)
  let ?h = "list_del (mlinks st1) (mutex_task m)"
  have sl: "same_links (- ?own) (mlinks st1) ?h" using same_links_del [OF d] by simp
  have hN: "sched_nodes T (msched st1) = ?N" using l(6) sched_nodes_heads [of "msched st1" "msched st" T] by (simp add: same_rest_def)
  have "same_links (sched_nodes T (msched st1)) (mlinks st1) ?h"
    by (rule same_links_mono [OF sl]) (use assms(8) hN in auto)
  then have "sched_inv T qs' ((msched st1)\<lparr>task_links := ?h\<rparr>)" by (rule sched_inv_links [OF l(2)])
  moreover have "waiters T m [] ?h"
    using l(3) dlist_same_links [OF _ sl, of "mutex_wait m" "[]"] assms(8) by (simp add: waiters_def)
  moreover have "dlist ?h (mutex_get k) (xs @ ys)" by (rule klist.del_rep [OF d])
  moreover have "mutex_unlock m st = Some (upd_links (\<lambda>h. list_del h (mutex_task m)) st1)"
    using assms(5) l(1) ws(2) ne by (simp add: mutex_unlock_def Let_def)
  ultimately show ?thesis using l(4,5)
    by (intro exI [of _ qs'] exI [of _ "upd_links (\<lambda>h. list_del h (mutex_task m)) st1"]) simp
qed

theorem mutex_unlock_wakes_all_witness:
  "\<exists>st'. mutex_unlock lock_m (waited_by_b (two_tasks Sleep (plain_task PROCESS_STATE_SLEEP (-1)))) = Some st'
     \<and> mutex_count st' lock_m = 0 \<and> state (tasks (msched st') task_b) = PROCESS_STATE_PREPARE"
proof -
  let ?k = "plain_task PROCESS_STATE_SLEEP (-1)" and ?T = "{task_a, task_b}"
  let ?st = "waited_by_b (two_tasks Sleep ?k)"
  have k: "valid_queue Sleep" "home ?k = Some Sleep" "state ?k \<in> {PROCESS_STATE_PREPARE, PROCESS_STATE_SLEEP}"
    "0 \<le> prio ?k" "prio ?k < 64" by (simp_all add: plain_task_def home_def)
  note i = locked_system_inv [OF k] and l = locked_system [OF k] and o = lock_nodes_outside [OF k(1), of ?k]
  have N: "sched_nodes ?T (msched ?st) = sched_nodes ?T (two_tasks Sleep ?k)"
    by (rule sched_nodes_heads) (subst msched_locked(3), simp)
  have pr: "\<forall>t \<in> ?T. 0 \<le> prio (tasks (msched ?st) t) \<and> prio (tasks (msched ?st) t) < 64"
    unfolding i(8) by (auto simp: plain_task_def)
  have "set (mutex_get task_a # [] @ mutex_task lock_m # [])
      \<inter> (sched_nodes ?T (msched ?st) \<union> insert (mutex_wait lock_m) (wait_node ` ?T)) = {}"
    unfolding N using o by auto (simp_all add: lock_addrs)
  from mutex_unlock_wakes_all [OF i(3,4,6) pr _ _ _ this] l(5) msched_locked(4)
  obtain st' where st': "mutex_unlock lock_m ?st = Some st'" "mutex_count st' = (mutex_count ?st)(lock_m := 0)"
    "tasks (msched st') = (\<lambda>t. if t \<in> set [task_b] then woken (tasks (msched ?st) t) else tasks (msched ?st) t)" by auto
  then have "state (tasks (msched st') task_b) = PROCESS_STATE_PREPARE" unfolding st'(3) i(8) by (simp add: woken_def plain_task_def)
  then show ?thesis using st' by simp
qed

text \<open>
  C12.  A task that asks for a locked mutex gives up the processor: it joins the end of the
  queue of the mutex and of the sleep list, a ready task of the best priority runs instead,
  and the lists of the scheduler and the queue stay correct.
\<close>

theorem mutex_lock_blocks:
  assumes "sched_inv T qs (msched st)" "lock_layout T m (msched st)" "waiters T m ws (mlinks st)"
    and "current_ok T (msched st)" "schedule_running (msched st)" "\<not> in_interrupt (msched st)" "ready T (msched st) \<noteq> {}"
    and "state (tasks (msched st) (current (msched st))) = PROCESS_STATE_RUNNING" "current (msched st) \<notin> set ws"
    and "mutex_count st m \<noteq> 0" "ms \<noteq> 0"
  shows "\<exists>n qs' st'. mutex_lock_timeout m ms st = Some (Suspended, st') \<and> sched_inv T qs' (msched st')
    \<and> lock_layout T m (msched st') \<and> waiters T m (ws @ [current (msched st)]) (mlinks st') \<and> mutex_count st' = mutex_count st
    \<and> state (tasks (msched st') (current (msched st))) = PROCESS_STATE_SLEEP
    \<and> best T (msched st) n \<and> current (msched st') = n \<and> state (tasks (msched st') n) = PROCESS_STATE_RUNNING"
proof -
  let ?s = "msched st" and ?h = "mlinks st" and ?t = "current (msched st)"
  let ?h1 = "list_add_tail ?h (mutex_wait m) (wait_node ?t)"
  let ?s1 = "?s\<lparr>task_links := ?h1\<rparr>"
  have t: "?t \<in> T" "?t \<noteq> 0" using assms(4) by (simp_all add: current_ok_def)
  have d: "dlist ?h (mutex_wait m) (map wait_node ws)" "set ws \<subseteq> T" using assms(3) by (simp_all add: waiters_def)
  have out: "set (mutex_wait m # wait_node ?t # map wait_node ws) \<subseteq> - sched_nodes T ?s" "wait_node ?t \<noteq> mutex_wait m"
    using assms(2) t(1) d(2) by (auto simp: lock_layout_def)
  have sl: "same_links (sched_nodes T ?s) ?h ?h1"
    by (rule same_links_mono [OF same_links_add_tail [OF d(1)]]) (use out in auto)
  have d1: "dlist ?h1 (mutex_wait m) (map wait_node (ws @ [?t]))"
    using klist.add_tail_rep [OF d(1), of "wait_node ?t"] out(2) assms(9) by (simp add: image_iff)
  have N: "sched_nodes T ?s1 = sched_nodes T ?s" by (rule sched_nodes_heads) simp
  have l1: "lock_layout T m ?s1" by (rule lock_layout_links [OF assms(2) sl])
  have b1: "best T ?s1 n \<longleftrightarrow> best T ?s n" "current_ok T ?s1 \<longleftrightarrow> current_ok T ?s" "ready T ?s1 = ready T ?s" for n
    by (simp_all add: best_def ready_def current_ok_def)
  obtain n qs' s' where s': "suspend_task_timeout ?t ms ?s1 = Some (None, s')" "sched_inv T qs' s'" "sched_frame T ?s1 s'"
    "best T ?s n" "current s' = n" "state (tasks s' ?t) = PROCESS_STATE_SLEEP" "state (tasks s' n) = PROCESS_STATE_RUNNING"
    using suspend_current_step [OF sched_inv_links [OF assms(1) sl], of ms] b1 assms(4-8,11) by fastforce
  have k: "kept (sched_nodes T ?s) ?h1 (task_links s')" "heads s' = heads ?s"
    using s'(3) l1 N by (simp_all add: sched_frame_def lock_layout_def)
  have "waiters T m (ws @ [?t]) (task_links s')"
    using dlist_same_links [OF d1 keptD(2) [OF k(1)]] out(1) d(2) t(1) by (simp add: waiters_def)
  moreover have "lock_layout T m s'" by (rule lock_layout_frame [OF assms(2) k(2) keptD(1) [OF k(1)]])
  moreover have "mutex_lock_timeout m ms st =
      Some (Suspended, (upd_links (\<lambda>h. list_add_tail h (mutex_wait m) (wait_node ?t)) st)\<lparr>msched := s'\<rparr>)"
    using t(2) assms(10) s'(1) by (simp add: mutex_lock_timeout_def) (subst lock_loop.simps, simp add: Let_def)
  ultimately show ?thesis using s'(2,4-7)
    by (intro exI [of _ n] exI [of _ qs'] exI [of _ "(upd_links (\<lambda>h. list_add_tail h (mutex_wait m) (wait_node ?t)) st)\<lparr>msched := s'\<rparr>"]) simp
qed

theorem mutex_lock_blocks_witness:
  "\<exists>st'. mutex_lock_timeout lock_m (-1) (locked_by_a (two_tasks (Prio 20) (plain_task PROCESS_STATE_PREPARE (-1)))) = Some (Suspended, st')
     \<and> current (msched st') = task_b \<and> state (tasks (msched st') task_a) = PROCESS_STATE_SLEEP"
proof -
  let ?k = "plain_task PROCESS_STATE_PREPARE (-1)" and ?T = "{task_a, task_b}"
  let ?s = "two_tasks (Prio 20) ?k"
  have k: "valid_queue (Prio 20)" "home ?k = Some (Prio 20)" "state ?k \<in> {PROCESS_STATE_PREPARE, PROCESS_STATE_SLEEP}"
    "0 \<le> prio ?k" "prio ?k < 64" by (simp_all add: plain_task_def home_def)
  note i = locked_system_inv [OF k] and j = two_tasks_inv [OF k]
  have ab: "task_a \<noteq> task_b" "task_a \<noteq> 0" by (simp_all add: task_a_def task_b_def)
  have cur: "current (msched (locked_by_a ?s)) = task_a" "schedule_running (msched (locked_by_a ?s))"
    "\<not> in_interrupt (msched (locked_by_a ?s))" using j(3-5) by (simp_all add: locked_by_a_def)
  have r: "ready ?T (msched (locked_by_a ?s)) = {task_b}" unfolding ready_def i(7) using ab by (auto simp: plain_task_def)
  moreover have "current_ok ?T (msched (locked_by_a ?s))" unfolding current_ok_def i(7) cur using ab by (auto simp: plain_task_def)
  moreover have "state (tasks (msched (locked_by_a ?s)) task_a) = PROCESS_STATE_RUNNING"
    unfolding i(7) using ab by (simp add: plain_task_def)
  ultimately show ?thesis using mutex_lock_blocks [OF i(1,2,5), of "-1"] cur msched_locked(2) [of ?s] by (auto simp: best_def)
qed

text \<open>
  C8.  Mutual exclusion: in every state a kernel reaches that unlocks a mutex only in the
  task that holds it, at most one task holds the mutex, and the count tells whether one does.
\<close>

theorem mutex_exclusive:
  assumes "lock_reach m st H"
  shows "if mutex_count st m = 0 then H = {} else mutex_count st m = 1 \<and> (\<exists>t. H = {t})"
  using lock_reach_ok [OF assms] by (simp add: holders_ok_def)

theorem mutex_exclusive_witness:
  "\<exists>st H. lock_reach lock_m st H \<and> mutex_count st lock_m = 1 \<and> (\<exists>t. H = {t})"
proof -
  let ?st = "init_mutex lock_m \<lparr>mutex_count = (\<lambda>_. 0), msched = two_tasks Sleep (plain_task PROCESS_STATE_SLEEP (-1))\<rparr>"
  have c: "current (msched ?st) \<noteq> 0" "mutex_count ?st lock_m = 0"
    by (simp_all add: init_mutex_def two_tasks_def no_tasks_def task_a_def sched_list_add_task_tail_def upd_list_def)
  obtain st' where st': "mutex_lock_timeout lock_m (-1) ?st = Some (Returned 0, st')" "mutex_count st' lock_m = 1"
    using c lock_loop_free [OF c(2)] by (simp add: mutex_lock_timeout_def)
  have "lock_reach lock_m st' {current (msched ?st)}" using lock_reach.call [OF lock_reach.start c(1) st'(1)] by simp
  then show ?thesis using mutex_exclusive [of lock_m st'] st'(2) by fastforce
qed

text \<open>
  C36.  A timeout that coincides with an unlock loses the other waiters.  A waiter whose time
  runs out stays in the queue until it runs again; if the mutex is unlocked before that, the
  waiter is taken off the queue twice, and the second time with the stale links of its
  node: every task that has queued up in between is dropped from the queue, and the unlock
  that should wake it finds the queue empty.
\<close>

theorem mutex_timeout_drops_waiters:
  assumes "sched_inv T qs (msched st)" "lock_layout T m (msched st)" "waiters T m [t] (mlinks st)"
    and "\<forall>t \<in> T. 0 \<le> prio (tasks (msched st) t) \<and> prio (tasks (msched st) t) < 64"
    and "unlock_loop m (lnext (mlinks st) (mutex_wait m)) st = Some st1"
    and "same_links {wait_node t} (mlinks st1) (mlinks st2)" "waiters T m ws (mlinks st2)" "t \<notin> set ws"
    and "time_out (tasks (msched st2) t) \<noteq> 0"
  shows "\<exists>st3. mutex_resume m ms t st2 = Some (Returned (- ETIMEDOUT), st3) \<and> waiters T m [] (mlinks st3)
    \<and> unlock_loop m (lnext (mlinks st3) (mutex_wait m)) st3 = Some st3"
proof -
  have d: "dlist (mlinks st) (mutex_wait m) [wait_node t]" using assms(3) by (simp add: waiters_def)
  then have "lnext (mlinks st) (mutex_wait m) = wait_node t" by (simp add: dlist_def)
  then have "same_links {wait_node t} (mlinks st) (mlinks st1)" using unlock_loop_all [OF assms(1-4)] assms(5) by auto
  then have l: "lnext (mlinks st2) (wait_node t) = mutex_wait m" "lpre (mlinks st2) (wait_node t) = mutex_wait m"
    "wait_node t \<noteq> mutex_wait m"
    using d assms(6) by (auto simp: same_links_def dlist_def)
  then have e: "dlist (list_del (mlinks st2) (wait_node t)) (mutex_wait m) []" by (simp add: dlist_def list_del_def Let_def)
  let ?st3 = "upd_links (\<lambda>h. list_del h (wait_node t)) st2"
  have "mutex_resume m ms t st2 = Some (Returned (- ETIMEDOUT), ?st3)"
    using assms(9) by (simp add: mutex_resume_def suspend_result_def)
  moreover have "unlock_loop m (lnext (mlinks ?st3) (mutex_wait m)) ?st3 = Some ?st3"
    using e by (subst unlock_loop.simps) (simp add: dlist_def)
  ultimately show ?thesis using e by (auto simp: waiters_def)
qed

theorem mutex_timeout_drops_waiters_witness:
  "\<exists>st1 st2 st3. unlock_loop lock_m (wait_node task_b) (waited_by_b (two_tasks (Prio 20) (plain_task PROCESS_STATE_PREPARE 0))) = Some st1
     \<and> waiters {task_a, task_b} lock_m [task_a] (mlinks st2)
     \<and> mutex_resume lock_m 5 task_b st2 = Some (Returned (- ETIMEDOUT), st3) \<and> waiters {task_a, task_b} lock_m [] (mlinks st3)"
proof -
  let ?k = "plain_task PROCESS_STATE_PREPARE 0" and ?T = "{task_a, task_b}"
  let ?st = "waited_by_b (two_tasks (Prio 20) ?k)"
  have k: "valid_queue (Prio 20)" "home ?k = Some (Prio 20)" "state ?k \<in> {PROCESS_STATE_PREPARE, PROCESS_STATE_SLEEP}"
    "0 \<le> prio ?k" "prio ?k < 64" by (simp_all add: plain_task_def home_def)
  note i = locked_system_inv [OF k]
  have pr: "\<forall>t \<in> ?T. 0 \<le> prio (tasks (msched ?st) t) \<and> prio (tasks (msched ?st) t) < 64"
    unfolding i(8) by (auto simp: plain_task_def)
  have nx: "lnext (mlinks ?st) (mutex_wait lock_m) = wait_node task_b" using i(6) by (simp add: waiters_def dlist_def)
  obtain st1 where st1: "unlock_loop lock_m (wait_node task_b) ?st = Some st1" "waiters ?T lock_m [] (mlinks st1)"
    using unlock_loop_all [OF i(3,4,6) pr] by auto
  let ?st2 = "upd_links (\<lambda>h. list_add_tail h (mutex_wait lock_m) (wait_node task_a))
    (st1\<lparr>msched := upd_task task_b (\<lambda>k. k\<lparr>time_out := 1\<rparr>) (msched st1)\<rparr>)"
  have d: "dlist (mlinks st1) (mutex_wait lock_m) []" using st1(2) by (simp add: waiters_def)
  have "waiters ?T lock_m [task_a] (mlinks ?st2)"
    using klist.add_tail_rep [OF d, of "wait_node task_a"] by (simp add: waiters_def) (simp add: lock_addrs)
  moreover have "same_links {wait_node task_b} (mlinks st1) (mlinks ?st2)"
    using same_links_mono [OF same_links_add_tail [OF d, of "wait_node task_a"], of "{wait_node task_b}"]
    by (simp add: lock_addrs)
  moreover have "task_b \<notin> set [task_a]" "time_out (tasks (msched ?st2) task_b) \<noteq> 0" by (simp_all add: task_a_def task_b_def)
  moreover from this obtain st3 where "mutex_resume lock_m 5 task_b ?st2 = Some (Returned (- ETIMEDOUT), st3)"
    "waiters ?T lock_m [] (mlinks st3)"
    using mutex_timeout_drops_waiters [OF i(3,4,6) pr, of st1 ?st2 "[task_a]" 5] st1(1) nx calculation(1,2) by auto
  ultimately show ?thesis using st1(1) by blast
qed

end
