(* ===== verification/Slab.thy ===== *)
theory Slab
  imports Mm Kstring "HOL-Library.Multiset"
begin

text \<open>
  mm/slab.c: the kernel's small-block allocator.  A block is an 8-byte header followed by
  its payload; the header holds the payload size and, in one word, the magic number of a
  block in use or the link to the next block of a free one.  Freed blocks are kept in
  33 pools by size, new ones are cut off the rest of the current page.

  The header words are a store of their own, at the addresses the headers have; the union
  of magic number and link is one word of it.  The mutex of the allocator is represented:
  taking it while it is held is a call that does not return (\<^const>\<open>None\<close>), and before
  there is a current task it is not taken at all, as in kernel/mutex.c.
\<close>

section \<open>State\<close>

abbreviation (input) SLAB_CACHE_SIZE :: int where "SLAB_CACHE_SIZE \<equiv> 0x100000"
abbreviation (input) SLAB_HEADER_SIZE :: u32 where "SLAB_HEADER_SIZE \<equiv> 8"
abbreviation (input) SLAB_MAGIC :: u32 where "SLAB_MAGIC \<equiv> 0x1234abcd"
abbreviation (input) GFP_SLAB :: u32 where "GFP_SLAB \<equiv> 0x00000401"

record slab_pool =
  pool_size :: int
  pool_head :: addr
  pool_count :: int

record slab =
  slab_plist :: addr
  pool :: "slab_pool list"
  slab_mutex :: bool
  pool_nr :: int
  slab_free :: u32
  free_size :: int
  alloc_size :: int
  alloc_pages :: int

record slab_state =
  pslab :: slab
  headers :: word_mem
  payload :: byte_mem
  mm :: mm_state
  has_current :: bool

definition slab_pool_table :: "slab_pool list" where
  "slab_pool_table =
     map (\<lambda>i. \<lparr>pool_size = 16 * (int i + 1), pool_head = 0, pool_count = 0\<rparr>) [0..<32]
     @ [\<lparr>pool_size = 0, pool_head = 0, pool_count = 0\<rparr>]"

text \<open>The header at an address: its size field, its second word.\<close>

definition hdr_size :: "slab_state \<Rightarrow> addr \<Rightarrow> int" where
  "hdr_size st h = sint (headers st h)"

definition hdr_next :: "slab_state \<Rightarrow> addr \<Rightarrow> u32" where
  "hdr_next st h = headers st (h + 4)"

definition set_hdr_size :: "addr \<Rightarrow> int \<Rightarrow> slab_state \<Rightarrow> slab_state" where
  "set_hdr_size h n st = st\<lparr>headers := (headers st)(h := word_of_int n)\<rparr>"

definition set_hdr_next :: "addr \<Rightarrow> u32 \<Rightarrow> slab_state \<Rightarrow> slab_state" where
  "set_hdr_next h n st = st\<lparr>headers := (headers st)(h + 4 := n)\<rparr>"

definition upd_slab :: "(slab \<Rightarrow> slab) \<Rightarrow> slab_state \<Rightarrow> slab_state" where
  "upd_slab f st = st\<lparr>pslab := f (pslab st)\<rparr>"

definition set_pool_head :: "int \<Rightarrow> addr \<Rightarrow> slab_state \<Rightarrow> slab_state" where
  "set_pool_head i h =
     upd_slab (\<lambda>s. s\<lparr>pool := (pool s)[nat i := (pool s ! nat i)\<lparr>pool_head := h\<rparr>]\<rparr>)"

section \<open>Operations\<close>

definition slab_lock :: "slab_state \<Rightarrow> slab_state option" where
  "slab_lock st =
     (if \<not> has_current st then Some st
      else if slab_mutex (pslab st) then None
      else Some (upd_slab (\<lambda>s. s\<lparr>slab_mutex := True\<rparr>) st))"

definition slab_unlock :: "slab_state \<Rightarrow> slab_state" where
  "slab_unlock st = upd_slab (\<lambda>s. s\<lparr>slab_mutex := False\<rparr>) st"

definition SLAB_SIZE :: "int \<Rightarrow> u32" where
  "SLAB_SIZE sz = word_of_int sz + SLAB_HEADER_SIZE"

definition header_to_base :: "addr \<Rightarrow> addr" where
  "header_to_base h = h + SLAB_HEADER_SIZE"

definition base_to_header :: "addr \<Rightarrow> addr" where
  "base_to_header base = base - SLAB_HEADER_SIZE"

definition min_slab :: "slab_state \<Rightarrow> int" where
  "min_slab st = pool_size (pool (pslab st) ! 0)"

definition get_slab_alloc_size :: "int \<Rightarrow> slab_state \<Rightarrow> int" where
  "get_slab_alloc_size sz st = align sz (min_slab st)"

text \<open>A negative size has a negative identifier with either rounding of the division.\<close>

definition slab_pool_id :: "int \<Rightarrow> slab_state \<Rightarrow> int" where
  "slab_pool_id sz st =
     (let i = sz div min_slab st - 1 in
      if i \<ge> pool_nr (pslab st) then pool_nr (pslab st) - 1 else i)"

text \<open>The entry of the pool table, if the index is one of the table.\<close>

definition pool_at :: "int \<Rightarrow> slab_state \<Rightarrow> slab_pool option" where
  "pool_at i st = (if 0 \<le> i \<and> nat i < length (pool (pslab st)) then Some (pool (pslab st) ! nat i) else None)"

text \<open>On failure the mutex stays locked.\<close>

definition alloc_new_slab_cache :: "int \<Rightarrow> slab_state \<Rightarrow> (int \<times> slab_state) option" where
  "alloc_new_slab_cache sz st =
     (let nr = page_nr sz in
      Option.bind (slab_lock st) (\<lambda>st.
        Option.bind (request_pages nr GFP_SLAB (mm st)) (\<lambda>(pg, ms).
          let st = st\<lparr>mm := ms\<rparr> in
          if pg = 0 then Some (- ENOMEM, st)
          else
            let st = st\<lparr>mm := add_page_to_list_tail pg (slab_plist (pslab st)) (mm st)\<rparr>;
                st = upd_slab (\<lambda>s. s\<lparr>free_size := push_bit 12 nr, alloc_size := alloc_size s + push_bit 12 nr,
                                      alloc_pages := alloc_pages s + nr, slab_free := page_to_va (mm st) pg\<rparr>) st
            in Some (0, slab_unlock st))))"

definition get_slab_from_slab_pool :: "int \<Rightarrow> slab_state \<Rightarrow> addr \<times> slab_state" where
  "get_slab_from_slab_pool i st =
     (let h = pool_head (pool (pslab st) ! nat i);
          st = set_pool_head i (hdr_next st h) st
      in (h, set_hdr_next h SLAB_MAGIC st))"

definition add_slab_to_slab_pool :: "addr \<Rightarrow> int \<Rightarrow> slab_state \<Rightarrow> slab_state" where
  "add_slab_to_slab_pool h i st =
     set_pool_head i h (set_hdr_next h (pool_head (pool (pslab st) ! nat i)) st)"

definition get_slab_from_pool :: "int \<Rightarrow> u32 \<Rightarrow> slab_state \<Rightarrow> (addr \<times> slab_state) option" where
  "get_slab_from_pool sz fl st =
     (let i = slab_pool_id sz st in
      Option.bind (slab_lock st) (\<lambda>st.
        Option.bind (pool_at i st) (\<lambda>p.
          if pool_head p = 0 then Some (0, slab_unlock st)
          else let (h, st) = get_slab_from_slab_pool i st in Some (header_to_base h, slab_unlock st))))"

definition get_slab_from_slab_free :: "int \<Rightarrow> u32 \<Rightarrow> slab_state \<Rightarrow> (addr \<times> slab_state) option" where
  "get_slab_from_slab_free sz fl st =
     Option.bind (slab_lock st) (\<lambda>st.
       let h = slab_free (pslab st) in
       if (word_of_int (free_size (pslab st)) :: u32) < SLAB_SIZE sz then Some (0, slab_unlock st)
       else
         let st = set_hdr_next h SLAB_MAGIC (set_hdr_size h sz st);
             st = upd_slab (\<lambda>s. s\<lparr>slab_free := slab_free s + SLAB_SIZE sz,
                                  free_size := sint (word_of_int (free_size s) - SLAB_SIZE sz)\<rparr>) st;
             st = (if (word_of_int (free_size (pslab st)) :: u32) < SLAB_SIZE (min_slab st)
                   then upd_slab (\<lambda>s. s\<lparr>slab_free := 0, free_size := 0\<rparr>)
                          (set_hdr_size h (hdr_size st h + free_size (pslab st)) st)
                   else st)
         in Some (header_to_base h, slab_unlock st))"

text \<open>The rest of the current page goes to the pool of its size.\<close>

definition retire_slab_free :: "slab_state \<Rightarrow> slab_state option" where
  "retire_slab_free st =
     (let fs = (word_of_int (free_size (pslab st)) :: u32) in
      if fs \<ge> SLAB_SIZE (min_slab st) then
        let i = slab_pool_id (sint (fs - SLAB_HEADER_SIZE)) st;
            h = slab_free (pslab st)
        in map_option (\<lambda>_.
             upd_slab (\<lambda>s. s\<lparr>free_size := 0, slab_free := 0\<rparr>)
               (add_slab_to_slab_pool h i
                 (set_hdr_next h SLAB_MAGIC (set_hdr_size h (sint (fs - SLAB_HEADER_SIZE)) st))))
             (pool_at i st)
      else Some st)"

definition get_new_slab_internal :: "int \<Rightarrow> u32 \<Rightarrow> slab_state \<Rightarrow> (addr \<times> slab_state) option" where
  "get_new_slab_internal sz fl st =
     Option.bind (slab_lock st) (\<lambda>st.
       Option.bind (retire_slab_free st) (\<lambda>st.
         Option.bind (alloc_new_slab_cache 4096 (slab_unlock st)) (\<lambda>(ret, st).
           if ret \<noteq> 0 then Some (0, st) else get_slab_from_slab_free sz fl st)))"

definition get_new_slab :: "int \<Rightarrow> u32 \<Rightarrow> slab_state \<Rightarrow> (addr \<times> slab_state) option" where
  "get_new_slab sz fl st =
     (if fl = GFP_DMA \<or> fl = GFP_RES \<or> sz \<ge> 4096
      then map_option (\<lambda>(va, ms). (va, st\<lparr>mm := ms\<rparr>)) (get_free_pages (page_nr sz) fl (mm st))
      else get_new_slab_internal sz fl st)"

function big_slab_loop :: "int \<Rightarrow> slab_state \<Rightarrow> (addr \<times> slab_state) option" where
  "big_slab_loop i st =
     (case pool_at i st of
        None \<Rightarrow> None
      | Some p \<Rightarrow>
          if pool_head p = 0 then
            if i + 1 = pool_nr (pslab st) then Some (0, slab_unlock st) else big_slab_loop (i + 1) st
          else
            let (h, st) = get_slab_from_slab_pool i st in Some (header_to_base h, slab_unlock st))"
  by pat_completeness auto

termination
  by (relation "measure (\<lambda>(i, st). length (pool (pslab st)) - nat i)")
    (auto simp: pool_at_def split: if_splits)

definition get_big_slab :: "int \<Rightarrow> u32 \<Rightarrow> slab_state \<Rightarrow> (addr \<times> slab_state) option" where
  "get_big_slab sz fl st = Option.bind (slab_lock st) (big_slab_loop (slab_pool_id sz st))"

fun alloc_loop ::
  "(int \<Rightarrow> u32 \<Rightarrow> slab_state \<Rightarrow> (addr \<times> slab_state) option) list \<Rightarrow> int \<Rightarrow> u32 \<Rightarrow> slab_state
   \<Rightarrow> (addr \<times> slab_state) option" where
  "alloc_loop [] sz fl st = Some (0, st)"
| "alloc_loop (f # fs) sz fl st =
     Option.bind (f sz fl st) (\<lambda>(ret, st). if ret \<noteq> 0 then Some (ret, st) else alloc_loop fs sz fl st)"

definition kmalloc_internal :: "int \<Rightarrow> u32 \<Rightarrow> slab_state \<Rightarrow> (addr \<times> slab_state) option" where
  "kmalloc_internal sz fl st =
     (if fl AND GFP_USER \<noteq> 0 then Some (0, st)
      else
        let sz = get_slab_alloc_size sz st in
        if fl \<noteq> GFP_KERNEL \<or> sz \<ge> 4096 then get_new_slab sz fl st
        else alloc_loop [get_slab_from_pool, get_slab_from_slab_free, get_new_slab, get_big_slab] sz fl st)"

definition kmalloc :: "int \<Rightarrow> u32 \<Rightarrow> slab_state \<Rightarrow> (addr \<times> slab_state) option" where
  "kmalloc sz fl st =
     (if sz \<le> 0 then Some (0, st)
      else if fl \<noteq> GFP_KERNEL \<and> fl \<noteq> GFP_DMA \<and> fl \<noteq> GFP_RES then Some (0, st)
      else kmalloc_internal sz fl st)"

text \<open>The result is cleared without a test for null.\<close>

definition kzalloc :: "int \<Rightarrow> u32 \<Rightarrow> slab_state \<Rightarrow> (addr \<times> slab_state) option" where
  "kzalloc sz fl st =
     Option.bind (kmalloc sz fl st) (\<lambda>(ret, st).
       if ret = 0 \<and> sz > 0 then None else Some (ret, st\<lparr>payload := memset (payload st) ret 0 sz\<rparr>))"

definition kfree :: "addr \<Rightarrow> slab_state \<Rightarrow> slab_state option" where
  "kfree a st =
     (if a = 0 then Some st
      else
        Option.bind (slab_lock st) (\<lambda>st.
          let h = base_to_header a in
          if hdr_next st h \<noteq> SLAB_MAGIC
          then map_option (\<lambda>ms. slab_unlock (st\<lparr>mm := ms\<rparr>)) (free_pages a (mm st))
          else
            let i = slab_pool_id (hdr_size st h) st in
            map_option (\<lambda>_. slab_unlock (add_slab_to_slab_pool h i st)) (pool_at i st)))"

definition slab_init :: "addr \<Rightarrow> slab_state \<Rightarrow> (int \<times> slab_state) option" where
  "slab_init plist st =
     alloc_new_slab_cache SLAB_CACHE_SIZE
       (st\<lparr>pslab := \<lparr>slab_plist = plist, pool = slab_pool_table, slab_mutex = False, pool_nr = 33, slab_free = 0,
                     free_size = 0, alloc_size = 0, alloc_pages = 0\<rparr>,
           mm := (mm st)\<lparr>links := init_list (links (mm st)) plist\<rparr>\<rparr>)"

section \<open>Well-formed allocator states\<close>

text \<open>
  \<open>fl\<close> are the blocks in the pools, pool by pool, and \<open>used\<close> the blocks handed out, all
  named by their headers.  Every block lies in the address space, no two overlap, and none
  overlaps the rest of the current page.
\<close>

definition slab_class :: "int \<Rightarrow> int" where
  "slab_class sz = (let i = sz div 16 - 1 in if i \<ge> 33 then 32 else i)"

fun chain :: "word_mem \<Rightarrow> addr \<Rightarrow> addr list \<Rightarrow> bool" where
  "chain m a [] \<longleftrightarrow> a = 0"
| "chain m a (x # xs) \<longleftrightarrow> a = x \<and> x \<noteq> 0 \<and> chain m (m (x + 4)) xs"

definition blk :: "word_mem \<Rightarrow> addr \<Rightarrow> bool" where
  "blk m h \<longleftrightarrow> h \<noteq> 0 \<and> 16 \<le> sint (m h) \<and> uint h + 8 + sint (m h) \<le> 2 ^ 32"

definition span :: "word_mem \<Rightarrow> addr \<Rightarrow> int set" where
  "span m h = {uint h ..< uint h + 8 + sint (m h)}"

definition blocks_ok :: "word_mem \<Rightarrow> addr list \<Rightarrow> bool" where
  "blocks_ok m hs \<longleftrightarrow> distinct hs \<and> (\<forall>h \<in> set hs. blk m h)
     \<and> (\<forall>a \<in> set hs. \<forall>b \<in> set hs. a \<noteq> b \<longrightarrow> span m a \<inter> span m b = {})"

definition free_tail :: "slab_state \<Rightarrow> int set" where
  "free_tail st = {uint (slab_free (pslab st)) ..< uint (slab_free (pslab st)) + free_size (pslab st)}"

definition tail_ok :: "slab_state \<Rightarrow> addr list \<Rightarrow> bool" where
  "tail_ok st hs \<longleftrightarrow> 0 \<le> free_size (pslab st) \<and> free_size (pslab st) < 2 ^ 31
     \<and> uint (slab_free (pslab st)) + free_size (pslab st) \<le> 2 ^ 32
     \<and> (free_size (pslab st) = 0 \<or> slab_free (pslab st) \<noteq> 0)
     \<and> (\<forall>h \<in> set hs. span (headers st) h \<inter> free_tail st = {})"

definition pools_ok :: "addr list list \<Rightarrow> slab_state \<Rightarrow> bool" where
  "pools_ok fl st \<longleftrightarrow> length (pool (pslab st)) = 33 \<and> pool_nr (pslab st) = 33 \<and> min_slab st = 16 \<and> length fl = 33
     \<and> (\<forall>i < 33. chain (headers st) (pool_head (pool (pslab st) ! i)) (fl ! i))
     \<and> (\<forall>i < 33. \<forall>h \<in> set (fl ! i). slab_class (hdr_size st h) = int i)"

definition slab_wf :: "addr list list \<Rightarrow> addr list \<Rightarrow> slab_state \<Rightarrow> bool" where
  "slab_wf fl used st \<longleftrightarrow> pools_ok fl st \<and> (\<forall>h \<in> set used. hdr_next st h = SLAB_MAGIC)
     \<and> blocks_ok (headers st) (concat fl @ used) \<and> tail_ok st (concat fl @ used)"

text \<open>The memory the allocator manages; it stays within what it has obtained (\<open>owned\<close>).\<close>

definition extent :: "addr list list \<Rightarrow> addr list \<Rightarrow> slab_state \<Rightarrow> int set" where
  "extent fl used st = (\<Union>h \<in> set (concat fl @ used). span (headers st) h) \<union> free_tail st"

definition slab_inv :: "int set \<Rightarrow> addr list \<Rightarrow> slab_state \<Rightarrow> bool" where
  "slab_inv owned used st \<longleftrightarrow> (\<exists>fl. slab_wf fl used st \<and> extent fl used st \<subseteq> owned)"

lemma mset_concat_update:
  "i < length fl \<Longrightarrow> mset (concat (fl[i := ys])) + mset (fl ! i) = mset (concat fl) + mset ys"
proof (induction fl arbitrary: i)
  case (Cons x fl)
  then show ?case by (cases i) (auto simp: ac_simps)
qed simp

lemma blocks_ok_mset: "mset hs = mset hs' \<Longrightarrow> blocks_ok m hs = blocks_ok m hs'"
  unfolding blocks_ok_def using mset_eq_setD [of hs hs'] mset_eq_imp_distinct_iff [of hs hs'] by auto

lemma tail_ok_mset: "mset hs = mset hs' \<Longrightarrow> tail_ok st hs = tail_ok st hs'"
  unfolding tail_ok_def using mset_eq_setD [of hs hs'] by auto

lemma span_cong: "m' h = m h \<Longrightarrow> span m' h = span m h"
  by (simp add: span_def)

lemma blocks_ok_cong: "\<forall>h \<in> set hs. m' h = m h \<Longrightarrow> blocks_ok m' hs = blocks_ok m hs"
  by (simp add: blocks_ok_def blk_def span_def)

lemma chain_cong: "chain m a xs \<Longrightarrow> \<forall>x \<in> set xs. m' (x + 4) = m (x + 4) \<Longrightarrow> chain m' a xs"
  by (induction xs arbitrary: a) auto

lemma uint_plus_small:
  fixes h :: u32
  assumes "uint h + n < 2 ^ 32" "0 \<le> n"
  shows "uint (h + word_of_int n) = uint h + n"
proof -
  have "uint (word_of_int n :: u32) = n" using assms uint_ge_0 [of h] by (intro uint_word_of_int_u32) linarith+
  then show ?thesis using assms by (simp add: uint_plus_if')
qed

text \<open>The two header words of a block are two words of its span.\<close>

lemma header_words:
  assumes "blk m h"
  shows "uint h \<in> span m h" "uint (h + 4) \<in> span m h" "uint (h + 8) = uint h + 8" "h + 8 \<noteq> 0" "h + 4 \<noteq> h"
proof -
  have "16 \<le> sint (m h)" "uint h + 8 + sint (m h) \<le> 2 ^ 32" using assms by (simp_all add: blk_def)
  moreover from this have "uint (h + 4) = uint h + 4" "uint (h + 8) = uint h + 8"
    using uint_plus_small [of h 4] uint_plus_small [of h 8] by simp_all
  ultimately show "uint h \<in> span m h" "uint (h + 4) \<in> span m h" "uint (h + 8) = uint h + 8" by (simp_all add: span_def)
  from this have "uint (h + 8) \<noteq> 0" using uint_ge_0 [of h] by linarith
  then show "h + 8 \<noteq> 0" by auto
  show "h + 4 \<noteq> h" by simp
qed

lemma words_apart:
  assumes "blk m a" "uint x \<notin> span m a"
  shows "a \<noteq> x" "a + 4 \<noteq> x"
  using header_words [OF assms(1)] assms(2) by auto

lemma blocks_apart:
  assumes "blocks_ok m hs" "a \<in> set hs" "b \<in> set hs" "a \<noteq> b"
  shows "a + 4 \<noteq> b" "a + 4 \<noteq> b + 4" "a \<noteq> b + 4"
proof -
  have a: "blk m a" and b: "blk m b" and d: "span m a \<inter> span m b = {}" using assms by (auto simp: blocks_ok_def)
  have "uint b \<notin> span m a" "uint (b + 4) \<notin> span m a" using header_words(1,2) [OF b] d by auto
  then show "a + 4 \<noteq> b" "a + 4 \<noteq> b + 4" "a \<noteq> b + 4" using words_apart [OF a] by auto
qed

section \<open>Effect of the operations on the invariant\<close>

lemma state_simps [simp]:
  "pslab (set_hdr_next h n st) = pslab st" "pslab (set_hdr_size h k st) = pslab st"
  "headers (set_hdr_next h n st) = (headers st)(h + 4 := n)"
  "headers (set_hdr_size h k st) = (headers st)(h := word_of_int k)"
  "pslab (upd_slab f st) = f (pslab st)" "headers (upd_slab f st) = headers st"
  "mm (upd_slab f st) = mm st" "mm (set_hdr_next h n st) = mm st" "mm (set_hdr_size h k st) = mm st"
  "has_current (upd_slab f st) = has_current st" "has_current (set_hdr_next h n st) = has_current st"
  "has_current (set_hdr_size h k st) = has_current st"
  by (simp_all add: set_hdr_next_def set_hdr_size_def upd_slab_def)

lemma set_pool_head_simps [simp]:
  "headers (set_pool_head i h st) = headers st" "mm (set_pool_head i h st) = mm st"
  "has_current (set_pool_head i h st) = has_current st"
  "pool_nr (pslab (set_pool_head i h st)) = pool_nr (pslab st)"
  "slab_free (pslab (set_pool_head i h st)) = slab_free (pslab st)"
  "free_size (pslab (set_pool_head i h st)) = free_size (pslab st)"
  "slab_mutex (pslab (set_pool_head i h st)) = slab_mutex (pslab st)"
  "length (pool (pslab (set_pool_head i h st))) = length (pool (pslab st))"
  "min_slab (set_pool_head i h st) = min_slab st"
  by (simp_all add: set_pool_head_def min_slab_def nth_list_update_any)

lemma pool_head_set_pool_head [simp]:
  "nat i < length (pool (pslab st)) \<Longrightarrow>
   pool_head (pool (pslab (set_pool_head i h st)) ! j) = (if j = nat i then h else pool_head (pool (pslab st) ! j))"
  by (simp add: set_pool_head_def nth_list_update_any)

lemma min_slab_simps [simp]:
  "min_slab (set_hdr_next h n st) = min_slab st" "min_slab (set_hdr_size h k st) = min_slab st"
  by (simp_all add: min_slab_def)

lemma slab_pool_id_class: "pools_ok fl st \<Longrightarrow> slab_pool_id sz st = slab_class sz"
  by (simp add: pools_ok_def slab_pool_id_def slab_class_def Let_def)

lemma slab_class_range: "16 \<le> sz \<Longrightarrow> 0 \<le> slab_class sz \<and> slab_class sz < 33"
  by (auto simp: slab_class_def Let_def)

text \<open>
  A change of the header words that keeps the size words, and the links of every pool but
  one, keeps the rest of the invariant.
\<close>

lemma slab_wf_move:
  assumes wf: "slab_wf fl used st" and i: "i < 33"
    and ms: "mset (concat (fl[i := ys]) @ used') = mset (concat fl @ used)"
    and sz: "\<forall>h \<in> set (concat fl @ used). headers st' h = headers st h"
    and nx: "\<forall>j < 33. j \<noteq> i \<longrightarrow> (\<forall>h \<in> set (fl ! j). headers st' (h + 4) = headers st (h + 4))"
    and hd: "\<forall>j < 33. j \<noteq> i \<longrightarrow> pool_head (pool (pslab st') ! j) = pool_head (pool (pslab st) ! j)"
    and ch: "chain (headers st') (pool_head (pool (pslab st') ! i)) ys"
    and cl: "\<forall>h \<in> set ys. slab_class (hdr_size st h) = int i"
    and mg: "\<forall>h \<in> set used'. hdr_next st' h = SLAB_MAGIC"
    and fr: "length (pool (pslab st')) = 33" "pool_nr (pslab st') = 33" "min_slab st' = 16"
      "slab_free (pslab st') = slab_free (pslab st)" "free_size (pslab st') = free_size (pslab st)"
  shows "slab_wf (fl[i := ys]) used' st' \<and> extent (fl[i := ys]) used' st' = extent fl used st"
proof -
  let ?hs = "concat fl @ used"
  have p: "pools_ok fl st" and b: "blocks_ok (headers st) ?hs" and t: "tail_ok st ?hs"
    using wf by (simp_all add: slab_wf_def)
  have len: "length fl = 33" using p by (simp add: pools_ok_def)
  have st: "set (concat (fl[i := ys]) @ used') = set ?hs" using ms by (rule mset_eq_setD)
  have sub: "h \<in> set ?hs" if "h \<in> set ((fl[i := ys]) ! j)" "j < 33" for h j
  proof -
    have "(fl[i := ys]) ! j \<in> set (fl[i := ys])" using that(2) len by (intro nth_mem) simp
    then have "h \<in> set (concat (fl[i := ys]) @ used')" using that(1) by (auto simp del: nth_list_update)
    then show ?thesis using st by blast
  qed
  have "chain (headers st') (pool_head (pool (pslab st') ! j)) ((fl[i := ys]) ! j)" if "j < 33" for j
    using that p len ch hd nx chain_cong by (cases "j = i") (auto simp: pools_ok_def)
  moreover have "slab_class (hdr_size st' h) = int j" if "j < 33" "h \<in> set ((fl[i := ys]) ! j)" for j h
  proof -
    have "hdr_size st' h = hdr_size st h" using sub [OF that(2,1)] sz by (simp add: hdr_size_def)
    then show ?thesis using that p len cl by (cases "j = i") (auto simp: pools_ok_def)
  qed
  ultimately have "pools_ok (fl[i := ys]) st'" using len fr by (simp add: pools_ok_def)
  moreover have "blocks_ok (headers st') (concat (fl[i := ys]) @ used')"
    unfolding blocks_ok_mset [OF ms] using b blocks_ok_cong [OF sz] by simp
  moreover have "tail_ok st' (concat (fl[i := ys]) @ used')"
    unfolding tail_ok_mset [OF ms] using t sz fr by (auto simp: tail_ok_def free_tail_def span_def)
  moreover have "extent (fl[i := ys]) used' st' = extent fl used st"
    unfolding extent_def st using sz fr by (auto simp: span_def free_tail_def)
  ultimately show ?thesis using mg by (simp add: slab_wf_def)
qed

lemma chain_nonzero: "chain m a xs \<Longrightarrow> a \<noteq> 0 \<Longrightarrow> \<exists>ys. xs = a # ys \<and> chain m (m (a + 4)) ys"
  by (cases xs) auto

lemma in_pool: "i < length fl \<Longrightarrow> h \<in> set (fl ! i) \<Longrightarrow> h \<in> set (concat fl)"
  by (auto intro: nth_mem)

lemma pool_pop:
  assumes wf: "slab_wf fl used st" and i: "i < 33" and h: "h = pool_head (pool (pslab st) ! i)" "h \<noteq> 0"
  shows "\<exists>ys st'. get_slab_from_slab_pool (int i) st = (h, st') \<and> slab_wf (fl[i := ys]) (h # used) st'
    \<and> extent (fl[i := ys]) (h # used) st' = extent fl used st
    \<and> hdr_size st' h = hdr_size st h \<and> slab_class (hdr_size st h) = int i \<and> h \<notin> set used \<and> blk (headers st') h
    \<and> mm st' = mm st \<and> has_current st' = has_current st \<and> fl ! i = h # ys
    \<and> free_size (pslab st') = free_size (pslab st) \<and> slab_free (pslab st') = slab_free (pslab st)"
proof -
  let ?m = "headers st" and ?hs = "concat fl @ used"
  have p: "pools_ok fl st" and b: "blocks_ok ?m ?hs" and mg: "\<forall>h \<in> set used. hdr_next st h = SLAB_MAGIC"
    using wf by (simp_all add: slab_wf_def)
  have pl: "length (pool (pslab st)) = 33" "length fl = 33" "pool_nr (pslab st) = 33" "min_slab st = 16"
    and cl: "\<forall>i < 33. \<forall>h \<in> set (fl ! i). slab_class (hdr_size st h) = int i"
    using p by (simp_all add: pools_ok_def)
  have cli: "\<forall>h \<in> set (fl ! i). slab_class (hdr_size st h) = int i" using cl i by blast
  obtain ys where ys: "fl ! i = h # ys" "chain ?m (?m (h + 4)) ys"
    using p i h chain_nonzero [of ?m h "fl ! i"] by (auto simp: pools_ok_def)
  let ?st = "set_hdr_next h SLAB_MAGIC (set_pool_head (int i) (hdr_next st h) st)"
  have g: "get_slab_from_slab_pool (int i) st = (h, ?st)"
    by (simp add: get_slab_from_slab_pool_def h(1) Let_def)
  have mset: "mset (concat (fl[i := ys]) @ h # used) = mset ?hs"
    using mset_concat_update [of i fl ys] i pl ys(1) by simp
  have hin: "h \<in> set ?hs" using in_pool [of i fl h] i pl ys by simp
  have "distinct (concat (fl[i := ys]) @ h # used)"
    using b mset_eq_imp_distinct_iff [OF mset] by (simp add: blocks_ok_def)
  moreover have "set ys \<subseteq> set (concat (fl[i := ys]))"
    using in_pool [of i "fl[i := ys]"] i pl(2) by auto
  ultimately have hn: "h \<notin> set used" "h \<notin> set ys" by auto
  have keep: "headers ?st x = ?m x" if "x \<in> set ?hs" for x
    using that blocks_apart(1) [OF b hin that] header_words(5) [of ?m h] b hin by (auto simp: blocks_ok_def)
  have link: "headers ?st (x + 4) = ?m (x + 4)" if "x \<in> set ?hs" "x \<noteq> h" for x
    using blocks_apart(2) [OF b that(1) hin that(2)] by simp
  have ysin: "x \<in> set ?hs" if "x \<in> set ys" for x using in_pool [of i fl x] that i pl ys by simp
  have other: "x \<noteq> h" if "x \<in> set (fl ! j)" "j < 33" "j \<noteq> i" for x j
    using cl [rule_format, of j x] cl [rule_format, of i h] that i ys by auto
  have "slab_wf (fl[i := ys]) (h # used) ?st \<and> extent (fl[i := ys]) (h # used) ?st = extent fl used st"
  proof (rule slab_wf_move [OF wf i mset])
    show "chain (headers ?st) (pool_head (pool (pslab ?st) ! i)) ys"
    proof -
      have "pool_head (pool (pslab ?st) ! i) = ?m (h + 4)" using i pl(1) by (simp add: hdr_next_def)
      moreover have "\<forall>x \<in> set ys. headers ?st (x + 4) = ?m (x + 4)"
        using link [OF ysin] hn(2) by blast
      ultimately show ?thesis using chain_cong [OF ys(2)] by metis
    qed
    show "\<forall>x \<in> set (h # used). hdr_next ?st x = SLAB_MAGIC"
      using mg link hn(1) by (auto simp: hdr_next_def)
    show "\<forall>j < 33. j \<noteq> i \<longrightarrow> (\<forall>x \<in> set (fl ! j). headers ?st (x + 4) = ?m (x + 4))"
    proof (intro allI impI ballI)
      fix j x assume j: "j < 33" "j \<noteq> i" "x \<in> set (fl ! j)"
      then have "x \<in> set ?hs" using in_pool [of j fl x] pl(2) by simp
      then show "headers ?st (x + 4) = ?m (x + 4)" using other [OF j(3,1,2)] by (rule link)
    qed
    show "\<forall>x \<in> set ?hs. headers ?st x = ?m x" using keep by blast
    show "\<forall>x \<in> set ys. slab_class (hdr_size st x) = int i" using cli ys(1) by simp
  qed (use i pl in \<open>simp_all\<close>)
  moreover have "hdr_size ?st h = hdr_size st h" using keep [OF hin] by (simp add: hdr_size_def)
  moreover have "blk (headers ?st) h" using b hin keep [OF hin] by (simp add: blocks_ok_def blk_def)
  ultimately show ?thesis using g hn(1) cli ys(1) by auto
qed

lemma pool_push:
  assumes wf: "slab_wf fl used st" and h: "h \<in> set used" and i: "slab_class (hdr_size st h) = int i" "i < 33"
  shows "slab_wf (fl[i := h # fl ! i]) (remove1 h used) (add_slab_to_slab_pool h (int i) st)
    \<and> extent (fl[i := h # fl ! i]) (remove1 h used) (add_slab_to_slab_pool h (int i) st) = extent fl used st"
proof -
  let ?m = "headers st" and ?hs = "concat fl @ used"
  have p: "pools_ok fl st" and b: "blocks_ok ?m ?hs" and mg: "\<forall>h \<in> set used. hdr_next st h = SLAB_MAGIC"
    using wf by (simp_all add: slab_wf_def)
  have pl: "length (pool (pslab st)) = 33" "length fl = 33" "pool_nr (pslab st) = 33" "min_slab st = 16"
    and cli: "\<forall>h \<in> set (fl ! i). slab_class (hdr_size st h) = int i"
    and chi: "chain ?m (pool_head (pool (pslab st) ! i)) (fl ! i)"
    using p i(2) by (simp_all add: pools_ok_def)
  let ?st = "add_slab_to_slab_pool h (int i) st"
  have hd: "headers ?st = ?m(h + 4 := pool_head (pool (pslab st) ! i))" by (simp add: add_slab_to_slab_pool_def)
  have mset: "mset (concat (fl[i := h # fl ! i]) @ remove1 h used) = mset ?hs"
    using mset_concat_update [of i fl "h # fl ! i"] i(2) pl(2) h by simp
  have hin: "h \<in> set ?hs" using h by simp
  have hn: "h \<notin> set (concat fl)" "h \<notin> set (remove1 h used)" using b h by (auto simp: blocks_ok_def)
  have bh: "blk ?m h" using b hin by (simp add: blocks_ok_def)
  have keep: "headers ?st x = ?m x" if "x \<in> set ?hs" for x
    using blocks_apart(1) [OF b hin that] header_words(5) [OF bh] unfolding hd by (cases "x = h") auto
  have link: "headers ?st (x + 4) = ?m (x + 4)" if "x \<in> set ?hs" "x \<noteq> h" for x
    using blocks_apart(2) [OF b that(1) hin that(2)] unfolding hd by simp
  have pool_link: "headers ?st (x + 4) = ?m (x + 4)" if "j < 33" "x \<in> set (fl ! j)" for x j
  proof (rule link)
    show "x \<in> set ?hs" using in_pool [of j fl x] that pl(2) by simp
    show "x \<noteq> h" using in_pool [of j fl x] that pl(2) hn(1) by metis
  qed
  show ?thesis
  proof (rule slab_wf_move [OF wf i(2) mset])
    show "chain (headers ?st) (pool_head (pool (pslab ?st) ! i)) (h # fl ! i)"
    proof -
      have "pool_head (pool (pslab ?st) ! i) = h" using i(2) pl(1) by (simp add: add_slab_to_slab_pool_def)
      moreover have "headers ?st (h + 4) = pool_head (pool (pslab st) ! i)" unfolding hd by simp
      moreover have "chain (headers ?st) (pool_head (pool (pslab st) ! i)) (fl ! i)"
        using chain_cong [OF chi] pool_link [OF i(2)] by blast
      ultimately show ?thesis using bh by (simp add: blk_def)
    qed
    show "\<forall>x \<in> set (remove1 h used). hdr_next ?st x = SLAB_MAGIC"
    proof
      fix x assume x: "x \<in> set (remove1 h used)"
      then have "x \<in> set used" "x \<noteq> h" using hn(2) set_remove1_subset [of h used] by auto
      then show "hdr_next ?st x = SLAB_MAGIC" using link [of x] mg by (simp add: hdr_next_def)
    qed
    show "\<forall>j < 33. j \<noteq> i \<longrightarrow> (\<forall>x \<in> set (fl ! j). headers ?st (x + 4) = ?m (x + 4))"
      using pool_link by blast
    show "\<forall>x \<in> set ?hs. headers ?st x = ?m x" using keep by blast
    show "\<forall>x \<in> set (h # fl ! i). slab_class (hdr_size st x) = int i" using cli i(1) by simp
  qed (use i(2) pl in \<open>simp_all add: add_slab_to_slab_pool_def\<close>)
qed

text \<open>A block cut off the front of the rest of the current page.\<close>

lemma new_block:
  assumes wf: "slab_wf fl used st" and h: "h = slab_free (pslab st)"
    and n: "16 \<le> n" "n + 8 \<le> free_size (pslab st)"
    and hd: "headers st' = (headers st)(h := word_of_int n, h + 4 := SLAB_MAGIC)"
    and pl: "pool (pslab st') = pool (pslab st)" "pool_nr (pslab st') = pool_nr (pslab st)"
    and tl: "slab_free (pslab st') = 0 \<and> free_size (pslab st') = 0
      \<or> n + 8 < free_size (pslab st) \<and> slab_free (pslab st') = h + word_of_int (n + 8)
         \<and> free_size (pslab st') = free_size (pslab st) - (n + 8)"
  shows "slab_wf fl (h # used) st'" "hdr_size st' h = n" "blk (headers st') h" "h \<notin> set used"
    "extent fl (h # used) st' \<subseteq> extent fl used st"
proof -
  let ?m = "headers st" and ?m' = "headers st'" and ?hs = "concat fl @ used" and ?f = "free_size (pslab st)"
  have p: "pools_ok fl st" and b: "blocks_ok ?m ?hs" and mg: "\<forall>h \<in> set used. hdr_next st h = SLAB_MAGIC"
    and t: "tail_ok st ?hs" using wf by (simp_all add: slab_wf_def)
  have f: "?f < 2 ^ 31" "uint h + ?f \<le> 2 ^ 32" "h \<noteq> 0" "0 \<le> ?f" using t n h by (auto simp: tail_ok_def)
  have h4: "uint (h + 4) = uint h + 4" using uint_plus_small [of h 4] f n by simp
  have sz: "sint (?m' h) = n" unfolding hd using f(1) n by (simp add: sint_word_of_int_u32)
  have sp: "span ?m' h = {uint h ..< uint h + 8 + n}" by (simp add: span_def sz)
  have tail: "free_tail st = {uint h ..< uint h + ?f}" by (simp add: free_tail_def h)
  have out: "uint h \<notin> span ?m x" "uint (h + 4) \<notin> span ?m x" "span ?m x \<inter> span ?m' h = {}" if "x \<in> set ?hs" for x
  proof -
    have "span ?m x \<inter> free_tail st = {}" using t that unfolding tail_ok_def by blast
    moreover have "uint h \<in> free_tail st" "uint (h + 4) \<in> free_tail st" "span ?m' h \<subseteq> free_tail st"
      using n h4 by (auto simp: tail sp)
    ultimately show "uint h \<notin> span ?m x" "uint (h + 4) \<notin> span ?m x" "span ?m x \<inter> span ?m' h = {}" by blast+
  qed
  have keep: "?m' x = ?m x" "?m' (x + 4) = ?m (x + 4)" if x: "x \<in> set ?hs" for x
  proof -
    have bx: "blk ?m x" using b x by (simp add: blocks_ok_def)
    show "?m' x = ?m x" "?m' (x + 4) = ?m (x + 4)"
      using words_apart [OF bx out(1) [OF x]] words_apart [OF bx out(2) [OF x]] unfolding hd by auto
  qed
  have ho: "h \<notin> set ?hs" using out(1) [of h] header_words(1) [of ?m h] b by (auto simp: blocks_ok_def)
  have bh: "blk ?m' h" using f n by (simp add: blk_def sz)
  have pin: "x \<in> set ?hs" if "j < 33" "x \<in> set (fl ! j)" for x j
    using in_pool [of j fl x] that p by (simp add: pools_ok_def)
  have "chain ?m' (pool_head (pool (pslab st') ! j)) (fl ! j)" if "j < 33" for j
    using p that keep(2) [OF pin [OF that]] chain_cong [of ?m _ "fl ! j" ?m'] unfolding pools_ok_def pl by blast
  moreover have "slab_class (hdr_size st' x) = int j" if "j < 33" "x \<in> set (fl ! j)" for x j
    using p that keep(1) [OF pin [OF that]] by (simp add: pools_ok_def hdr_size_def)
  ultimately have po: "pools_ok fl st'" using p by (simp add: pools_ok_def pl min_slab_def)
  have spx: "span ?m' x = span ?m x" if "x \<in> set ?hs" for x using keep(1) [OF that] by (simp add: span_def)
  have bo: "blocks_ok ?m' (concat fl @ h # used)"
  proof -
    have "blocks_ok ?m' ?hs" using b blocks_ok_cong [of ?hs ?m' ?m] keep(1) by blast
    then have "blocks_ok ?m' (h # ?hs)" using ho bh out(3) spx by (auto simp: blocks_ok_def Int_commute)
    then show ?thesis using blocks_ok_mset [of "h # ?hs" "concat fl @ h # used"] by simp
  qed
  have tl': "free_tail st' \<subseteq> free_tail st - span ?m' h \<and> 0 \<le> free_size (pslab st') \<and> free_size (pslab st') < 2 ^ 31
      \<and> uint (slab_free (pslab st')) + free_size (pslab st') \<le> 2 ^ 32
      \<and> (free_size (pslab st') = 0 \<or> slab_free (pslab st') \<noteq> 0)"
    using tl
  proof
    assume a: "n + 8 < ?f \<and> slab_free (pslab st') = h + word_of_int (n + 8) \<and> free_size (pslab st') = ?f - (n + 8)"
    have "uint (h + word_of_int (n + 8)) = uint h + (n + 8)" by (rule uint_plus_small) (use a f n in linarith)+
    then have u: "uint (slab_free (pslab st')) = uint h + (n + 8)" using a by simp
    then have "0 < uint (slab_free (pslab st'))" using n uint_ge_0 [of h] by linarith
    then have "slab_free (pslab st') \<noteq> 0" by auto
    then show ?thesis using a f n u by (auto simp: free_tail_def [of st'] tail sp)
  qed (simp add: free_tail_def)
  then have tk: "tail_ok st' (concat fl @ h # used)"
    using t spx unfolding tail_ok_def by fastforce
  have "span ?m' h \<subseteq> free_tail st" using n by (auto simp: tail sp)
  then show "extent fl (h # used) st' \<subseteq> extent fl used st" using tl' spx by (auto simp: extent_def)
  show "slab_wf fl (h # used) st'" using tk po bo mg keep(2) unfolding slab_wf_def
    by (auto simp: hdr_next_def hd)
  show "hdr_size st' h = n" by (simp add: hdr_size_def sz)
  show "blk (headers st') h" by (rule bh)
  show "h \<notin> set used" using ho by simp
qed

section \<open>The allocation functions\<close>

definition lock_free :: "slab_state \<Rightarrow> bool" where
  "lock_free st \<longleftrightarrow> (has_current st \<longrightarrow> \<not> slab_mutex (pslab st))"

definition locked :: "slab_state \<Rightarrow> slab_state" where
  "locked st = (if has_current st then upd_slab (\<lambda>s. s\<lparr>slab_mutex := True\<rparr>) st else st)"

lemma slab_lock_free: "lock_free st \<Longrightarrow> slab_lock st = Some (locked st)"
  by (auto simp: lock_free_def slab_lock_def locked_def)

lemma lock_simps [simp]:
  "pool (pslab (locked st)) = pool (pslab st)" "pool (pslab (slab_unlock st)) = pool (pslab st)"
  "pool_nr (pslab (locked st)) = pool_nr (pslab st)" "pool_nr (pslab (slab_unlock st)) = pool_nr (pslab st)"
  "slab_free (pslab (locked st)) = slab_free (pslab st)" "slab_free (pslab (slab_unlock st)) = slab_free (pslab st)"
  "free_size (pslab (locked st)) = free_size (pslab st)" "free_size (pslab (slab_unlock st)) = free_size (pslab st)"
  "headers (locked st) = headers st" "headers (slab_unlock st) = headers st"
  "mm (locked st) = mm st" "mm (slab_unlock st) = mm st"
  "has_current (locked st) = has_current st" "has_current (slab_unlock st) = has_current st"
  "min_slab (locked st) = min_slab st" "min_slab (slab_unlock st) = min_slab st"
  "lock_free (slab_unlock st)"
  by (simp_all add: locked_def slab_unlock_def min_slab_def lock_free_def)

lemma slab_wf_cong:
  assumes "headers st' = headers st" "pool (pslab st') = pool (pslab st)" "pool_nr (pslab st') = pool_nr (pslab st)"
    "slab_free (pslab st') = slab_free (pslab st)" "free_size (pslab st') = free_size (pslab st)"
  shows "slab_wf fl used st' = slab_wf fl used st" "extent fl used st' = extent fl used st"
    "hdr_size st' h = hdr_size st h" "slab_pool_id sz st' = slab_pool_id sz st" "pool_at i st' = pool_at i st"
  using assms by (simp_all add: slab_wf_def pools_ok_def tail_ok_def min_slab_def hdr_size_def hdr_next_def
      free_tail_def extent_def slab_pool_id_def pool_at_def)

lemmas lock_wf [simp] = slab_wf_cong [where st' = "locked st" and st = st for st, simplified]
  slab_wf_cong [where st' = "slab_unlock st" and st = st for st, simplified]

lemma align_16: "align (x::int) 16 mod 16 = 0" "x \<le> align x 16" "align x 16 < x + 16"
  using is_align_align [of x 4] align_int_bounds [of x 4] by (simp_all add: is_align_pow2 [of _ 4, simplified] take_bit_eq_mod)

text \<open>A block of the pool a small request belongs to is large enough for it.\<close>

lemma class_fits:
  assumes "slab_class s = slab_class n" "n mod 16 = 0" "16 \<le> n" "n \<le> 512"
  shows "n \<le> s"
proof -
  have "s div 16 = n div 16" using assms by (auto simp: slab_class_def Let_def split: if_splits)
  then have "16 * (n div 16) \<le> s" by linarith
  then show ?thesis using assms(2) by presburger
qed

lemma SLAB_SIZE_less:
  assumes "0 \<le> f" "f < 2 ^ 31" "0 \<le> n" "n < 2 ^ 31 - 8"
  shows "(word_of_int f :: u32) < SLAB_SIZE n \<longleftrightarrow> f < n + 8"
    "n + 8 \<le> f \<Longrightarrow> sint (word_of_int f - SLAB_SIZE n) = f - (n + 8)"
proof -
  have s: "SLAB_SIZE n = word_of_int (n + 8)" by (simp add: SLAB_SIZE_def)
  have "uint (word_of_int f :: u32) = f" "uint (word_of_int (n + 8) :: u32) = n + 8"
    using uint_word_of_int_u32 [of f] uint_word_of_int_u32 [of "n + 8"] assms by simp_all
  then show "(word_of_int f :: u32) < SLAB_SIZE n \<longleftrightarrow> f < n + 8" unfolding s word_less_def by simp
  assume "n + 8 \<le> f"
  then show "sint (word_of_int f - SLAB_SIZE n) = f - (n + 8)" unfolding s using assms
    by (subst wi_hom_sub) (rule sint_word_of_int_u32, auto)
qed

lemma payload_simps [simp]: "payload (slab_unlock st) = payload st" "payload (locked st) = payload st" "payload (upd_slab f st) = payload st"
  "payload (set_hdr_size h n st) = payload st" "payload (set_hdr_next h a st) = payload st"
  by (simp_all add: slab_unlock_def locked_def upd_slab_def set_hdr_size_def set_hdr_next_def)

lemma get_slab_from_pool_hit:
  assumes wf: "slab_wf fl used st" and l: "lock_free st" and i: "slab_class sz = int i" "i < 33"
    and h: "pool_head (pool (pslab st) ! i) = h" "h \<noteq> 0"
  shows "\<exists>fl' st'. get_slab_from_pool sz fg st = Some (h + 8, st') \<and> slab_wf fl' (h # used) st'
    \<and> extent fl' (h # used) st' = extent fl used st \<and> hdr_size st' h = hdr_size st h
    \<and> slab_class (hdr_size st h) = int i \<and> h + 8 \<noteq> 0 \<and> lock_free st' \<and> mm st' = mm st"
proof -
  have p: "pools_ok fl st" using wf by (simp add: slab_wf_def)
  then have pid: "slab_pool_id sz st = int i" using slab_pool_id_class i(1) by simp
  have at: "pool_at (int i) st = Some (pool (pslab st) ! i)" using p i(2) by (simp add: pool_at_def pools_ok_def)
  have "slab_wf fl used (locked st)" using wf by simp
  from pool_pop [OF this i(2), of h] h obtain ys st' where g:
    "get_slab_from_slab_pool (int i) (locked st) = (h, st')" "slab_wf (fl[i := ys]) (h # used) st'"
    "extent (fl[i := ys]) (h # used) st' = extent fl used st" "hdr_size st' h = hdr_size st h"
    "slab_class (hdr_size st h) = int i" "blk (headers st') h" "mm st' = mm st" by auto
  have "get_slab_from_pool sz fg st = Some (h + 8, slab_unlock st')"
    using g(1) h by (simp add: get_slab_from_pool_def pid slab_lock_free [OF l] at header_to_base_def)
  then show ?thesis using g header_words(4) [OF g(6)]
    by (intro exI [of _ "fl[i := ys]"] exI [of _ "slab_unlock st'"]) simp
qed

lemma get_slab_from_pool_miss:
  assumes wf: "slab_wf fl used st" and l: "lock_free st" and i: "slab_class sz = int i" "i < 33"
    and h: "pool_head (pool (pslab st) ! i) = 0"
  shows "get_slab_from_pool sz fg st = Some (0, slab_unlock (locked st))"
proof -
  have p: "pools_ok fl st" using wf by (simp add: slab_wf_def)
  then have pid: "slab_pool_id sz st = int i" using slab_pool_id_class i(1) by simp
  have at: "pool_at (int i) st = Some (pool (pslab st) ! i)" using p i(2) by (simp add: pool_at_def pools_ok_def)
  show ?thesis using h by (simp add: get_slab_from_pool_def pid slab_lock_free [OF l] at)
qed

lemma get_slab_from_slab_free_hit:
  assumes wf: "slab_wf fl used st" and l: "lock_free st"
    and n: "16 \<le> n" "n + 8 \<le> free_size (pslab st)" and h: "h = slab_free (pslab st)"
  shows "\<exists>st'. get_slab_from_slab_free n fg st = Some (h + 8, st') \<and> slab_wf fl (h # used) st'
    \<and> extent fl (h # used) st' \<subseteq> extent fl used st \<and> n \<le> hdr_size st' h \<and> h + 8 \<noteq> 0
    \<and> lock_free st' \<and> mm st' = mm st \<and> payload st' = payload st \<and> pool (pslab st') = pool (pslab st)
    \<and> (n + 32 \<le> free_size (pslab st) \<longrightarrow> free_size (pslab st') = free_size (pslab st) - (n + 8))"
proof -
  let ?f = "free_size (pslab st)" and ?r = "free_size (pslab st) - (n + 8)"
  have f: "0 \<le> ?f" "?f < 2 ^ 31" using wf by (simp_all add: slab_wf_def tail_ok_def)
  have m16: "min_slab st = 16" using wf by (simp add: slab_wf_def pools_ok_def)
  have le: "\<not> (word_of_int ?f :: u32) < SLAB_SIZE n" and sub: "sint (word_of_int ?f - SLAB_SIZE n) = ?r"
    using SLAB_SIZE_less [of ?f n] f n by simp_all
  have cut: "(word_of_int ?r :: u32) < SLAB_SIZE 16 \<longleftrightarrow> ?r < 24"
    using SLAB_SIZE_less(1) [of ?r 16] f n by simp
  have ss: "SLAB_SIZE n = word_of_int (n + 8)" by (simp add: SLAB_SIZE_def)
  have nn: "sint (word_of_int n :: u32) = n" using n f by (intro sint_word_of_int_u32) simp_all
  define st1 where "st1 = upd_slab (\<lambda>s. s\<lparr>slab_free := h + word_of_int (n + 8), free_size := ?r\<rparr>)
    (set_hdr_next h SLAB_MAGIC (set_hdr_size h n (locked st)))"
  define st2 where "st2 = (if ?r < 24
    then upd_slab (\<lambda>s. s\<lparr>slab_free := 0, free_size := 0\<rparr>) (set_hdr_size h (n + ?r) st1) else st1)"
  have h4: "h + 4 \<noteq> h" by simp
  have m1: "min_slab st1 = 16" "hdr_size st1 h = n" using m16 h4
    by (simp_all add: st1_def min_slab_def hdr_size_def nn)
  have g: "get_slab_from_slab_free n fg st = Some (h + 8, slab_unlock st2)"
    using le sub cut m1 h
    by (simp add: get_slab_from_slab_free_def slab_lock_free [OF l] Let_def st2_def header_to_base_def
        st1_def [symmetric] ss [symmetric] upd_slab_def [of _ "set_hdr_next _ _ _"] cong: if_cong)
       (simp add: st1_def ss upd_slab_def)
  show ?thesis
  proof (cases "?r < 24")
    case True
    have "slab_wf fl (h # used) st2 \<and> hdr_size st2 h = n + ?r \<and> blk (headers st2) h
      \<and> extent fl (h # used) st2 \<subseteq> extent fl used st"
      using new_block [OF wf h, of "n + ?r" st2] n True by (auto simp: st2_def st1_def fun_upd_twist)
    then show ?thesis using g n True header_words(4) [of "headers st2" h] by (auto simp: st2_def st1_def)
  next
    case False
    have "slab_wf fl (h # used) st2 \<and> hdr_size st2 h = n \<and> blk (headers st2) h
      \<and> extent fl (h # used) st2 \<subseteq> extent fl used st"
      using new_block [OF wf h, of n st2] n False by (auto simp: st2_def st1_def)
    then show ?thesis using g n False header_words(4) [of "headers st2" h] by (auto simp: st2_def st1_def)
  qed
qed

lemma get_slab_from_slab_free_miss:
  assumes wf: "slab_wf fl used st" and l: "lock_free st" and n: "0 \<le> n" "n < 4096" "free_size (pslab st) < n + 8"
  shows "get_slab_from_slab_free n fg st = Some (0, slab_unlock (locked st))"
proof -
  have f: "0 \<le> free_size (pslab st)" "free_size (pslab st) < 2 ^ 31" using wf by (simp_all add: slab_wf_def tail_ok_def)
  then show ?thesis using SLAB_SIZE_less(1) [of "free_size (pslab st)" n] n
    by (simp add: get_slab_from_slab_free_def slab_lock_free [OF l] Let_def)
qed

lemma retire_wf:
  assumes wf: "slab_wf fl used st"
  shows "\<exists>fl' st'. retire_slab_free st = Some st' \<and> slab_wf fl' used st' \<and> extent fl' used st' \<subseteq> extent fl used st
    \<and> mm st' = mm st \<and> has_current st' = has_current st \<and> slab_plist (pslab st') = slab_plist (pslab st)"
proof -
  let ?f = "free_size (pslab st)" and ?h = "slab_free (pslab st)" and ?n = "free_size (pslab st) - 8"
  have f: "0 \<le> ?f" "?f < 2 ^ 31" using wf by (simp_all add: slab_wf_def tail_ok_def)
  have p: "pools_ok fl st" using wf by (simp add: slab_wf_def)
  then have m16: "min_slab st = 16" by (simp add: pools_ok_def)
  have c: "SLAB_SIZE (min_slab st) \<le> (word_of_int ?f :: u32) \<longleftrightarrow> 24 \<le> ?f"
    using SLAB_SIZE_less(1) [of ?f 16] f m16 by (auto simp: not_less [symmetric])
  show ?thesis
  proof (cases "24 \<le> ?f")
    case False
    then show ?thesis using wf c by (auto simp: retire_slab_free_def)
  next
    case True
    have n: "sint ((word_of_int ?f :: u32) - 8) = ?n"
      using SLAB_SIZE_less(2) [of ?f 0] f True by (simp add: SLAB_SIZE_def)
    obtain i where i: "slab_class ?n = int i" "i < 33"
      using slab_class_range [of ?n] True by (intro that [of "nat (slab_class ?n)"]) (simp_all add: nat_less_iff)
    have pid: "slab_pool_id ?n st = int i" using slab_pool_id_class [OF p] i(1) by simp
    have at: "pool_at (int i) st = Some (pool (pslab st) ! i)" using p i(2) by (simp add: pool_at_def pools_ok_def)
    define st1 where "st1 = upd_slab (\<lambda>s. s\<lparr>free_size := 0, slab_free := 0\<rparr>)
      (set_hdr_next ?h SLAB_MAGIC (set_hdr_size ?h ?n st))"
    have "slab_wf fl (?h # used) st1" "hdr_size st1 ?h = ?n" "extent fl (?h # used) st1 \<subseteq> extent fl used st"
      by (rule new_block [OF wf refl, of ?n]; use True in \<open>simp add: st1_def\<close>)+
    then have "slab_wf (fl[i := ?h # fl ! i]) used (add_slab_to_slab_pool ?h (int i) st1)"
      "extent (fl[i := ?h # fl ! i]) used (add_slab_to_slab_pool ?h (int i) st1) \<subseteq> extent fl used st"
      using pool_push [of fl "?h # used" st1 ?h i] i by auto
    moreover have "retire_slab_free st = Some (add_slab_to_slab_pool ?h (int i) st1)"
      using True c by (simp add: retire_slab_free_def n pid at st1_def add_slab_to_slab_pool_def set_pool_head_def
          upd_slab_def set_hdr_next_def set_hdr_size_def Let_def slab.equality)
    ultimately show ?thesis by (auto simp: st1_def add_slab_to_slab_pool_def set_pool_head_def)
  qed
qed

lemma page_to_va_room: "uint (page_to_va ms pg) + 4096 \<le> 2 ^ 32"
proof -
  let ?x = "map_address (pages ms pg)"
  have mask: "(0xfffff000 :: u32) = NOT (2 ^ 12 - 1)" by simp
  have "page_to_va ms pg = min_align ?x (2 ^ 12)" by (simp only: page_to_va_def min_align_def mask)
  then have u: "unat (page_to_va ms pg) = unat ?x div 4096 * 4096" using unat_min_align [of ?x 12] by simp
  have "unat ?x < 2 ^ 32" by (rule unat_u32_less)
  then have "unat ?x div 4096 * 4096 + 4096 \<le> 2 ^ 32" by simp
  then have "int (unat (page_to_va ms pg)) + 4096 \<le> 2 ^ 32" unfolding u by simp
  then show ?thesis by (simp only: uint_nat [symmetric])
qed

definition run_of :: "u32 \<Rightarrow> int \<Rightarrow> int set" where
  "run_of v nr = {uint v ..< uint v + 4096 * nr}"

lemma alloc_new_slab_cache_wf:
  assumes wf: "slab_wf fl used st" and l: "lock_free st" and nr: "page_nr sz = nr" "1 \<le> nr" "4096 * nr < 2 ^ 31"
    and rq: "request_pages nr GFP_SLAB (mm st) = Some (pg, ms)" "pg \<noteq> 0"
    and v: "v = page_to_va ms pg" "v \<noteq> 0" "uint v + 4096 * nr \<le> 2 ^ 32" "run_of v nr \<inter> extent fl used st = {}"
  shows "\<exists>st'. alloc_new_slab_cache sz st = Some (0, st') \<and> slab_wf fl used st' \<and> lock_free st'
    \<and> slab_free (pslab st') = v \<and> free_size (pslab st') = 4096 * nr
    \<and> extent fl used st' \<subseteq> extent fl used st \<union> run_of v nr"
proof -
  let ?ms = "add_page_to_list_tail pg (slab_plist (pslab st)) ms"
  have va: "page_to_va ?ms pg = v" using v(1) by (simp add: add_page_to_list_tail_def page_to_va_def)
  define st1 where "st1 = (locked st)\<lparr>mm := ?ms\<rparr>"
  define st2 where "st2 = upd_slab (\<lambda>s. s\<lparr>free_size := 4096 * nr, alloc_size := alloc_size s + 4096 * nr,
    alloc_pages := alloc_pages s + nr, slab_free := v\<rparr>) st1"
  have pb: "push_bit 12 nr = 4096 * nr" by (simp add: push_bit_eq_mult)
  have pl: "slab_plist (pslab (locked st)) = slab_plist (pslab st)" by (simp add: locked_def)
  have g: "alloc_new_slab_cache sz st = Some (0, slab_unlock st2)"
    using rq by (simp add: alloc_new_slab_cache_def slab_lock_free [OF l] nr(1) pb pl va st2_def st1_def Let_def)
  have t: "free_tail st2 = run_of v nr" by (simp add: free_tail_def run_of_def st2_def)
  have h: "headers st2 = headers st" by (simp add: st2_def st1_def)
  have po: "pools_ok fl st2" using wf by (simp add: slab_wf_def pools_ok_def st2_def st1_def min_slab_def hdr_size_def)
  have "tail_ok st2 (concat fl @ used)"
    using nr v(2-4) unfolding tail_ok_def t h by (auto simp: st2_def extent_def)
  then have "slab_wf fl used st2" using wf po h by (simp add: slab_wf_def hdr_next_def)
  moreover have "extent fl used st2 \<subseteq> extent fl used st \<union> run_of v nr"
    unfolding extent_def t h by blast
  ultimately show ?thesis using g by (auto simp: st2_def)
qed

lemma page_nr_4096: "page_nr 4096 = 1" "page_nr 0x100000 = 256"
  by (simp_all add: page_nr_def align_def)

text \<open>A kernel request that is not served in whole pages.\<close>

lemma kmalloc_kernel:
  assumes "slab_wf fl used st" "0 < sz" "sz \<le> 4080"
  shows "kmalloc sz GFP_KERNEL st =
    alloc_loop [get_slab_from_pool, get_slab_from_slab_free, get_new_slab, get_big_slab] (align sz 16) GFP_KERNEL st"
    "16 \<le> align sz 16" "align sz 16 < 4096"
proof -
  have m: "min_slab st = 16" using assms(1) by (simp add: slab_wf_def pools_ok_def)
  have a: "16 \<le> align sz 16" "align sz 16 < 4096" using align_16 [of sz] assms(2,3) by presburger+
  then show "16 \<le> align sz 16" "align sz 16 < 4096" .
  show "kmalloc sz GFP_KERNEL st =
    alloc_loop [get_slab_from_pool, get_slab_from_slab_free, get_new_slab, get_big_slab] (align sz 16) GFP_KERNEL st"
    using assms(2) a by (simp add: kmalloc_def kmalloc_internal_def get_slab_alloc_size_def m Let_def)
qed

lemma class_index:
  assumes "16 \<le> n"
  shows "slab_class n = int (nat (slab_class n))" "nat (slab_class n) < 33"
  using slab_class_range [OF assms] by (simp_all add: nat_less_iff)

definition pool_of :: "int \<Rightarrow> slab_state \<Rightarrow> addr" where
  "pool_of sz st = pool_head (pool (pslab st) ! nat (slab_class (align sz 16)))"

lemma kmalloc_pool_hit:
  assumes wf: "slab_wf fl used st" and l: "lock_free st" and sz: "0 < sz" "sz \<le> 4080"
    and h: "pool_of sz st = h" "h \<noteq> 0"
  shows "\<exists>fl' st'. kmalloc sz GFP_KERNEL st = Some (h + 8, st') \<and> slab_wf fl' (h # used) st'
    \<and> extent fl' (h # used) st' = extent fl used st \<and> hdr_size st' h = hdr_size st h
    \<and> slab_class (hdr_size st h) = slab_class (align sz 16) \<and> h + 8 \<noteq> 0 \<and> lock_free st' \<and> mm st' = mm st"
proof -
  note k = kmalloc_kernel [OF wf sz]
  note c = class_index [OF k(2)]
  from get_slab_from_pool_hit [OF wf l c] h obtain fl' st' where g:
    "get_slab_from_pool (align sz 16) GFP_KERNEL st = Some (h + 8, st')" "slab_wf fl' (h # used) st'"
    "extent fl' (h # used) st' = extent fl used st" "hdr_size st' h = hdr_size st h"
    "slab_class (hdr_size st h) = int (nat (slab_class (align sz 16)))" "h + 8 \<noteq> 0" "lock_free st'" "mm st' = mm st"
    unfolding pool_of_def by blast
  then have "kmalloc sz GFP_KERNEL st = Some (h + 8, st')" using k(1) by simp
  then show ?thesis using g c(1) by auto
qed

lemma kmalloc_tail_hit:
  assumes wf: "slab_wf fl used st" and l: "lock_free st" and sz: "0 < sz" "sz \<le> 4080"
    and h: "pool_of sz st = 0" "align sz 16 + 8 \<le> free_size (pslab st)"
  shows "\<exists>h st'. kmalloc sz GFP_KERNEL st = Some (h + 8, st') \<and> slab_wf fl (h # used) st'
    \<and> extent fl (h # used) st' \<subseteq> extent fl used st \<and> sz \<le> hdr_size st' h \<and> h + 8 \<noteq> 0 \<and> lock_free st' \<and> mm st' = mm st
    \<and> h = slab_free (pslab st) \<and> payload st' = payload st \<and> pool (pslab st') = pool (pslab st)
    \<and> (align sz 16 + 32 \<le> free_size (pslab st) \<longrightarrow> free_size (pslab st') = free_size (pslab st) - (align sz 16 + 8))"
proof -
  let ?st = "slab_unlock (locked st)" and ?h = "slab_free (pslab st)"
  note k = kmalloc_kernel [OF wf sz]
  note c = class_index [OF k(2)]
  have "get_slab_from_pool (align sz 16) GFP_KERNEL st = Some (0, ?st)"
    using get_slab_from_pool_miss [OF wf l c] h(1) by (simp add: pool_of_def)
  moreover obtain st' where g: "get_slab_from_slab_free (align sz 16) GFP_KERNEL ?st = Some (?h + 8, st')"
    "slab_wf fl (?h # used) st'" "extent fl (?h # used) st' \<subseteq> extent fl used st" "align sz 16 \<le> hdr_size st' ?h"
    "?h + 8 \<noteq> 0" "lock_free st'" "mm st' = mm st" "payload st' = payload st" "pool (pslab st') = pool (pslab st)"
    "align sz 16 + 32 \<le> free_size (pslab st) \<longrightarrow> free_size (pslab st') = free_size (pslab st) - (align sz 16 + 8)"
    using get_slab_from_slab_free_hit [of fl used ?st "align sz 16" ?h] wf k(2) h(2) by auto
  ultimately have "kmalloc sz GFP_KERNEL st = Some (?h + 8, st')" using k(1) by simp
  then show ?thesis using g align_16(2) [of sz] by (intro exI [of _ ?h] exI [of _ st']) auto
qed

lemma kzalloc_tail:
  assumes wf: "slab_wf fl used st" and l: "lock_free st" and sz: "0 < sz" "sz \<le> 4080"
    and h: "pool_of sz st = 0" "align sz 16 + 32 \<le> free_size (pslab st)"
  shows "\<exists>st'. kzalloc sz GFP_KERNEL st = Some (slab_free (pslab st) + 8, st') \<and> slab_wf fl (slab_free (pslab st) # used) st' \<and> lock_free st'
    \<and> pool (pslab st') = pool (pslab st) \<and> free_size (pslab st') = free_size (pslab st) - (align sz 16 + 8) \<and> slab_free (pslab st) + 8 \<noteq> 0
    \<and> same_outside (region (slab_free (pslab st) + 8) (nat sz)) (payload st) (payload st')"
proof -
  let ?a = "slab_free (pslab st) + 8"
  obtain st1 where g: "kmalloc sz GFP_KERNEL st = Some (?a, st1)" "slab_wf fl (slab_free (pslab st) # used) st1" "?a \<noteq> 0" "lock_free st1"
    "payload st1 = payload st" "pool (pslab st1) = pool (pslab st)" "free_size (pslab st1) = free_size (pslab st) - (align sz 16 + 8)"
    using kmalloc_tail_hit [OF wf l sz h(1)] h(2) by auto
  let ?st = "st1\<lparr>payload := memset (payload st1) ?a 0 sz\<rparr>"
  have "slab_wf fl (slab_free (pslab st) # used) ?st" "lock_free ?st" using g(2,4) slab_wf_cong(1) [of ?st st1] by (simp_all add: lock_free_def)
  then show ?thesis using g memset_outside [of ?a sz "payload st"] by (intro exI [of _ ?st]) (simp add: kzalloc_def)
qed

text \<open>When both the pool and the current page fail, a new page is asked for.\<close>

lemma kmalloc_miss:
  assumes wf: "slab_wf fl used st" and l: "lock_free st" and sz: "0 < sz" "sz \<le> 4080"
    and h: "pool_of sz st = 0" "free_size (pslab st) < align sz 16 + 8"
  shows "\<exists>fl' st'. slab_wf fl' used st' \<and> lock_free st' \<and> extent fl' used st' \<subseteq> extent fl used st \<and> mm st' = mm st
    \<and> has_current st' = has_current st
    \<and> kmalloc sz GFP_KERNEL st = Option.bind (alloc_new_slab_cache 4096 st') (\<lambda>(ret, st).
        Option.bind (if ret \<noteq> 0 then Some (0, st) else get_slab_from_slab_free (align sz 16) GFP_KERNEL st)
          (\<lambda>(ret, st). if ret \<noteq> 0 then Some (ret, st) else alloc_loop [get_big_slab] (align sz 16) GFP_KERNEL st))"
proof -
  let ?n = "align sz 16" and ?st = "slab_unlock (locked st)" and ?st2 = "slab_unlock (locked (slab_unlock (locked st)))"
  note k = kmalloc_kernel [OF wf sz]
  note c = class_index [OF k(2)]
  have 1: "get_slab_from_pool ?n GFP_KERNEL st = Some (0, ?st)"
    using get_slab_from_pool_miss [OF wf l c] h(1) by (simp add: pool_of_def)
  have 2: "get_slab_from_slab_free ?n GFP_KERNEL ?st = Some (0, ?st2)"
    using get_slab_from_slab_free_miss [of fl used ?st ?n] wf k(2,3) h(2) by simp
  have 3: "slab_lock ?st2 = Some (locked ?st2)" by (rule slab_lock_free) simp
  obtain fl' st' where r: "retire_slab_free (locked ?st2) = Some st'" "slab_wf fl' used st'"
    "extent fl' used st' \<subseteq> extent fl used st" "mm st' = mm st" "has_current st' = has_current st"
    using retire_wf [of fl used "locked ?st2"] wf by auto
  have "kmalloc sz GFP_KERNEL st = Option.bind (get_new_slab ?n GFP_KERNEL ?st2)
      (\<lambda>(ret, st). if ret \<noteq> 0 then Some (ret, st) else alloc_loop [get_big_slab] ?n GFP_KERNEL st)"
    using k(1) 1 2 by simp
  also have "get_new_slab ?n GFP_KERNEL ?st2 = Option.bind (alloc_new_slab_cache 4096 (slab_unlock st'))
      (\<lambda>(ret, st). if ret \<noteq> 0 then Some (0, st) else get_slab_from_slab_free ?n GFP_KERNEL st)"
    using k(3) 3 r(1) by (simp add: get_new_slab_def get_new_slab_internal_def)
  finally show ?thesis using r
    by (intro exI [of _ fl'] exI [of _ "slab_unlock st'"]) (simp add: split_def bind_assoc)
qed

section \<open>Concrete states\<close>

text \<open>An allocator with the page at \<open>0x10000\<close> and \<open>hs\<close> as its header memory.\<close>

definition slab_at :: "slab_pool list \<Rightarrow> u32 \<Rightarrow> int \<Rightarrow> word_mem \<Rightarrow> mm_state \<Rightarrow> slab_state" where
  "slab_at ps sf fs hs ms =
     \<lparr>pslab = \<lparr>slab_plist = 0x5000, pool = ps, slab_mutex = False, pool_nr = 33, slab_free = sf,
               free_size = fs, alloc_size = 4096, alloc_pages = 1\<rparr>,
      headers = hs, payload = (\<lambda>_. 0), mm = ms, has_current = True\<rparr>"

definition full_bank :: mm_state where
  "full_bank = small_bank\<lparr>bank := (bank small_bank)\<lparr>zone := replicate 4 empty_zone\<rparr>\<rparr>"

lemma slab_pool_table_nth: "i < 33 \<Longrightarrow> pool_head (slab_pool_table ! i) = 0" "length slab_pool_table = 33"
  "pool_size (slab_pool_table ! 0) = 16"
  by (auto simp: slab_pool_table_def nth_append)

lemma slab_at_fresh:
  assumes "0 \<le> fs" "fs < 2 ^ 31" "uint sf + fs \<le> 2 ^ 32" "sf \<noteq> 0"
  shows "slab_inv {uint sf ..< uint sf + fs} [] (slab_at slab_pool_table sf fs hs ms)"
  unfolding slab_inv_def slab_wf_def pools_ok_def blocks_ok_def tail_ok_def extent_def free_tail_def
  by (rule exI [of _ "replicate 33 []"])
    (use assms slab_pool_table_nth in \<open>simp add: slab_at_def min_slab_def concat_replicate_trivial\<close>)

lemma slab_at_used:
  "slab_inv {0x10000 ..< 0x11000} [0x10000]
     (slab_at slab_pool_table 0x10018 0xfe8 ((\<lambda>_. 0)(0x10000 := 16, 0x10004 := SLAB_MAGIC)) ms)"
  unfolding slab_inv_def slab_wf_def pools_ok_def blocks_ok_def tail_ok_def extent_def free_tail_def span_def
  by (rule exI [of _ "replicate 33 []"])
    (use slab_pool_table_nth in \<open>auto simp: slab_at_def min_slab_def concat_replicate_trivial blk_def hdr_next_def\<close>)

lemma slab_page_alloc:
  "\<exists>ms. request_pages 1 GFP_SLAB small_bank = Some (0x8000101c, ms) \<and> page_to_va ms 0x8000101c = 0x80001000"
proof -
  have "{1..<1 + 1 :: int} = {1}" by auto
  then have f: "pages_free (words small_bank) small_section 1 1"
    using small_bits by (simp add: pages_free_def) (simp add: small_section_def)
  have "bitmap_find_free_base (words small_bank) (bitmap small_section) 1 0 64 1 = Some 1"
    unfolding bitmap_find_free_base_def using small_bits by (simp add: find_free_loop.simps)
  then obtain st1 where s: "get_free_pages_from_section (0, 0) 1 0x401 False small_bank = Some (0x8000101c, st1)"
    "pages_taken small_bank (0, 0) 1 1 0x401 st1"
    using get_free_pages_from_section_found [of small_bank "(0, 0)" 1 1 "0x401" False] f small_bank_section
    by (auto simp: page_result_def small_section_def)
  have "map_address (pages st1 0x8000101c) = 0x80001000"
    using s(2) small_bank_section(1) by (simp add: pages_taken_def Let_def page_desc_def small_section_def)
  then show ?thesis using s(1)
    by (simp add: request_pages_def get_free_pages_internal_def get_zone_id_def zone_id_loop.simps get_pages_loop.simps
        get_free_pages_from_zone_def small_bank_section small_section_def page_to_va_def upd_zone_def)
      (simp add: small_bank_def)
qed

lemma full_bank_request: "request_pages 1 GFP_SLAB full_bank = Some (0, full_bank)"
  by (simp add: request_pages_def get_free_pages_internal_def get_zone_id_def zone_id_loop.simps get_pages_loop.simps
        get_free_pages_from_zone_def full_bank_def empty_zone_def)

section \<open>Properties\<close>

lemma slab_wf_disjoint:
  assumes "slab_wf fl (h # used) st" "b \<in> set used"
  shows "span (headers st) h \<inter> span (headers st) b = {}"
proof -
  have "blocks_ok (headers st) (concat fl @ h # used)" using assms(1) by (simp add: slab_wf_def)
  moreover from this have "h \<noteq> b" using assms(2) by (auto simp: blocks_ok_def)
  ultimately show ?thesis using assms(2) unfolding blocks_ok_def by simp
qed

text \<open>
  C5.  A request of at most 512 bytes that the pool of its size or the rest of the current
  page can serve is served: the call returns a block whose payload is at least as large as
  asked, that overlaps no block in use, and the allocator stays well-formed within the
  memory it owns; the page allocator is not called.
\<close>

theorem kmalloc_small_block:
  assumes "slab_inv owned used st" "lock_free st" "0 < sz" "sz \<le> 512"
    and "pool_of sz st \<noteq> 0 \<or> align sz 16 + 8 \<le> free_size (pslab st)"
  shows "\<exists>a st'. kmalloc sz GFP_KERNEL st = Some (a, st') \<and> a \<noteq> 0 \<and> sz \<le> hdr_size st' (a - 8)
    \<and> (\<forall>b \<in> set used. span (headers st') (a - 8) \<inter> span (headers st') b = {})
    \<and> slab_inv owned ((a - 8) # used) st' \<and> lock_free st' \<and> mm st' = mm st"
proof -
  obtain fl where wf: "slab_wf fl used st" and ow: "extent fl used st \<subseteq> owned"
    using assms(1) by (auto simp: slab_inv_def)
  have sz: "0 < sz" "sz \<le> 4080" using assms(3,4) by simp_all
  obtain h fl' st' where g: "kmalloc sz GFP_KERNEL st = Some (h + 8, st')" "slab_wf fl' (h # used) st'"
    "extent fl' (h # used) st' \<subseteq> extent fl used st" "sz \<le> hdr_size st' h" "h + 8 \<noteq> 0" "lock_free st'" "mm st' = mm st"
  proof (cases "pool_of sz st = 0")
    case True
    then show thesis using kmalloc_tail_hit [OF wf assms(2) sz] assms(5) that by auto
  next
    case False
    have c: "16 \<le> align sz 16" "align sz 16 \<le> 512" "align sz 16 mod 16 = 0"
      using align_16 [of sz] assms(3,4) by presburger+
    from kmalloc_pool_hit [OF wf assms(2) sz refl False] obtain fl' st' where
      "kmalloc sz GFP_KERNEL st = Some (pool_of sz st + 8, st')" "slab_wf fl' (pool_of sz st # used) st'"
      "extent fl' (pool_of sz st # used) st' = extent fl used st" "hdr_size st' (pool_of sz st) = hdr_size st (pool_of sz st)"
      "slab_class (hdr_size st (pool_of sz st)) = slab_class (align sz 16)" "pool_of sz st + 8 \<noteq> 0" "lock_free st'"
      "mm st' = mm st" by blast
    moreover from this have "sz \<le> hdr_size st' (pool_of sz st)"
      using class_fits [OF _ c(3,1,2)] align_16(2) [of sz] by (metis order_trans)
    ultimately show thesis using that by blast
  qed
  have "slab_inv owned (h # used) st'" using g(2,3) ow by (auto simp: slab_inv_def)
  then show ?thesis using g slab_wf_disjoint [OF g(2)] by (intro exI [of _ "h + 8"] exI [of _ st']) simp
qed

theorem kmalloc_small_block_witness:
  "\<exists>a st'. kmalloc 100 GFP_KERNEL (slab_at slab_pool_table 0x10000 4096 (\<lambda>_. 0) small_bank) = Some (a, st')
     \<and> 100 \<le> hdr_size st' (a - 8) \<and> slab_inv {0x10000 ..< 0x11000} [a - 8] st'"
proof -
  let ?st = "slab_at slab_pool_table 0x10000 4096 (\<lambda>_. 0) small_bank"
  have "slab_inv {0x10000 ..< 0x11000} [] ?st" using slab_at_fresh [of 4096 "0x10000"] by simp
  moreover have "lock_free ?st" "align 100 16 + 8 \<le> free_size (pslab ?st)"
    by (simp_all add: lock_free_def slab_at_def align_def)
  ultimately show ?thesis using kmalloc_small_block [of "{0x10000 ..< 0x11000}" "[]" ?st 100] by simp blast
qed



text \<open>
  C6.  Freeing a block in use returns it to the pool of its size, and the next request of
  that size is served with this very block.
\<close>

theorem kfree_then_kmalloc:
  assumes "slab_inv owned used st" "lock_free st" "h \<in> set used"
    and "0 < sz" "sz \<le> 4080" "slab_class (align sz 16) = slab_class (hdr_size st h)"
  shows "\<exists>st1 st2. kfree (h + 8) st = Some st1 \<and> slab_inv owned (remove1 h used) st1
    \<and> kmalloc sz GFP_KERNEL st1 = Some (h + 8, st2) \<and> slab_inv owned (h # remove1 h used) st2 \<and> lock_free st2"
proof -
  obtain fl where wf: "slab_wf fl used st" and ow: "extent fl used st \<subseteq> owned"
    using assms(1) by (auto simp: slab_inv_def)
  have p: "pools_ok fl st" and b: "blk (headers st) h" and mg: "hdr_next st h = SLAB_MAGIC"
    using wf assms(3) by (auto simp: slab_wf_def blocks_ok_def)
  then have "16 \<le> hdr_size st h" by (simp add: blk_def hdr_size_def)
  note c = class_index [OF this]
  define i where "i = nat (slab_class (hdr_size st h))"
  have i: "slab_class (hdr_size st h) = int i" "i < 33" using c by (simp_all add: i_def)
  have pid: "slab_pool_id (hdr_size st h) st = int i" using slab_pool_id_class [OF p] i(1) by simp
  have at: "pool_at (int i) st = Some (pool (pslab st) ! i)" using p i(2) by (simp add: pool_at_def pools_ok_def)
  let ?st = "add_slab_to_slab_pool h (int i) (locked st)"
  have kf: "kfree (h + 8) st = Some (slab_unlock ?st)"
    using header_words(4) [OF b] mg
    by (simp add: kfree_def slab_lock_free [OF assms(2)] base_to_header_def pid at hdr_next_def Let_def)
  have w: "slab_wf (fl[i := h # fl ! i]) (remove1 h used) ?st"
    "extent (fl[i := h # fl ! i]) (remove1 h used) ?st = extent fl used st"
    using pool_push [of fl used "locked st" h i] wf assms(3) i by simp_all
  have hd: "pool_of sz (slab_unlock ?st) = h"
    using i p assms(6) by (simp add: pool_of_def add_slab_to_slab_pool_def pools_ok_def)
  have h0: "h \<noteq> 0" using b by (simp add: blk_def)
  have wu: "slab_wf (fl[i := h # fl ! i]) (remove1 h used) (slab_unlock ?st)" using w by simp
  obtain fl' st2 where k: "kmalloc sz GFP_KERNEL (slab_unlock ?st) = Some (h + 8, st2)"
    "slab_wf fl' (h # remove1 h used) st2" "extent fl' (h # remove1 h used) st2 = extent fl used st" "lock_free st2"
    using kmalloc_pool_hit [OF wu _ assms(4,5) hd h0] w(2) by auto
  have "slab_inv owned (remove1 h used) (slab_unlock ?st)" using w ow by (auto simp: slab_inv_def)
  moreover have "slab_inv owned (h # remove1 h used) st2" using k ow by (auto simp: slab_inv_def)
  ultimately show ?thesis using kf k(1,4) by blast
qed

theorem kfree_then_kmalloc_witness:
  "\<exists>st1 st2. kfree 0x10008 (slab_at slab_pool_table 0x10018 0xfe8 ((\<lambda>_. 0)(0x10000 := 16, 0x10004 := SLAB_MAGIC)) small_bank)
       = Some st1 \<and> kmalloc 10 GFP_KERNEL st1 = Some (0x10008, st2)"
proof -
  let ?st = "slab_at slab_pool_table 0x10018 0xfe8 ((\<lambda>_. 0)(0x10000 := 16, 0x10004 := SLAB_MAGIC)) small_bank"
  have "lock_free ?st" "slab_class (align 10 16) = slab_class (hdr_size ?st 0x10000)"
    by (simp_all add: lock_free_def slab_at_def align_def hdr_size_def)
  then show ?thesis using kfree_then_kmalloc [OF slab_at_used [of small_bank], of "0x10000" 10] by simp blast
qed



text \<open>
  C39.  Requests above 512 bytes are not safe: all larger blocks share one pool, and the
  first block of it is handed out whatever its size, even if it is smaller than asked.
\<close>

theorem kmalloc_large_unchecked:
  assumes "slab_inv owned used st" "lock_free st" "512 < sz" "sz \<le> 4080"
    and "pool_head (pool (pslab st) ! 32) = h" "h \<noteq> 0"
  shows "\<exists>st'. kmalloc sz GFP_KERNEL st = Some (h + 8, st') \<and> hdr_size st' h = hdr_size st h"
proof -
  obtain fl where wf: "slab_wf fl used st" using assms(1) by (auto simp: slab_inv_def)
  have "16 * (align sz 16 div 16) = align sz 16" using align_16(1) [of sz] mult_div_mod_eq [of 16 "align sz 16"] by linarith
  then have "33 \<le> align sz 16 div 16" using align_16(2) [of sz] assms(3) by linarith
  then have "slab_class (align sz 16) = 32" by (simp add: slab_class_def Let_def)
  then have h: "pool_of sz st = h" using assms(5) by (simp add: pool_of_def)
  have "0 < sz" using assms(3) by simp
  from kmalloc_pool_hit [OF wf assms(2) this assms(4) h assms(6)] show ?thesis by blast
qed

theorem kmalloc_large_unchecked_witness:
  "\<exists>st'. kmalloc 4000 GFP_KERNEL
       (slab_at (slab_pool_table[32 := (slab_pool_table ! 32)\<lparr>pool_head := 0x10000\<rparr>]) 0x10218 0 ((\<lambda>_. 0)(0x10000 := 528)) small_bank)
     = Some (0x10008, st') \<and> hdr_size st' 0x10000 = 528"
proof -
  let ?ps = "slab_pool_table[32 := (slab_pool_table ! 32)\<lparr>pool_head := 0x10000\<rparr>]"
  let ?st = "slab_at ?ps 0x10218 0 ((\<lambda>_. 0)(0x10000 := 528)) small_bank"
  let ?fl = "replicate 32 [] @ [[0x10000 :: u32]]"
  have fl: "?fl ! i = (if i = 32 then [0x10000] else [])" "pool_head (?ps ! i) = (if i = 32 then 0x10000 else 0)"
    if "i < 33" for i
    using that slab_pool_table_nth by (auto simp: nth_append nth_list_update)
  have "chain (headers ?st) (pool_head (?ps ! i)) (?fl ! i)" if "i < 33" for i
    using fl [OF that] by (simp add: slab_at_def)
  moreover have "slab_class (hdr_size ?st x) = int i" if "i < 33" "x \<in> set (?fl ! i)" for i x
    using fl [OF that(1)] that by (auto simp: slab_at_def hdr_size_def slab_class_def split: if_splits)
  moreover have "length ?ps = 33" "pool_size (?ps ! 0) = 16" using slab_pool_table_nth by simp_all
  ultimately have "pools_ok ?fl ?st" unfolding pools_ok_def by (simp add: slab_at_def min_slab_def)
  moreover have "concat ?fl = [0x10000]" by (simp add: concat_replicate_trivial)
  ultimately have "slab_wf ?fl [] ?st"
    unfolding slab_wf_def blocks_ok_def tail_ok_def free_tail_def by (simp add: slab_at_def blk_def)
  then have "slab_inv (extent ?fl [] ?st) [] ?st" by (auto simp: slab_inv_def)
  moreover have "pool_head (pool (pslab ?st) ! 32) = 0x10000" "hdr_size ?st 0x10000 = 528" "lock_free ?st"
    using slab_pool_table_nth(2) by (simp_all add: slab_at_def hdr_size_def lock_free_def)
  ultimately show ?thesis using kmalloc_large_unchecked [of _ "[]" ?st 4000 "0x10000"] by simp
qed

end
