(* ===== verification/Disk.thy ===== *)
theory Disk
  imports Slab
begin

text \<open>
  kernel/disk.c and kernel/memdisk.c: the table of disks with their partitions and the RAM
  disk.  Structures that \<open>kzalloc\<close> returns are records in a store indexed by their
  address; sector data is in the byte memory of the kernel (the payload of the allocator's
  state).  The disk mutex and the spin lock only serialise calls; each call is one step here.
\<close>

section \<open>Model\<close>

record disk_operations =
  op_read_sectors :: "addr \<Rightarrow> u32 \<Rightarrow> int \<Rightarrow> byte_mem \<Rightarrow> int \<times> byte_mem"
  op_write_sectors :: "addr \<Rightarrow> u32 \<Rightarrow> int \<Rightarrow> byte_mem \<Rightarrow> int \<times> byte_mem"

record bdev =
  start_sector :: u32
  bdev_sector_nr :: u32
  max_start :: u32
  minor :: int
  bdev_disk :: addr

record disk =
  disk_name :: "u8 list"
  disk_ops :: disk_operations
  blk_n_sectors :: int
  partitions :: int
  disk_bdev :: "bdev option list"
  sector_size :: u32
  disk_sector_nr :: u32

record disk_state =
  kmem :: slab_state
  disk_table :: "addr list"
  major_current :: int
  disks :: "addr \<Rightarrow> disk"

abbreviation (input) MAX_DISK :: int where "MAX_DISK \<equiv> 4"
abbreviation (input) DISK_MAX_PARTITIONS :: nat where "DISK_MAX_PARTITIONS \<equiv> 4"
abbreviation (input) BLOCK_SIZE :: int where "BLOCK_SIZE \<equiv> 4096"
abbreviation (input) MEMDISK_SECTOR_SIZE :: u32 where "MEMDISK_SECTOR_SIZE \<equiv> 512"

abbreviation dmem :: "disk_state \<Rightarrow> byte_mem" where "dmem st \<equiv> payload (kmem st)"

definition set_dmem :: "byte_mem \<Rightarrow> disk_state \<Rightarrow> disk_state" where
  "set_dmem m st = st\<lparr>kmem := (kmem st)\<lparr>payload := m\<rparr>\<rparr>"

definition read_sectors :: "bdev \<Rightarrow> addr \<Rightarrow> u32 \<Rightarrow> int \<Rightarrow> disk_state \<Rightarrow> int \<times> disk_state" where
  "read_sectors b buf start cnt st =
     (if start > max_start b then (- EINVAL, st)
      else let (ret, m) = op_read_sectors (disk_ops (disks st (bdev_disk b))) buf start cnt (dmem st)
           in (ret, set_dmem m st))"

definition write_sectors :: "bdev \<Rightarrow> addr \<Rightarrow> u32 \<Rightarrow> int \<Rightarrow> disk_state \<Rightarrow> int \<times> disk_state" where
  "write_sectors b buf start cnt st =
     (if start > max_start b then (- EINVAL, st)
      else let (ret, m) = op_write_sectors (disk_ops (disks st (bdev_disk b))) buf start cnt (dmem st)
           in (ret, set_dmem m st))"

definition disk_get_bdev :: "u8 \<Rightarrow> u8 \<Rightarrow> disk_state \<Rightarrow> bdev option" where
  "disk_get_bdev major mnr st =
     (if uint major \<ge> MAX_DISK \<or> unat mnr \<ge> DISK_MAX_PARTITIONS then None
      else let d = disk_table st ! unat major in
           if d = 0 then None else disk_bdev (disks st d) ! unat mnr)"

definition alloc_bdev :: "disk_state \<Rightarrow> (addr \<times> disk_state) option" where
  "alloc_bdev st = map_option (\<lambda>(a, s). (a, st\<lparr>kmem := s\<rparr>)) (kzalloc 20 GFP_KERNEL (kmem st))"

definition upd_disk :: "addr \<Rightarrow> (disk \<Rightarrow> disk) \<Rightarrow> disk_state \<Rightarrow> disk_state" where
  "upd_disk d f st = st\<lparr>disks := (disks st)(d := f (disks st d))\<rparr>"

definition init_disk :: "addr \<Rightarrow> disk_operations \<Rightarrow> disk_state \<Rightarrow> (int \<times> disk_state) option" where
  "init_disk d ops st =
     (if major_current st = MAX_DISK then Some (- ENOMEM, st)
      else if \<not> (0 \<le> major_current st \<and> nat (major_current st) < length (disk_table st)) then None
      else
        let st = st\<lparr>disk_table := (disk_table st)[nat (major_current st) := d], major_current := major_current st + 1\<rparr>;
            st = upd_disk d (\<lambda>k. k\<lparr>disk_ops := ops, partitions := 1, sector_size := 512, disk_sector_nr := 2048,
                                   blk_n_sectors := BLOCK_SIZE div 512\<rparr>) st
        in map_option (\<lambda>(b, st).
             if b = 0 then (- ENOMEM, st)
             else
               let bd = \<lparr>start_sector = 4, bdev_sector_nr = 2048,
                         max_start = 4 + 2048 - word_of_int (blk_n_sectors (disks st d)), minor = 0, bdev_disk = d\<rparr>
               in (0, upd_disk d (\<lambda>k. k\<lparr>disk_bdev := (disk_bdev k)[0 := Some bd]\<rparr>) st))
             (alloc_bdev st))"

text \<open>The fields of a structure that \<open>kzalloc\<close> has cleared.\<close>

definition zero_disk :: disk where
  "zero_disk = \<lparr>disk_name = replicate 32 0, disk_ops = \<lparr>op_read_sectors = (\<lambda>_ _ _ m. (0, m)), op_write_sectors = (\<lambda>_ _ _ m. (0, m))\<rparr>,
     blk_n_sectors = 0, partitions = 0, disk_bdev = replicate 4 None, sector_size = 0, disk_sector_nr = 0\<rparr>"

definition disk_free :: "addr \<Rightarrow> disk_state \<Rightarrow> disk_state option" where
  "disk_free a st = map_option (\<lambda>s. st\<lparr>kmem := s\<rparr>) (kfree a (kmem st))"

definition get_free_page :: "disk_state \<Rightarrow> (addr \<times> disk_state) option" where
  "get_free_page st =
     map_option (\<lambda>(a, ms). (a, st\<lparr>kmem := (kmem st)\<lparr>mm := ms\<rparr>\<rparr>)) (get_free_pages 1 GFP_KERNEL (mm (kmem st)))"

definition alloc_and_init_disk :: "disk_operations \<Rightarrow> disk_state \<Rightarrow> (addr \<times> disk_state) option" where
  "alloc_and_init_disk ops st =
     Option.bind (kzalloc 100 GFP_KERNEL (kmem st)) (\<lambda>(d, s).
       let st = st\<lparr>kmem := s, disks := (disks st)(d := zero_disk)\<rparr> in
       if d = 0 then Some (0, st)
       else
         Option.bind (get_free_page st) (\<lambda>(buf, st).
           if buf = 0 then map_option (Pair 0) (disk_free d st)
           else
             let (ret, m) = op_read_sectors ops buf 0 1 (dmem st); st = set_dmem m st in
             if ret \<noteq> 0
             then Option.bind (disk_free buf st) (\<lambda>st. map_option (Pair 0) (disk_free d st))
             else
               Option.bind (init_disk d ops st) (\<lambda>(ret, st).
                 if ret \<noteq> 0
                 then Option.bind (disk_free buf st) (\<lambda>st. map_option (Pair 0) (disk_free d st))
                 else map_option (Pair d) (disk_free buf st))))"

text \<open>\<open>name\<close> is the address of the name, or null; a name longer than the field is written past its end.\<close>

definition register_disk :: "addr \<Rightarrow> disk_operations \<Rightarrow> disk_state \<Rightarrow> (int \<times> disk_state) option" where
  "register_disk name ops st =
     Option.bind (alloc_and_init_disk ops st) (\<lambda>(d, st).
       if d = 0 then Some (- ENOMEM, st)
       else if name = 0 then Some (0, st)
       else Option.bind (strlen (dmem st) name) (\<lambda>n.
         if n > 32 then None
         else Some (0, upd_disk d (\<lambda>k. k\<lparr>disk_name := bytes_at (dmem st) name (nat n) @ drop (nat n) (disk_name k)\<rparr>) st)))"

section \<open>The RAM disk\<close>

definition MEMDISK_ADDRESS :: "addr \<Rightarrow> u32 \<Rightarrow> addr" where
  "MEMDISK_ADDRESS ramdisk_start sector = ramdisk_start + sector * MEMDISK_SECTOR_SIZE"

definition memdisk_read_sectors :: "addr \<Rightarrow> addr \<Rightarrow> u32 \<Rightarrow> int \<Rightarrow> byte_mem \<Rightarrow> int \<times> byte_mem" where
  "memdisk_read_sectors ramdisk_start buffer s_sector cnt m =
     (0, snd (memcpy m buffer (MEMDISK_ADDRESS ramdisk_start s_sector) (cnt * 512)))"

definition memdisk_write_sectors :: "addr \<Rightarrow> addr \<Rightarrow> u32 \<Rightarrow> int \<Rightarrow> byte_mem \<Rightarrow> int \<times> byte_mem" where
  "memdisk_write_sectors ramdisk_start buffer s_sector cnt m =
     (0, snd (memcpy m (MEMDISK_ADDRESS ramdisk_start s_sector) buffer (cnt * 512)))"

definition memdisk_ops :: "addr \<Rightarrow> disk_operations" where
  "memdisk_ops ramdisk_start =
     \<lparr>op_read_sectors = memdisk_read_sectors ramdisk_start, op_write_sectors = memdisk_write_sectors ramdisk_start\<rparr>"

definition memdisk_init :: "addr \<Rightarrow> addr \<Rightarrow> disk_state \<Rightarrow> (int \<times> disk_state) option" where
  "memdisk_init ramdisk_start name st = register_disk name (memdisk_ops ramdisk_start) st"

section \<open>A store of sectors\<close>

text \<open>
  What the users of a disk rely on: reading fills the buffer with the sectors and changes
  nothing else, writing replaces the sectors by the buffer and nothing else.  \<open>off_disk\<close>
  tells which memory is no part of the disk.
\<close>

locale sector_store =
  fixes rd wr :: "addr \<Rightarrow> u32 \<Rightarrow> int \<Rightarrow> byte_mem \<Rightarrow> int \<times> byte_mem"
    and sectors :: "byte_mem \<Rightarrow> nat \<Rightarrow> nat \<Rightarrow> u8 list"
    and off_disk :: "addr \<Rightarrow> nat \<Rightarrow> bool"
    and total :: nat
  assumes rd_ok: "fst (rd buf c i m) = 0"
    and wr_ok: "fst (wr buf c i m) = 0"
    and rd_data: "off_disk buf (512 * n) \<Longrightarrow> s + n \<le> total
      \<Longrightarrow> bytes_at (snd (rd buf (word_of_nat s) (int n) m)) buf (512 * n) = sectors m s n"
    and rd_sectors: "off_disk buf (512 * n) \<Longrightarrow> s + n \<le> total \<Longrightarrow> k + l \<le> total
      \<Longrightarrow> sectors (snd (rd buf (word_of_nat s) (int n) m)) k l = sectors m k l"
    and rd_other: "off_disk buf (512 * n) \<Longrightarrow> s + n \<le> total \<Longrightarrow> apart buf (512 * n) p k
      \<Longrightarrow> bytes_at (snd (rd buf (word_of_nat s) (int n) m)) p k = bytes_at m p k"
    and wr_data: "off_disk buf (512 * n) \<Longrightarrow> s + n \<le> total
      \<Longrightarrow> sectors (snd (wr buf (word_of_nat s) (int n) m)) s n = bytes_at m buf (512 * n)"
    and wr_sectors: "off_disk buf (512 * n) \<Longrightarrow> s + n \<le> total \<Longrightarrow> k + l \<le> total \<Longrightarrow> k + l \<le> s \<or> s + n \<le> k
      \<Longrightarrow> sectors (snd (wr buf (word_of_nat s) (int n) m)) k l = sectors m k l"
    and wr_other: "off_disk buf (512 * n) \<Longrightarrow> s + n \<le> total \<Longrightarrow> off_disk p k
      \<Longrightarrow> bytes_at (snd (wr buf (word_of_nat s) (int n) m)) p k = bytes_at m p k"
begin

lemma write_read:
  assumes "off_disk buf (512 * n)" "off_disk buf' (512 * n)" "s + n \<le> total"
  shows "bytes_at (snd (rd buf' (word_of_nat s) (int n) (snd (wr buf (word_of_nat s) (int n) m)))) buf' (512 * n)
    = bytes_at m buf (512 * n)"
  using rd_data [OF assms(2,3)] wr_data [OF assms(1,3)] by simp

lemma write_read_other:
  assumes "off_disk buf (512 * n)" "off_disk buf' (512 * l)" "s + n \<le> total" "k + l \<le> total" "k + l \<le> s \<or> s + n \<le> k"
  shows "bytes_at (snd (rd buf' (word_of_nat k) (int l) (snd (wr buf (word_of_nat s) (int n) m)))) buf' (512 * l)
    = bytes_at (snd (rd buf' (word_of_nat k) (int l) m)) buf' (512 * l)"
  using rd_data [OF assms(2,4)] wr_sectors [OF assms(1,3,4,5)] by simp

end

text \<open>The RAM disk has 2048 sectors.\<close>

abbreviation RAMDISK_SECTORS :: nat where "RAMDISK_SECTORS \<equiv> 2048"

definition ram_sectors :: "addr \<Rightarrow> byte_mem \<Rightarrow> nat \<Rightarrow> nat \<Rightarrow> u8 list" where
  "ram_sectors base m s n = bytes_at m (base + word_of_nat (512 * s)) (512 * n)"

definition off_ramdisk :: "addr \<Rightarrow> addr \<Rightarrow> nat \<Rightarrow> bool" where
  "off_ramdisk base p k \<longleftrightarrow> apart p k base (512 * RAMDISK_SECTORS)"

lemma memdisk_address: "MEMDISK_ADDRESS base (word_of_nat s) = base + word_of_nat (512 * s)"
  by (simp add: MEMDISK_ADDRESS_def)

lemma off_ramdisk_part:
  assumes "off_ramdisk base p k" "s + n \<le> RAMDISK_SECTORS"
  shows "apart p k (base + word_of_nat (512 * s)) (512 * n)"
  using apart_part [of p k base "512 * RAMDISK_SECTORS" 0 k "512 * s" "512 * n"] assms by (simp add: off_ramdisk_def)

lemma ram_sectors_apart:
  assumes "s + n \<le> RAMDISK_SECTORS" "k + l \<le> RAMDISK_SECTORS" "k + l \<le> s \<or> s + n \<le> k"
  shows "apart (base + word_of_nat (512 * s)) (512 * n) (base + word_of_nat (512 * k)) (512 * l)"
proof -
  have "base + word_of_nat (512 * s) + word_of_nat i \<noteq> base + word_of_nat (512 * k) + word_of_nat j"
    if "i < 512 * n" "j < 512 * l" for i j
  proof
    assume "base + word_of_nat (512 * s) + word_of_nat i = base + word_of_nat (512 * k) + word_of_nat j"
    then have "(word_of_nat (512 * s + i) :: addr) = word_of_nat (512 * k + j)" by (simp add: algebra_simps)
    moreover have "512 * s + i < 2 ^ 32" "512 * k + j < 2 ^ 32" using that assms by simp_all
    ultimately have "512 * s + i = 512 * k + j" by (metis unat_word_of_nat)
    then show False using that assms by auto
  qed
  then show ?thesis by (simp add: apart_def)
qed

lemma memdisk_sectors:
  "memdisk_read_sectors base buf (word_of_nat s) (int n) m = (0, snd (memcpy m buf (base + word_of_nat (512 * s)) (int (512 * n))))"
  "memdisk_write_sectors base buf (word_of_nat s) (int n) m = (0, snd (memcpy m (base + word_of_nat (512 * s)) buf (int (512 * n))))"
  by (simp_all only: memdisk_read_sectors_def memdisk_write_sectors_def memdisk_address) (simp_all add: mult.commute)

interpretation memdisk: sector_store "memdisk_read_sectors base" "memdisk_write_sectors base" "ram_sectors base"
  "off_ramdisk base" RAMDISK_SECTORS for base
proof (unfold_locales, goal_cases)
  case (3 buf n s m)
  then show ?case using memcpy_target [OF off_ramdisk_part [OF 3]]
    by (simp add: memdisk_sectors ram_sectors_def del: of_nat_mult)
next
  case (4 buf n s k l m)
  then show ?case using memcpy_other [OF off_ramdisk_part [OF 4(1,2)] off_ramdisk_part [OF 4(1,3)]]
    by (simp add: memdisk_sectors ram_sectors_def del: of_nat_mult)
next
  case (5 buf n s p k m)
  then show ?case using memcpy_other [OF off_ramdisk_part [OF 5(1,2)] 5(3)]
    by (simp add: memdisk_sectors del: of_nat_mult)
next
  case (6 buf n s m)
  then show ?case using memcpy_target [OF off_ramdisk_part [OF 6, unfolded apart_sym [of buf]]]
    by (simp add: memdisk_sectors ram_sectors_def del: of_nat_mult)
next
  case (7 buf n s k l m)
  then show ?case using memcpy_other [OF off_ramdisk_part [OF 7(1,2), unfolded apart_sym [of buf]] ram_sectors_apart [OF 7(2-4)]]
    by (simp add: memdisk_sectors ram_sectors_def del: of_nat_mult)
next
  case (8 buf n s p k m)
  then show ?case using memcpy_other [OF off_ramdisk_part [OF 8(1,2), unfolded apart_sym [of buf]]
        off_ramdisk_part [OF 8(3,2), unfolded apart_sym [of p]]]
    by (simp add: memdisk_sectors del: of_nat_mult)
qed (simp_all add: memdisk_read_sectors_def memdisk_write_sectors_def)

lemma set_dmem_simps [simp]: "dmem (set_dmem m st) = m" "disks (set_dmem m st) = disks st"
  "set_dmem m (set_dmem m' st) = set_dmem m st"
  by (simp_all add: set_dmem_def)

lemma sectors_of_memdisk:
  assumes "disk_ops (disks st (bdev_disk b)) = memdisk_ops base" "start \<le> max_start b"
  shows "read_sectors b buf start n st = (0, set_dmem (snd (memdisk_read_sectors base buf start n (dmem st))) st)"
    "write_sectors b buf start n st = (0, set_dmem (snd (memdisk_write_sectors base buf start n (dmem st))) st)"
  using assms by (auto simp: read_sectors_def write_sectors_def memdisk_ops_def memdisk_read_sectors_def memdisk_write_sectors_def)

section \<open>Properties\<close>

text \<open>
  C13.  What is written to the RAM disk is read back: writing sectors and reading them into
  another buffer succeeds and gives the bytes that were written, and all other sectors are
  unchanged.
\<close>

theorem write_read_sectors:
  assumes "disk_ops (disks st (bdev_disk b)) = memdisk_ops base" "word_of_nat s \<le> max_start b" "s + n \<le> RAMDISK_SECTORS"
    and "off_ramdisk base buf (512 * n)" "off_ramdisk base buf' (512 * n)"
  shows "\<exists>st1 st2. write_sectors b buf (word_of_nat s) (int n) st = (0, st1) \<and> read_sectors b buf' (word_of_nat s) (int n) st1 = (0, st2)
    \<and> bytes_at (dmem st2) buf' (512 * n) = bytes_at (dmem st) buf (512 * n)
    \<and> (\<forall>k l. k + l \<le> RAMDISK_SECTORS \<longrightarrow> k + l \<le> s \<or> s + n \<le> k \<longrightarrow> ram_sectors base (dmem st2) k l = ram_sectors base (dmem st) k l)"
proof -
  let ?m = "snd (memdisk_write_sectors base buf (word_of_nat s) (int n) (dmem st))"
  let ?m2 = "snd (memdisk_read_sectors base buf' (word_of_nat s) (int n) ?m)"
  have "bytes_at ?m2 buf' (512 * n) = bytes_at (dmem st) buf (512 * n)" by (rule memdisk.write_read [OF assms(4,5,3)])
  moreover have "ram_sectors base ?m2 k l = ram_sectors base (dmem st) k l"
    if "k + l \<le> RAMDISK_SECTORS" "k + l \<le> s \<or> s + n \<le> k" for k l
    using memdisk.rd_sectors [OF assms(5,3) that(1), of ?m] memdisk.wr_sectors [OF assms(4,3) that] by simp
  ultimately show ?thesis
    using sectors_of_memdisk(2) [OF assms(1,2), of buf "int n"] sectors_of_memdisk(1) [of "set_dmem ?m st" b base, OF _ assms(2), of buf' "int n"] assms(1)
    by auto
qed

text \<open>A RAM disk at 1 MB; all the memory above 3 MB is no part of it.\<close>

definition demo_bdev :: bdev where
  "demo_bdev = \<lparr>start_sector = 4, bdev_sector_nr = 2048, max_start = 2044, minor = 0, bdev_disk = 0x5000\<rparr>"

definition demo_disk :: disk_state where
  "demo_disk = \<lparr>kmem = slab_at slab_pool_table 0x10000 4096 (\<lambda>_. 0) small_bank, disk_table = [0x5000, 0, 0, 0], major_current = 1,
     disks = (\<lambda>_. zero_disk\<lparr>disk_ops := memdisk_ops 0x100000\<rparr>)\<rparr>"

lemma apart_unat:
  assumes "unat (a :: addr) + n \<le> unat b" "unat b + k \<le> 2 ^ 32"
  shows "apart a n b k" "apart b k a n"
proof -
  have "a + word_of_nat i \<noteq> b + word_of_nat j" if "i < n" "j < k" for i j
  proof -
    have "a + word_of_nat i = word_of_nat (unat a + i)" "b + word_of_nat j = word_of_nat (unat b + j)" by simp_all
    moreover have "unat a + i < 2 ^ 32" "unat b + j < 2 ^ 32" "unat a + i \<noteq> unat b + j" using assms that by simp_all
    ultimately show ?thesis by (metis unat_word_of_nat)
  qed
  then show "apart a n b k" by (simp add: apart_def)
  then show "apart b k a n" by (simp add: apart_sym)
qed

theorem write_read_sectors_witness:
  "\<exists>st1 st2. write_sectors demo_bdev 0x300000 16 8 demo_disk = (0, st1) \<and> read_sectors demo_bdev 0x301000 16 8 st1 = (0, st2)
     \<and> bytes_at (dmem st2) 0x301000 4096 = bytes_at (dmem demo_disk) 0x300000 4096"
proof -
  have "off_ramdisk 0x100000 0x300000 4096" "off_ramdisk 0x100000 0x301000 4096"
    using apart_unat(2) [of "0x100000" "512 * RAMDISK_SECTORS" "0x300000" 4096]
      apart_unat(2) [of "0x100000" "512 * RAMDISK_SECTORS" "0x301000" 4096] by (simp_all add: off_ramdisk_def)
  then show ?thesis using write_read_sectors [of demo_disk demo_bdev "0x100000" 16 8 "0x300000" "0x301000"]
    by (auto simp: demo_disk_def demo_bdev_def)
qed

text \<open>
  C37.  The check of the first sector does not keep a request on the disk.  The partition that
  \<open>init_disk\<close> sets up has 2048 sectors and is 1 MB large, but a block at sector 2044 is
  accepted, and writing it overwrites the 2 KB of memory behind the RAM disk.
\<close>

theorem partition_end_unchecked:
  assumes "init_disk d (memdisk_ops base) st = Some (0, st1)" "d \<noteq> 0" "0 \<le> major_current st" "major_current st < MAX_DISK"
    and "length (disk_bdev (disks st d)) = 4" "apart buf 4096 (base + word_of_nat (512 * 2044)) 4096"
  shows "\<exists>b st2. disk_get_bdev (word_of_int (major_current st)) 0 st1 = Some b \<and> write_sectors b buf 2044 8 st1 = (0, st2)
    \<and> bytes_at (dmem st2) (base + word_of_nat (512 * RAMDISK_SECTORS)) 2048 = bytes_at (dmem st1) (buf + 2048) 2048"
proof -
  let ?i = "nat (major_current st)"
  obtain a s where a: "alloc_bdev (upd_disk d (\<lambda>k. k\<lparr>disk_ops := memdisk_ops base, partitions := 1, sector_size := 512,
        disk_sector_nr := 2048, blk_n_sectors := BLOCK_SIZE div 512\<rparr>)
      (st\<lparr>disk_table := (disk_table st)[?i := d], major_current := major_current st + 1\<rparr>)) = Some (a, s)"
    and s: "st1 = upd_disk d (\<lambda>k. k\<lparr>disk_bdev := (disk_bdev k)[0 := Some \<lparr>start_sector = 4, bdev_sector_nr = 2048,
        max_start = 4 + 2048 - word_of_int (blk_n_sectors (disks s d)), minor = 0, bdev_disk = d\<rparr>]\<rparr>) s"
    and i: "?i < length (disk_table st)"
    using assms(1,3,4) by (auto simp: init_disk_def Let_def split: if_splits)
  have d: "disks s d = (disks st d)\<lparr>disk_ops := memdisk_ops base, partitions := 1, sector_size := 512,
        disk_sector_nr := 2048, blk_n_sectors := 8\<rparr>" "disk_table s = (disk_table st)[?i := d]"
    using a by (auto simp: alloc_bdev_def upd_disk_def)
  let ?b = "\<lparr>start_sector = 4, bdev_sector_nr = 2048, max_start = 2044, minor = 0, bdev_disk = d\<rparr>"
  have m: "unat (word_of_int (major_current st) :: u8) = ?i" "uint (word_of_int (major_current st) :: u8) = major_current st"
    using assms(3,4) by (simp_all add: unat_eq_nat_uint uint_word_of_int)
  have g: "disk_get_bdev (word_of_int (major_current st)) 0 st1 = Some ?b"
    using s d i m assms(2,4,5) by (simp add: disk_get_bdev_def Let_def upd_disk_def)
  have o: "disk_ops (disks st1 (bdev_disk ?b)) = memdisk_ops base" using s d by (simp add: upd_disk_def)
  let ?m = "snd (memdisk_write_sectors base buf (word_of_nat 2044) (int 8) (dmem st1))"
  have w: "write_sectors ?b buf 2044 8 st1 = (0, set_dmem ?m st1)" using sectors_of_memdisk(2) [OF o, of 2044 buf 8] by simp
  have "bytes_at ?m (base + word_of_nat (512 * 2044)) (2048 + 2048) = bytes_at (dmem st1) buf (2048 + 2048)"
    unfolding memdisk_sectors snd_conv
    using memcpy_target [of "base + word_of_nat (512 * 2044)" 4096 buf] assms(6) [unfolded apart_sym [of buf]] by simp
  then have "bytes_at ?m (base + word_of_nat (512 * 2044) + word_of_nat 2048) 2048 = bytes_at (dmem st1) (buf + word_of_nat 2048) 2048"
    unfolding bytes_at_append by simp
  then have "bytes_at ?m (base + word_of_nat (512 * RAMDISK_SECTORS)) 2048 = bytes_at (dmem st1) (buf + 2048) 2048"
    by (simp add: algebra_simps)
  then show ?thesis using g w by auto
qed

lemma demo_kzalloc:
  "\<exists>a s. kzalloc 20 GFP_KERNEL (kmem demo_disk) = Some (a, s) \<and> a \<noteq> 0"
proof -
  let ?s = "kmem demo_disk"
  obtain fl where wf: "slab_wf fl [] ?s"
    using slab_at_fresh [of 4096 "0x10000" "\<lambda>_. 0" small_bank] by (auto simp: demo_disk_def slab_inv_def)
  have "pool_of 20 ?s = 0" "align 20 16 + 8 \<le> free_size (pslab ?s)" "lock_free ?s"
    by (simp_all add: demo_disk_def slab_at_def pool_of_def slab_pool_table_def lock_free_def align_def slab_class_def nth_append)
  then obtain h s' where "kmalloc 20 GFP_KERNEL ?s = Some (h + 8, s')" "h + 8 \<noteq> 0"
    using kmalloc_tail_hit [OF wf, of 20] by auto
  then show ?thesis by (auto simp: kzalloc_def)
qed

theorem partition_end_unchecked_witness:
  "\<exists>b st1 st2. init_disk 0x5000 (memdisk_ops 0x100000) demo_disk = Some (0, st1) \<and> disk_get_bdev 1 0 st1 = Some b
     \<and> write_sectors b 0x300000 2044 8 st1 = (0, st2) \<and> bytes_at (dmem st2) 0x200000 2048 = bytes_at (dmem st1) 0x300800 2048"
proof -
  obtain st1 where st1: "init_disk 0x5000 (memdisk_ops 0x100000) demo_disk = Some (0, st1)"
    using demo_kzalloc by (auto simp: init_disk_def Let_def alloc_bdev_def upd_disk_def demo_disk_def)
  have "apart 0x300000 4096 (0x100000 + word_of_nat (512 * 2044)) 4096"
    using apart_unat(2) [of "0x1ff800" 4096 "0x300000" 4096] by simp
  then show ?thesis using partition_end_unchecked [OF st1, of "0x300000"] st1 by (simp add: demo_disk_def zero_disk_def)
qed

end
