(* ===== verification/Vfs.thy ===== *)
theory Vfs
  imports Disk Bitops "HOL-Library.Monad_Syntax" "HOL-Library.Signed_Division"
begin

text \<open>
  fs/vfs.c with the structures of include/os/fnode.h, filesystem.h and file.h: reading,
  writing and positioning in a file by blocks, through the operations of a file system.

  A file system is the record of its operations, as in C; \<open>'p\<close> is the type of its private
  data of a file, \<open>'q\<close> of a super block.  An open file owns its fnode, so a file record
  contains the fnode record; \<open>fnode_at\<close> and \<open>file_at\<close> are the addresses of the two
  structures.  Sizes and offsets are signed in this code base (\<open>size_t\<close> is \<open>int\<close>).
  \<^const>\<open>None\<close> is a call that does not return or reads a variable that was never set.
\<close>

section \<open>Structures\<close>

record 'p fnode =
  fnode_at :: addr
  fn_mode :: u8
  fn_state :: u8
  nlinks :: u16
  fn_dev :: u32
  fn_gid :: u16
  fn_uid :: u16
  atime :: int
  mtime :: int
  ctime :: int
  blk_cnt :: int
  blk_size :: int
  fn_flags :: u32
  fn_type :: u8
  fnode_size :: u16
  psize :: u16
  data_size :: int
  buffer_size :: int
  rw_pos :: int
  fn_sb :: addr
  data_buffer :: addr
  fn_current_block :: u32
  private_data :: 'p

record 'q super_block =
  sb_dev :: u32
  sb_dir :: u8
  block_size_bits :: u8
  sb_block_size :: u16
  max_file :: int
  sb_flags :: u32
  sb_magic :: u32
  sb_bdev :: "bdev option"
  sb_private :: 'q

record 'q fs_state =
  fdisk :: disk_state
  sbs :: "addr \<Rightarrow> 'q super_block"
  bit_words :: word_mem
  iname_buffer :: addr
  iname_buffer_base :: addr
  dbuffer :: addr

record ('p, 'q) filesystem_ops =
  get_root_fnode :: "addr \<Rightarrow> 'q fs_state \<Rightarrow> ('p fnode option \<times> 'q fs_state) option"
  get_data_block :: "'p fnode \<Rightarrow> int \<Rightarrow> 'q fs_state \<Rightarrow> (u32 \<times> 'p fnode \<times> 'q fs_state) option"
  find_file :: "addr \<Rightarrow> 'p fnode \<Rightarrow> addr \<Rightarrow> 'q fs_state \<Rightarrow> (int \<times> 'p fnode \<times> 'q fs_state) option"
  op_copy_fnode :: "('p fnode \<Rightarrow> 'p fnode \<Rightarrow> 'q fs_state \<Rightarrow> (int \<times> 'p fnode \<times> 'q fs_state) option) option"
  get_block :: "('p fnode \<Rightarrow> 'q fs_state \<Rightarrow> (u32 \<times> 'p fnode \<times> 'q fs_state) option) option"
  read_block :: "addr \<Rightarrow> addr \<Rightarrow> u32 \<Rightarrow> 'q fs_state \<Rightarrow> (int \<times> 'q fs_state) option"
  write_block :: "addr \<Rightarrow> addr \<Rightarrow> u32 \<Rightarrow> 'q fs_state \<Rightarrow> (int \<times> 'q fs_state) option"
  parse_name :: "(addr \<Rightarrow> 'q fs_state \<Rightarrow> (int \<times> 'q fs_state) option) option"
  op_getdents :: "'p fnode \<Rightarrow> addr \<Rightarrow> addr \<Rightarrow> 'q fs_state \<Rightarrow> (int \<times> 'q fs_state) option"
  fill_super :: "bdev option \<Rightarrow> addr \<Rightarrow> 'q fs_state \<Rightarrow> (int \<times> 'q fs_state) option"
  op_release_fnode :: "('p fnode \<Rightarrow> 'q fs_state \<Rightarrow> (int \<times> 'q fs_state) option) option"

record ('p, 'q) filesystem =
  fops :: "('p, 'q) filesystem_ops"
  fs_flag :: u32

record 'p file_struct =
  file_at :: addr
  f_type :: u8
  f_flag :: u32
  file_fnode :: "'p fnode"
  offset :: int

abbreviation (input) VFS_NEXT_BLOCK :: int where "VFS_NEXT_BLOCK \<equiv> 0"
abbreviation (input) VFS_PREV_BLOCK :: int where "VFS_PREV_BLOCK \<equiv> 1"
abbreviation (input) VFS_START_BLOCK :: int where "VFS_START_BLOCK \<equiv> 2"
abbreviation (input) VFS_CURRENT_BLOCK :: int where "VFS_CURRENT_BLOCK \<equiv> 4"
abbreviation (input) FS_FOPS_PREV_BLOCK :: u32 where "FS_FOPS_PREV_BLOCK \<equiv> 2"
abbreviation (input) SEEK_SET :: int where "SEEK_SET \<equiv> 0"
abbreviation (input) SEEK_CUR :: int where "SEEK_CUR \<equiv> 1"
abbreviation (input) SEEK_END :: int where "SEEK_END \<equiv> 2"
abbreviation (input) DT_CHR :: u8 where "DT_CHR \<equiv> 2"
abbreviation (input) DT_DIR :: u8 where "DT_DIR \<equiv> 4"
abbreviation (input) DT_BLK :: u8 where "DT_BLK \<equiv> 6"
abbreviation (input) DT_ANY :: u8 where "DT_ANY \<equiv> 0xff"

abbreviation fmem :: "'q fs_state \<Rightarrow> byte_mem" where "fmem st \<equiv> dmem (fdisk st)"

definition set_fmem :: "byte_mem \<Rightarrow> 'q fs_state \<Rightarrow> 'q fs_state" where
  "set_fmem m st = st\<lparr>fdisk := set_dmem m (fdisk st)\<rparr>"

definition fcopy :: "addr \<Rightarrow> addr \<Rightarrow> int \<Rightarrow> 'q fs_state \<Rightarrow> 'q fs_state" where
  "fcopy target source sz st = set_fmem (snd (memcpy (fmem st) target source sz)) st"

definition ffree :: "addr \<Rightarrow> 'q fs_state \<Rightarrow> 'q fs_state option" where
  "ffree a st = map_option (\<lambda>d. st\<lparr>fdisk := d\<rparr>) (disk_free a (fdisk st))"

section \<open>Blocks\<close>

definition vfs_get_new_data_block ::
    "('p, 'q) filesystem \<Rightarrow> 'p fnode \<Rightarrow> 'q fs_state \<Rightarrow> (u32 \<times> 'p fnode \<times> 'q fs_state) option" where
  "vfs_get_new_data_block fs fn st =
     (case get_block (fops fs) of
        None \<Rightarrow> Some (0, fn, st)
      | Some get \<Rightarrow> do {
          (block, fn, st) \<leftarrow> get fn st;
          Some (if block = 0 then (0, fn, st) else (block, fn\<lparr>blk_cnt := blk_cnt fn + 1\<rparr>, st))
        })"

definition vfs_get_data_block ::
    "('p, 'q) filesystem \<Rightarrow> 'p fnode \<Rightarrow> int \<Rightarrow> 'q fs_state \<Rightarrow> (u32 \<times> 'p fnode \<times> 'q fs_state) option" where
  "vfs_get_data_block fs fn whence st = get_data_block (fops fs) fn whence st"

definition vfs_read_block_at ::
    "('p, 'q) filesystem \<Rightarrow> 'p fnode \<Rightarrow> addr \<Rightarrow> u32 \<Rightarrow> 'q fs_state \<Rightarrow> (int \<times> 'q fs_state) option" where
  "vfs_read_block_at fs fn buffer block st = read_block (fops fs) (fn_sb fn) buffer block st"

definition vfs_write_block_at ::
    "('p, 'q) filesystem \<Rightarrow> 'p fnode \<Rightarrow> addr \<Rightarrow> u32 \<Rightarrow> 'q fs_state \<Rightarrow> (int \<times> 'q fs_state) option" where
  "vfs_write_block_at fs fn buffer block st = write_block (fops fs) (fn_sb fn) buffer block st"

definition vfs_read_block ::
    "('p, 'q) filesystem \<Rightarrow> 'p fnode \<Rightarrow> addr \<Rightarrow> int \<Rightarrow> 'q fs_state \<Rightarrow> (int \<times> 'p fnode \<times> 'q fs_state) option" where
  "vfs_read_block fs fn buffer whence st = do {
     (block, fn, st) \<leftarrow> vfs_get_data_block fs fn whence st;
     if block = 0 then Some (- ENOSPC, fn, st)
     else do {
       let fn = fn\<lparr>fn_current_block := block\<rparr>;
       (err, st) \<leftarrow> vfs_read_block_at fs fn buffer block st;
       Some (err, fn, st)
     }
   }"

definition vfs_write_block ::
    "('p, 'q) filesystem \<Rightarrow> 'p fnode \<Rightarrow> addr \<Rightarrow> int \<Rightarrow> 'q fs_state \<Rightarrow> (int \<times> 'p fnode \<times> 'q fs_state) option" where
  "vfs_write_block fs fn buffer whence st = do {
     (block, fn, st) \<leftarrow> vfs_get_data_block fs fn whence st;
     if block = 0 then Some (- ENOSPC, fn, st)
     else do {
       let fn = fn\<lparr>fn_current_block := block\<rparr>;
       (err, st) \<leftarrow> vfs_write_block_at fs fn buffer block st;
       Some (err, fn, st)
     }
   }"

definition vfs_open :: "('p, 'q) filesystem \<Rightarrow> 'p file_struct \<Rightarrow> 'q fs_state \<Rightarrow> (int \<times> 'p file_struct \<times> 'q fs_state) option" where
  "vfs_open fs f st = do {
     (err, fn, st) \<leftarrow> vfs_read_block fs (file_fnode f) (data_buffer (file_fnode f)) VFS_START_BLOCK st;
     Some (err, f\<lparr>file_fnode := fn\<rparr>, st)
   }"

section \<open>Reading and writing\<close>

definition upd_fn :: "('p fnode \<Rightarrow> 'p fnode) \<Rightarrow> 'p file_struct \<Rightarrow> 'p file_struct" where
  "upd_fn g f = f\<lparr>file_fnode := g (file_fnode f)\<rparr>"

text \<open>How a request is split: the part in the current block, whole blocks, the rest.\<close>

definition split_request :: "int \<Rightarrow> int \<Rightarrow> int \<Rightarrow> int \<times> int \<times> int" where
  "split_request bsize pos sz =
     (let inbuf = bsize - pos in
      if inbuf > sz then (sz, 0, 0) else (inbuf, (sz - inbuf) sdiv bsize, (sz - inbuf) smod bsize))"

fun read_blocks ::
    "('p, 'q) filesystem \<Rightarrow> nat \<Rightarrow> int \<Rightarrow> addr \<Rightarrow> 'p fnode \<Rightarrow> 'q fs_state \<Rightarrow> (int \<times> addr \<times> 'p fnode \<times> 'q fs_state) option" where
  "read_blocks fs 0 bsize buffer fn st = Some (0, buffer, fn, st)"
| "read_blocks fs (Suc n) bsize buffer fn st = do {
     (err, fn, st) \<leftarrow> vfs_read_block fs fn buffer VFS_NEXT_BLOCK st;
     if err \<noteq> 0 then Some (err, buffer, fn, st) else read_blocks fs n bsize (buffer + word_of_int bsize) fn st
   }"

definition vfs_read :: "('p, 'q) filesystem \<Rightarrow> 'p file_struct \<Rightarrow> addr \<Rightarrow> int \<Rightarrow> 'q fs_state
    \<Rightarrow> (int \<times> 'p file_struct \<times> 'q fs_state) option" where
  "vfs_read fs f buffer sz st =
     (let fn = file_fnode f; pos = rw_pos fn; dbuf = data_buffer fn; bsize = buffer_size fn;
          real = (if offset f + sz > data_size fn then data_size fn - offset f else sz)
      in if real = 0 then Some (0, f, st)
      else let (inbuf, blocks, left) = split_request bsize pos real;
               st = fcopy buffer (dbuf + word_of_int pos) inbuf st in do {
        (err, buffer, fn, st) \<leftarrow> read_blocks fs (nat blocks) bsize (buffer + word_of_int inbuf) fn st;
        if err \<noteq> 0 then Some (err, f\<lparr>file_fnode := fn\<rparr>, st) else do {
          (err, inbuf, fn, st) \<leftarrow>
            (if left \<noteq> 0 then do {
               (err, fn, st) \<leftarrow> vfs_read_block fs fn dbuf VFS_NEXT_BLOCK st;
               Some (if err \<noteq> 0 then (err, inbuf, fn, st) else (0, bsize - left, fn, fcopy buffer dbuf left st))
             } else Some (0, inbuf, fn, st));
          if err \<noteq> 0 then Some (err, f\<lparr>file_fnode := fn\<rparr>, st) else do {
            (err, fn, st) \<leftarrow> (if inbuf = bsize then vfs_read_block fs fn dbuf VFS_NEXT_BLOCK st else Some (0, fn, st));
            Some (if err \<noteq> 0 then (err, f\<lparr>file_fnode := fn\<rparr>, st)
                  else (real, f\<lparr>offset := offset f + real, file_fnode := fn\<lparr>rw_pos := (pos + real) smod bsize\<rparr>\<rparr>, st))
          }
        }
      })"

text \<open>The block the next part of the data goes to; the error if there is none.\<close>

definition next_write_block :: "('p, 'q) filesystem \<Rightarrow> bool \<Rightarrow> 'p fnode \<Rightarrow> 'q fs_state
    \<Rightarrow> (int \<times> u32 \<times> bool \<times> 'p fnode \<times> 'q fs_state) option" where
  "next_write_block fs allocated fn st =
     (if \<not> allocated then do {
        (block, fn, st) \<leftarrow> vfs_get_data_block fs fn VFS_NEXT_BLOCK st;
        if block = 0 then do {
          (block, fn, st) \<leftarrow> vfs_get_new_data_block fs fn st;
          Some (if block = 0 then - ENOSPC else 0, block, True, fn, st)
        } else Some (0, block, False, fn, st)
      } else do {
        (block, fn, st) \<leftarrow> vfs_get_new_data_block fs fn st;
        Some (if block = 0 then - EFBIG else 0, block, True, fn, st)
      })"

fun write_blocks :: "('p, 'q) filesystem \<Rightarrow> nat \<Rightarrow> int \<Rightarrow> addr \<Rightarrow> bool \<Rightarrow> 'p fnode \<Rightarrow> 'q fs_state
    \<Rightarrow> (int \<times> addr \<times> bool \<times> 'p fnode \<times> 'q fs_state) option" where
  "write_blocks fs 0 bsize buffer allocated fn st = Some (0, buffer, allocated, fn, st)"
| "write_blocks fs (Suc n) bsize buffer allocated fn st = do {
     (err, block, allocated, fn, st) \<leftarrow> next_write_block fs allocated fn st;
     if err \<noteq> 0 then Some (err, buffer, allocated, fn, st) else do {
       (err, st) \<leftarrow> vfs_write_block_at fs fn buffer block st;
       if err \<noteq> 0 then Some (- EIO, buffer, allocated, fn, st)
       else write_blocks fs n bsize (buffer + word_of_int bsize) allocated fn st
     }
   }"

definition vfs_write :: "('p, 'q) filesystem \<Rightarrow> 'p file_struct \<Rightarrow> addr \<Rightarrow> int \<Rightarrow> 'q fs_state
    \<Rightarrow> (int \<times> 'p file_struct \<times> 'q fs_state) option" where
  "vfs_write fs f buffer sz st =
     (let fn = file_fnode f; pos = rw_pos fn; dbuf = data_buffer fn; bsize = buffer_size fn;
          (inbuf, blocks, left) = split_request bsize pos sz;
          st = fcopy (dbuf + word_of_int pos) buffer inbuf st in do {
        (ret, fn, st) \<leftarrow> vfs_write_block fs fn dbuf VFS_CURRENT_BLOCK st;
        if ret \<noteq> 0 then Some (- EIO, f\<lparr>file_fnode := fn\<rparr>, st) else do {
          (err, buffer, allocated, fn, st) \<leftarrow> write_blocks fs (nat blocks) bsize (buffer + word_of_int inbuf) False fn st;
          if err \<noteq> 0 then Some (err, f\<lparr>file_fnode := fn\<rparr>, st) else do {
            (err, fn, st) \<leftarrow>
              (if left \<noteq> 0 then do {
                 (err, block, allocated, fn, st) \<leftarrow> next_write_block fs allocated fn st;
                 if err \<noteq> 0 then Some (err, fn, st) else do {
                   (err, st) \<leftarrow> vfs_write_block_at fs fn dbuf block (fcopy dbuf buffer left st);
                   Some (if err \<noteq> 0 then - EIO else 0, fn, st)
                 }
               } else Some (0, fn, st));
            Some (if err \<noteq> 0 then (err, f\<lparr>file_fnode := fn\<rparr>, st)
                  else (ret, f\<lparr>offset := offset f + sz,
                               file_fnode := fn\<lparr>blk_cnt := align (offset f + sz) bsize sdiv bsize,
                                                data_size := offset f + sz, rw_pos := (pos + sz) smod bsize\<rparr>\<rparr>, st))
          }
        }
      })"

section \<open>Positioning\<close>

fun skip_blocks :: "('p, 'q) filesystem \<Rightarrow> nat \<Rightarrow> int \<Rightarrow> u32 \<Rightarrow> 'p fnode \<Rightarrow> 'q fs_state
    \<Rightarrow> (u32 option \<times> 'p fnode \<times> 'q fs_state) option" where
  "skip_blocks fs 0 whence block fn st = Some (Some block, fn, st)"
| "skip_blocks fs (Suc n) whence block fn st = do {
     (block, fn, st) \<leftarrow> vfs_get_data_block fs fn whence st;
     if block = 0 then Some (None, fn, st) else skip_blocks fs n whence block fn st
   }"

text \<open>
  The distance to move, the direction (\<^const>\<open>True\<close> is towards the start) and the new
  offset; \<open>Inl\<close> is an early return.  For an unknown \<open>whence\<close> the distance is never set.
\<close>

definition seek_target :: "'p file_struct \<Rightarrow> int \<Rightarrow> int \<Rightarrow> (int + int \<times> bool \<times> int) option" where
  "seek_target f off whence =
     (let fn = file_fnode f in
      if whence = SEEK_SET then
        if off > data_size fn then Some (Inl (- EINVAL))
        else if off < offset f then Some (Inr (offset f - off, True, off)) else Some (Inr (off - offset f, False, off))
      else if whence = SEEK_CUR then
        Some (Inr (if offset f + off > data_size fn then data_size fn - offset f else off, False, offset f + off))
      else if whence = SEEK_END then Some (Inr (data_size fn - offset f, False, data_size fn))
      else None)"

text \<open>The move by whole blocks and the read of the block it ends in; the arithmetic is unsigned.\<close>

definition seek_blocks :: "('p, 'q) filesystem \<Rightarrow> 'p fnode \<Rightarrow> int \<Rightarrow> u32 \<Rightarrow> int \<Rightarrow> 'q fs_state
    \<Rightarrow> (int \<times> 'p fnode \<times> 'q fs_state) option" where
  "seek_blocks fs fn whence blocks new_pos st = do {
     (next_block, fn, st) \<leftarrow> skip_blocks fs (unat blocks) whence 0 fn st;
     (case next_block of
        None \<Rightarrow> Some (- ENOSPC, fn, st)
      | Some block \<Rightarrow> do {
          (err, st) \<leftarrow> vfs_read_block_at fs fn (data_buffer fn) block st;
          Some (if err \<noteq> 0 then (- EIO, fn, st) else (0, fn\<lparr>rw_pos := new_pos\<rparr>, st))
        })
   }"

definition seek_back :: "('p, 'q) filesystem \<Rightarrow> 'p fnode \<Rightarrow> int \<Rightarrow> int \<Rightarrow> 'q fs_state
    \<Rightarrow> (int \<times> 'p fnode \<times> 'q fs_state) option" where
  "seek_back fs fn pos new_off st =
     (let bsize = word_of_int (buffer_size fn) :: u32; left = word_of_int pos :: u32; n = word_of_int new_off :: u32 in
      if n > left
      then seek_blocks fs fn VFS_PREV_BLOCK (align (n - left) bsize div bsize) (sint (bsize - (n - left) mod bsize)) st
      else Some (0, fn\<lparr>rw_pos := rw_pos fn - new_off\<rparr>, st))"

definition seek_forward :: "('p, 'q) filesystem \<Rightarrow> 'p fnode \<Rightarrow> int \<Rightarrow> int \<Rightarrow> 'q fs_state
    \<Rightarrow> (int \<times> 'p fnode \<times> 'q fs_state) option" where
  "seek_forward fs fn pos new_off st =
     (let bsize = word_of_int (buffer_size fn) :: u32; left = word_of_int (buffer_size fn - pos) :: u32;
          n = word_of_int new_off :: u32 in
      if n \<ge> left
      then let not_aligned = (n - left) mod bsize; blocks = align (n - left) bsize div bsize in
           seek_blocks fs fn VFS_NEXT_BLOCK (if not_aligned = 0 then blocks + 1 else blocks) (sint not_aligned) st
      else Some (0, fn\<lparr>rw_pos := rw_pos fn + new_off\<rparr>, st))"

definition vfs_seek :: "('p, 'q) filesystem \<Rightarrow> 'p file_struct \<Rightarrow> int \<Rightarrow> int \<Rightarrow> 'q fs_state
    \<Rightarrow> (int \<times> 'p file_struct \<times> 'q fs_state) option" where
  "vfs_seek fs f off whence st = do {
     target \<leftarrow> seek_target f off whence;
     (case target of
        Inl err \<Rightarrow> Some (err, f, st)
      | Inr (new_off, back, new) \<Rightarrow>
          if new_off \<le> 0 then Some (0, f, st) else do {
            let fn = file_fnode f;
            (new_off, back, pos, fn, st) \<leftarrow>
              (if back \<and> fs_flag fs AND FS_FOPS_PREV_BLOCK = 0 \<and> new_off > rw_pos fn then do {
                 (_, fn, st) \<leftarrow> vfs_read_block fs (fn\<lparr>rw_pos := 0\<rparr>) (data_buffer fn) VFS_START_BLOCK st;
                 Some (offset f - new_off, False, 0, fn, st)
               } else Some (new_off, back, rw_pos fn, fn, st));
            (err, fn, st) \<leftarrow> (if back then seek_back fs fn pos new_off st else seek_forward fs fn pos new_off st);
            Some (if err \<noteq> 0 then (err, f\<lparr>file_fnode := fn\<rparr>, st)
                  else (new, f\<lparr>offset := new, file_fnode := fn\<lparr>rw_pos := rw_pos fn smod buffer_size fn\<rparr>\<rparr>, st))
          })
   }"

definition vfs_mmap :: "('p, 'q) filesystem \<Rightarrow> 'p file_struct \<Rightarrow> addr \<Rightarrow> int \<Rightarrow> int \<Rightarrow> 'q fs_state
    \<Rightarrow> (int \<times> 'p file_struct \<times> 'q fs_state) option" where
  "vfs_mmap fs f buffer sz off st = do {
     (err, f, st) \<leftarrow> (if offset f \<noteq> off then vfs_seek fs f off SEEK_SET st else Some (0, f, st));
     if err \<noteq> 0 then Some (err, f, st) else vfs_read fs f buffer sz st
   }"

definition vfs_msync :: "('p, 'q) filesystem \<Rightarrow> 'p file_struct \<Rightarrow> addr \<Rightarrow> int \<Rightarrow> int \<Rightarrow> 'q fs_state
    \<Rightarrow> (int \<times> 'p file_struct \<times> 'q fs_state) option" where
  "vfs_msync fs f buffer sz off st = do {
     (err, f, st) \<leftarrow> (if offset f \<noteq> off then vfs_seek fs f off SEEK_SET st else Some (0, f, st));
     if err \<noteq> 0 then Some (err, f, st) else vfs_write fs f buffer sz st
   }"

definition vfs_ioctl :: "'p file_struct \<Rightarrow> u32 \<Rightarrow> addr \<Rightarrow> int" where
  "vfs_ioctl f cmd arg = 0"

definition vfs_stat :: "'p file_struct \<Rightarrow> addr \<Rightarrow> int" where
  "vfs_stat f stat = 0"

definition release_fnode :: "'p fnode \<Rightarrow> 'q fs_state \<Rightarrow> 'q fs_state option" where
  "release_fnode fn st = do {
     st \<leftarrow> (if data_buffer fn \<noteq> 0 then ffree (data_buffer fn) st else Some st);
     ffree (fnode_at fn) st
   }"

definition vfs_close :: "('p, 'q) filesystem \<Rightarrow> 'p file_struct \<Rightarrow> 'q fs_state \<Rightarrow> (int \<times> 'q fs_state) option" where
  "vfs_close fs f st = do {
     (_, st) \<leftarrow> (case op_release_fnode (fops fs) of None \<Rightarrow> Some (0, st) | Some release \<Rightarrow> release (file_fnode f) st);
     st \<leftarrow> release_fnode (file_fnode f) st;
     st \<leftarrow> ffree (file_at f) st;
     Some (0, st)
   }"

section \<open>Directories\<close>

definition half_bytes :: "u16 \<Rightarrow> u8 list" where
  "half_bytes w = map (\<lambda>i. ucast (drop_bit (8 * i) w)) [0..<2]"

text \<open>
  \<open>struct os_dirent\<close>: inode at 0, offset at 4, record length at 8, name at 10.  The file
  system writes the type to the first byte of the name and the name behind it.
\<close>

definition put_dirent :: "addr \<Rightarrow> addr \<Rightarrow> int \<Rightarrow> int \<Rightarrow> byte_mem \<Rightarrow> byte_mem" where
  "put_dirent dent ino off reclen m =
     put_bytes (put_bytes (put_bytes m dent (word_bytes ino)) (dent + 4) (word_bytes (word_of_int off)))
       (dent + 8) (half_bytes (word_of_int reclen))"

partial_function (option) getdents_loop :: "('p, 'q) filesystem \<Rightarrow> int \<Rightarrow> addr \<Rightarrow> int \<Rightarrow> addr \<Rightarrow> 'p file_struct \<Rightarrow> 'q fs_state
    \<Rightarrow> (int \<times> 'p file_struct \<times> 'q fs_state) option" where
  "getdents_loop fs cnt buffer done_sz dbuf f st =
     (if done_sz + 12 + 256 < cnt then do {
        let st = set_fmem (memset (fmem st) (buffer + 11) 0 256) st;
        (handled, st) \<leftarrow> op_getdents (fops fs) (file_fnode f) (buffer + 10) dbuf st;
        if handled = 0 then Some (done_sz, f, st) else do {
          let f = upd_fn (\<lambda>fn. fn\<lparr>rw_pos := rw_pos fn + handled\<rparr>) (f\<lparr>offset := offset f + handled\<rparr>);
          len \<leftarrow> strlen (fmem st) (buffer + 11);
          let reclen = align (len + 12) 4;
          let (buffer', done_sz, st) =
            (if len \<noteq> 0
             then (buffer + word_of_int (uint (word_of_int reclen :: u16)), done_sz + uint (word_of_int reclen :: u16),
                   set_fmem (put_dirent buffer (fnode_at (file_fnode f)) (offset f) reclen (fmem st)) st)
             else (buffer, done_sz, st));
          if rw_pos (file_fnode f) \<ge> buffer_size (file_fnode f) then do {
            (err, fn, st) \<leftarrow> vfs_read_block fs (file_fnode f) (data_buffer (file_fnode f)) VFS_NEXT_BLOCK st;
            if err \<noteq> 0 then Some (done_sz, f\<lparr>file_fnode := fn\<lparr>fn_current_block := 0\<rparr>\<rparr>, st)
            else getdents_loop fs cnt buffer' done_sz (data_buffer fn) (f\<lparr>file_fnode := fn\<lparr>rw_pos := 0\<rparr>\<rparr>) st
          } else getdents_loop fs cnt buffer' done_sz (dbuf + word_of_int handled) f st
        }
      } else Some (done_sz, f, st))"

definition vfs_getdents :: "('p, 'q) filesystem \<Rightarrow> 'p file_struct \<Rightarrow> addr \<Rightarrow> int \<Rightarrow> 'q fs_state
    \<Rightarrow> (int \<times> 'p file_struct \<times> 'q fs_state) option" where
  "vfs_getdents fs f buffer cnt st =
     (let fn = file_fnode f in
      if fn_type fn \<noteq> DT_DIR then Some (- ENOTDIR, f, st)
      else if cnt = 0 then Some (- EINVAL, f, st)
      else if rw_pos fn = buffer_size fn \<and> fn_current_block fn = 0 then Some (- ENOSPC, f, st)
      else getdents_loop fs cnt buffer 0 (data_buffer fn) f st)"

end
