(* ===== verification/Fnode.thy ===== *)
theory Fnode
  imports Vfs
begin

text \<open>
  fs/fnode.c, and of fs/mount.c the search for the mount point of a path: from a path to the
  fnode of the file.  Names are zero-terminated strings in the byte memory.  The mounted file
  systems are a list in the order of the \<open>next\<close> pointers, the root first.
\<close>

section \<open>Name buffers\<close>

abbreviation (input) INAME_SIZE :: int where "INAME_SIZE \<equiv> 512"
abbreviation (input) INAME_NR :: int where "INAME_NR \<equiv> 8"
abbreviation (input) O_CREAT :: u32 where "O_CREAT \<equiv> 0x40"
abbreviation (input) O_DIRECTORY :: u32 where "O_DIRECTORY \<equiv> 0x4000"

definition fget_free_pages :: "int \<Rightarrow> 'q fs_state \<Rightarrow> (addr \<times> 'q fs_state) option" where
  "fget_free_pages n st =
     map_option (\<lambda>(a, ms). (a, st\<lparr>fdisk := (fdisk st)\<lparr>kmem := (kmem (fdisk st))\<lparr>mm := ms\<rparr>\<rparr>\<rparr>))
       (get_free_pages n GFP_KERNEL (mm (kmem (fdisk st))))"

definition fkzalloc :: "int \<Rightarrow> 'q fs_state \<Rightarrow> (addr \<times> 'q fs_state) option" where
  "fkzalloc n st = map_option (\<lambda>(a, s). (a, st\<lparr>fdisk := (fdisk st)\<lparr>kmem := s\<rparr>\<rparr>)) (kzalloc n GFP_KERNEL (kmem (fdisk st)))"

definition init_iname_buffer :: "'q fs_state \<Rightarrow> (int \<times> 'q fs_state) option" where
  "init_iname_buffer st = do {
     (a, st) \<leftarrow> fget_free_pages (page_nr 4096) st;
     let st = st\<lparr>iname_buffer_base := a\<rparr>;
     Some (if a = 0 then (- ENOMEM, st) else (0, st\<lparr>bit_words := init_bitmap (bit_words st) (iname_buffer st) INAME_NR\<rparr>))
   }"

definition get_iname_buffer :: "'q fs_state \<Rightarrow> addr \<times> 'q fs_state" where
  "get_iname_buffer st =
     (case List.find (\<lambda>i. read_bit (bit_words st) (iname_buffer st) i = 0) [0..INAME_NR - 1] of
        None \<Rightarrow> (0, st)
      | Some i \<Rightarrow> (iname_buffer_base st + word_of_int (INAME_SIZE * i), st\<lparr>bit_words := set_bit (bit_words st) (iname_buffer st) i\<rparr>))"

definition put_iname_buffer :: "addr \<Rightarrow> 'q fs_state \<Rightarrow> 'q fs_state" where
  "put_iname_buffer buf st =
     (let i = sint (buf - iname_buffer_base st) sdiv INAME_SIZE in
      if read_bit (bit_words st) (iname_buffer st) i = 0 then st
      else st\<lparr>bit_words := clear_bit (bit_words st) (iname_buffer st) i\<rparr>)"

section \<open>Names\<close>

abbreviation (input) SLASH :: u8 where "SLASH \<equiv> 47"
abbreviation (input) DOT :: u8 where "DOT \<equiv> 46"

definition find_file_name :: "addr \<Rightarrow> addr \<Rightarrow> 'q fs_state \<Rightarrow> (addr \<times> 'q fs_state) option" where
  "find_file_name org_name ret_name st =
     (let m = fmem st in
      if org_name = 0 \<or> ret_name = 0 \<or> m org_name = 0 then Some (0, st)
      else do {
        pos \<leftarrow> strchr m org_name SLASH;
        if pos = 0 then do {
          (_, m') \<leftarrow> strcpy m ret_name org_name;
          len \<leftarrow> strlen m' org_name;
          Some (org_name + word_of_int len, set_fmem m' st)
        } else
          let (_, m') = strncpy m ret_name org_name (sint (pos - org_name)) in
          Some (pos + 1, set_fmem (m'(ret_name + (pos - org_name) := 0)) st)
      })"

definition check_file_name :: "addr \<Rightarrow> u8 \<Rightarrow> byte_mem \<Rightarrow> int option" where
  "check_file_name name type m =
     (if name = 0 then Some (- EINVAL)
      else do {
        len \<leftarrow> strlen m name;
        Some (if len = 0 then - EINVAL
              else if m name = DOT \<and> m (name + 1) \<noteq> SLASH then - EINVAL
              else if type = DT_BLK \<and> m (name + word_of_int len) = SLASH then - EINVAL
              else 0)
      })"

section \<open>Fnodes\<close>

text \<open>A new fnode is cleared; \<open>zero\<close> is the cleared private data.\<close>

definition new_fnode :: "addr \<Rightarrow> 'p \<Rightarrow> 'p fnode" where
  "new_fnode a zero =
     \<lparr>fnode_at = a, fn_mode = 0, fn_state = 0, nlinks = 0, fn_dev = 0, fn_gid = 0, fn_uid = 0, atime = 0, mtime = 0, ctime = 0,
      blk_cnt = 0, blk_size = 0, fn_flags = 0, fn_type = 0, fnode_size = 0, psize = 0, data_size = 0, buffer_size = 0, rw_pos = 0,
      fn_sb = 0, data_buffer = 0, fn_current_block = 0, private_data = zero\<rparr>"

definition allocate_fnode :: "'p \<Rightarrow> int \<Rightarrow> 'q fs_state \<Rightarrow> ('p fnode option \<times> 'q fs_state) option" where
  "allocate_fnode zero ps st = do {
     (a, st) \<leftarrow> fkzalloc (92 + ps) st;
     Some (if a = 0 then None else Some (new_fnode a zero), st)
   }"

definition copy_fnode :: "('p, 'q) filesystem \<Rightarrow> 'p fnode \<Rightarrow> 'p fnode \<Rightarrow> 'q fs_state \<Rightarrow> (int \<times> 'p fnode \<times> 'q fs_state) option" where
  "copy_fnode fs fn father st =
     (let fn = fn\<lparr>fn_sb := fn_sb father, psize := psize father, data_size := data_size father, buffer_size := buffer_size father,
                 blk_cnt := blk_cnt father, fn_mode := fn_mode father, fn_state := 0, nlinks := 0, fn_type := fn_type father\<rparr>
      in do {
        (a, st) \<leftarrow> (if buffer_size father = 0 then Some (data_buffer fn, st)
                    else if buffer_size father < 3 * 512 then fkzalloc (buffer_size father) st
                    else fget_free_pages (page_nr (buffer_size father)) st);
        let fn = fn\<lparr>data_buffer := a\<rparr>;
        if buffer_size father \<noteq> 0 \<and> a = 0 then Some (- ENOMEM, fn, st)
        else (case op_copy_fnode (fops fs) of None \<Rightarrow> Some (0, fn, st) | Some copy \<Rightarrow> copy fn father st)
      })"

section \<open>Lookup\<close>

text \<open>The blocks of a directory are searched one after the other: found or not, and the error.\<close>

partial_function (option) search_dir :: "('p, 'q) filesystem \<Rightarrow> addr \<Rightarrow> addr \<Rightarrow> addr \<Rightarrow> u8 \<Rightarrow> u32 \<Rightarrow> 'p fnode \<Rightarrow> 'q fs_state
    \<Rightarrow> (int \<times> bool \<times> 'p fnode \<times> 'q fs_state) option" where
  "search_dir fs sb tname buffer type block fn st = do {
     (err, st) \<leftarrow> read_block (fops fs) sb buffer block st;
     if err \<noteq> 0 then Some (- EIO, False, fn, st)
     else do {
       (ret, fn, st) \<leftarrow> find_file (fops fs) tname fn buffer st;
       if ret = 0 then Some (if fn_type fn AND type \<noteq> fn_type fn then - ENOTDIR else 0, True, fn, st)
       else do {
         (block, fn, st) \<leftarrow> get_data_block (fops fs) fn VFS_NEXT_BLOCK st;
         if block = 0 then Some (0, False, fn, st) else search_dir fs sb tname buffer type block fn st
       }
     }
   }"

text \<open>
  The loop over the components of the path.  \<open>found\<close> is the variable \<open>file_find\<close>, which is not
  reset for the next component.  The second result tells whether the loop was left by a
  \<open>return\<close>, which does not give the name buffer back.
\<close>

partial_function (option) walk_path :: "('p, 'q) filesystem \<Rightarrow> addr \<Rightarrow> addr \<Rightarrow> u32 \<Rightarrow> addr \<Rightarrow> bool \<Rightarrow> addr \<Rightarrow> 'p fnode \<Rightarrow> 'q fs_state
    \<Rightarrow> (int \<times> bool \<times> addr \<times> 'p fnode \<times> 'q fs_state) option" where
  "walk_path fs sb buffer flg fname found tname fn st = do {
     (fname, st) \<leftarrow> find_file_name fname tname st;
     if fname = 0 then Some (0, False, fname, fn, st)
     else do {
       (block, fn, st) \<leftarrow> get_data_block (fops fs) fn VFS_START_BLOCK st;
       if block = 0 then Some (- ENOSPC, True, fname, fn, st)
       else do {
         (_, st) \<leftarrow> (case parse_name (fops fs) of None \<Rightarrow> Some (0, st) | Some parse \<Rightarrow> parse tname st);
         let type = (if fmem st fname = 0 then if flg AND O_DIRECTORY = O_DIRECTORY then DT_DIR else DT_ANY else DT_DIR);
         (err, hit, fn, st) \<leftarrow> search_dir fs sb tname buffer type block fn st;
         if err = - EIO then Some (- EIO, True, fname, fn, st)
         else if err \<noteq> 0 then Some (err, False, fname, fn, st)
         else if \<not> (found \<or> hit) then Some (- ENOENT, False, fname, fn, st)
         else walk_path fs sb buffer flg fname (found \<or> hit) tname fn st
       }
     }
   }"

definition get_file_fnode_loop :: "('p, 'q) filesystem \<Rightarrow> addr \<Rightarrow> u32 \<Rightarrow> 'p fnode \<Rightarrow> 'q fs_state \<Rightarrow> (int \<times> 'p fnode \<times> 'q fs_state) option" where
  "get_file_fnode_loop fs name flg fn st =
     (let (tname, st) = get_iname_buffer st in
      if tname = 0 then Some (- EAGAIN, fn, st)
      else do {
        (err, early, _, fn, st) \<leftarrow> walk_path fs (fn_sb fn) (data_buffer fn) flg name False tname fn st;
        Some (err, fn, if early then st else put_iname_buffer tname st)
      })"

text \<open>\<open>__sys_creat\<close> is not implemented: it returns no fnode.\<close>

definition get_fnode_from :: "('p, 'q) filesystem \<Rightarrow> 'p \<Rightarrow> addr \<Rightarrow> 'p fnode \<Rightarrow> u32 \<Rightarrow> 'q fs_state \<Rightarrow> ('p fnode option \<times> 'q fs_state) option" where
  "get_fnode_from fs zero name father flg st = do {
     (fn, st) \<leftarrow> allocate_fnode zero (uint (psize father)) st;
     (case fn of
        None \<Rightarrow> Some (None, st)
      | Some fn \<Rightarrow> do {
          (err, fn, st) \<leftarrow> copy_fnode fs fn father st;
          if err \<noteq> 0 then do { st \<leftarrow> release_fnode fn st; Some (None, st) }
          else if fmem st name = 0 then Some (Some fn, st)
          else do {
            (ret, fn, st) \<leftarrow> get_file_fnode_loop fs name flg fn st;
            Some (if ret = - ENOENT \<and> flg AND O_CREAT \<noteq> 0 then None else Some fn, st)
          }
        })
   }"

section \<open>Mount points\<close>

record ('p, 'q) mount_point =
  mnt_path :: addr
  mnt_sb :: addr
  mnt_fs :: "('p, 'q) filesystem"
  mnt_flag :: u32
  root_fnode :: "'p fnode"

fun mount_loop :: "byte_mem \<Rightarrow> addr \<Rightarrow> int \<Rightarrow> ('p, 'q) mount_point list \<Rightarrow> ('p, 'q) mount_point \<Rightarrow> int \<Rightarrow> ('p, 'q) mount_point option" where
  "mount_loop m name file_len [] mnt len_old = Some mnt"
| "mount_loop m name file_len (tmp # rest) mnt len_old = do {
     len \<leftarrow> strlen m (mnt_path tmp);
     hit \<leftarrow> (if len > len_old \<and> len \<le> file_len then map_option (\<lambda>r. r = 0) (strncmp m (mnt_path tmp) name len) else Some False);
     if hit then mount_loop m name file_len rest tmp len else mount_loop m name file_len rest mnt len_old
   }"

definition get_mount_point :: "byte_mem \<Rightarrow> addr \<Rightarrow> ('p, 'q) mount_point list \<Rightarrow> ('p, 'q) mount_point option" where
  "get_mount_point m name mnts =
     (case mnts of
        [] \<Rightarrow> None
      | root # rest \<Rightarrow> do { file_len \<leftarrow> strlen m name; mount_loop m name file_len rest root 0 })"

definition get_file_fs_name :: "byte_mem \<Rightarrow> ('p, 'q) mount_point \<Rightarrow> addr \<Rightarrow> addr option" where
  "get_file_fs_name m mnt name = do {
     plen \<leftarrow> strlen m (mnt_path mnt);
     cmp \<leftarrow> strncmp m (mnt_path mnt) name plen;
     len \<leftarrow> strlen m name;
     Some (if cmp \<noteq> 0 then 0 else if len < plen then 0 else name + word_of_int plen)
   }"

partial_function (option) skip_slashes :: "byte_mem \<Rightarrow> addr \<Rightarrow> addr option" where
  "skip_slashes m a = (if m a = SLASH then skip_slashes m (a + 1) else Some a)"

text \<open>A relative path has no starting point: the fnode it starts from is the null pointer.\<close>

definition get_file_fnode :: "('p, 'q) mount_point list \<Rightarrow> 'p \<Rightarrow> addr \<Rightarrow> u32 \<Rightarrow> 'q fs_state \<Rightarrow> ('p fnode option \<times> 'q fs_state) option" where
  "get_file_fnode mnts zero name flg st = do {
     bad \<leftarrow> check_file_name name (if flg AND O_DIRECTORY \<noteq> 0 then DT_DIR else DT_BLK) (fmem st);
     if bad \<noteq> 0 then Some (None, st)
     else if fmem st name \<noteq> SLASH then None
     else do {
       mnt \<leftarrow> get_mount_point (fmem st) name mnts;
       real_name \<leftarrow> get_file_fs_name (fmem st) mnt name;
       if real_name = 0 then Some (None, st)
       else do {
         real_name \<leftarrow> skip_slashes (fmem st) (if fmem st real_name = DOT then real_name + 1 else real_name);
         get_fnode_from (mnt_fs mnt) zero real_name (root_fnode mnt) flg st
       }
     }
   }"

end
