(* ===== verification/Vfs_File.thy ===== *)
theory Vfs_File
  imports Vfs
begin

text \<open>
  Files as sequences of bytes.  The locale states what vfs.c relies on in a file system; the
  functions of vfs.c are then shown to act on the bytes of the file.
\<close>

lemma region_behind:
  assumes "n + k \<le> 2 ^ 32"
  shows "region a n \<inter> region (a + word_of_nat n) k = {}"
proof -
  have "a + word_of_nat i \<noteq> a + word_of_nat n + word_of_nat j" if "i < n" "j < k" for i j
  proof
    assume "a + word_of_nat i = a + word_of_nat n + word_of_nat j"
    then have "(word_of_nat i :: addr) = word_of_nat (n + j)" by simp
    moreover have "i < 2 ^ 32" "n + j < 2 ^ 32" using that assms by simp_all
    ultimately show False using that(1) by (metis unat_word_of_nat not_add_less1)
  qed
  then show ?thesis by (auto simp: region_def)
qed

lemma set_fmem_simps [simp]: "fmem (set_fmem m st) = m" "set_fmem m' (set_fmem m st) = set_fmem m' st" "sbs (set_fmem m st) = sbs st"
  by (simp_all add: set_fmem_def)

lemma sdiv_smod_nonneg:
  fixes x y :: int
  assumes "0 \<le> x" "0 < y"
  shows "x sdiv y = x div y" "x smod y = x mod y"
  using assms
  by (simp_all add: signed_divide_int_def signed_modulo_int_def sgn_if div_int_pos_iff minus_div_mult_eq_mod mult_less_0_iff)

text \<open>Sequences of chunks of one size.\<close>

lemma concat_drop_chunks: "\<forall>d \<in> set D. length d = c \<Longrightarrow> drop (c * i) (concat D) = concat (drop i D)"
proof (induction i arbitrary: D)
  case (Suc i)
  then show ?case by (cases D) (auto simp flip: drop_drop)
qed simp

lemma concat_take_chunks: "\<forall>d \<in> set D. length d = c \<Longrightarrow> take (c * i) (concat D) = concat (take i D)"
proof (induction i arbitrary: D)
  case (Suc i)
  then show ?case by (cases D) (auto simp: take_add)
qed simp

text \<open>The bytes from a position in chunk \<open>i\<close> on: the rest of the chunk, whole chunks, and the start of one more.\<close>

lemma chunk_bytes:
  assumes "\<forall>d \<in> set D. length d = c" "i < length D" "pos \<le> c"
  shows "r \<le> c - pos \<Longrightarrow> take r (drop (c * i + pos) (concat D)) = take r (drop pos (D ! i))"
    and "Suc i + n < length D \<Longrightarrow> k \<le> c \<Longrightarrow> take (c - pos + (c * n + k)) (drop (c * i + pos) (concat D))
      = drop pos (D ! i) @ concat (take n (drop (Suc i) D)) @ take k (D ! (Suc i + n))"
proof -
  have d: "drop (c * i + pos) (concat D) = drop pos (D ! i) @ concat (drop (Suc i) D)"
  proof -
    have "drop (c * i + pos) (concat D) = drop pos (concat (drop i D))"
      using concat_drop_chunks [OF assms(1), of i] by (metis add.commute drop_drop)
    also have "drop i D = D ! i # drop (Suc i) D" using assms(2) by (simp add: Cons_nth_drop_Suc)
    finally show ?thesis using assms by simp
  qed
  have l: "length (D ! i) = c" using assms by simp
  show "r \<le> c - pos \<Longrightarrow> take r (drop (c * i + pos) (concat D)) = take r (drop pos (D ! i))"
    unfolding d using l by simp
  assume n: "Suc i + n < length D" "k \<le> c"
  let ?E = "drop (Suc i) D"
  have E: "\<forall>d \<in> set ?E. length d = c" using assms(1) by (meson in_set_dropD)
  have "take (c * n + k) (concat ?E) = concat (take n ?E) @ take k (concat (drop n ?E))"
    using concat_take_chunks [OF E] concat_drop_chunks [OF E] by (simp add: take_add)
  also have "drop n ?E = D ! (Suc i + n) # drop (Suc (Suc i + n)) D"
    using n(1) Cons_nth_drop_Suc [of "Suc i + n" D] by (simp add: add.commute)
  finally have "take (c * n + k) (concat ?E) = concat (take n ?E) @ take k (D ! (Suc i + n))"
    using n assms(1) by simp
  then show "take (c - pos + (c * n + k)) (drop (c * i + pos) (concat D))
      = drop pos (D ! i) @ concat (take n ?E) @ take k (D ! (Suc i + n))"
    unfolding d take_append using l by simp
qed

lemma copy_part:
  assumes "bytes_at m dbuf 4096 = d" "pos + a \<le> 4096" "region t a \<inter> region dbuf 4096 = {}"
  shows "bytes_at (snd (memcpy m t (dbuf + word_of_nat pos) (int a))) t a = take a (drop pos d)"
proof -
  have "region (dbuf + word_of_nat pos) a \<subseteq> region dbuf 4096" by (rule region_part [OF assms(2)])
  then have "bytes_at (snd (memcpy m t (dbuf + word_of_nat pos) (int a))) t a = bytes_at m (dbuf + word_of_nat pos) a"
    by (intro memcpy_target) (use assms(2,3) in \<open>auto simp: apart_region\<close>)
  moreover have "d = bytes_at m dbuf (pos + (a + (4096 - pos - a)))" using assms(1,2) by simp
  ultimately show ?thesis by (simp only: bytes_at_append) simp
qed

lemma write_part:
  assumes "bytes_at m dbuf 4096 = d" "pos + r \<le> 4096" "region buf r \<inter> region dbuf 4096 = {}"
  shows "bytes_at (snd (memcpy m (dbuf + word_of_nat pos) buf (int r))) dbuf 4096 = take pos d @ bytes_at m buf r @ drop (pos + r) d"
proof -
  let ?t = "dbuf + word_of_nat pos" and ?e = "dbuf + word_of_nat (pos + r)" and ?k = "4096 - pos - r"
  let ?m = "snd (memcpy m ?t buf (int r))"
  have so: "same_outside (region ?t r) m ?m" using memcpy_outside [of ?t "int r"] by simp
  have s: "region ?t r \<subseteq> region dbuf 4096" by (rule region_part [OF assms(2)])
  have t: "bytes_at ?m ?t r = bytes_at m buf r"
    by (rule memcpy_target) (use s assms(2,3) in \<open>auto simp: apart_region\<close>)
  have "region ?t (r + ?k) \<inter> region dbuf pos = {}" using region_behind [of pos "r + ?k" dbuf] assms(2) by auto
  then have 1: "bytes_at ?m dbuf pos = bytes_at m dbuf pos" using region_append [of ?t r ?k] by (intro bytes_at_outside [OF so]) auto
  have "region ?t r \<inter> region ?e ?k = {}" using region_behind [of r ?k ?t] assms(2) by (simp add: add.assoc)
  then have 2: "bytes_at ?m ?e ?k = bytes_at m ?e ?k" by (rule bytes_at_outside [OF so])
  have sp: "bytes_at x dbuf 4096 = bytes_at x dbuf pos @ bytes_at x ?t r @ bytes_at x ?e ?k" for x
    using bytes_at_append [of x dbuf pos "r + ?k"] bytes_at_append [of x ?t r ?k] assms(2) by (simp add: add.assoc)
  have "d = bytes_at m dbuf pos @ bytes_at m ?t r @ bytes_at m ?e ?k" using sp assms(1) by simp
  then show ?thesis using sp [of ?m] t 1 2 by simp
qed

lemma split_small: "0 \<le> pos \<Longrightarrow> r < 4096 - pos \<Longrightarrow> split_request 4096 pos r = (r, 0, 0)"
  by (simp add: split_request_def)

lemma split_large:
  assumes "0 \<le> pos" "pos \<le> 4096" "r = 4096 - pos + (4096 * int n + k)" "0 \<le> k" "k < 4096"
  shows "split_request 4096 pos r = (4096 - pos, int n, k)"
  using assms by (simp add: split_request_def sdiv_smod_nonneg)

text \<open>The number of blocks a seek passes.\<close>

lemma blocks_of:
  assumes "x + 4096 < 2 ^ 32"
  shows "unat (align (word_of_nat x :: u32) 4096 div 4096) = (x + 4095) div 4096"
    "unat ((word_of_nat x :: u32) mod 4096) = x mod 4096"
proof -
  have "unat (align (word_of_nat x :: u32) (2 ^ 12)) = (x + 4095) div 4096 * 4096"
  proof -
    have "(word_of_nat x :: u32) + (2 ^ 12 - 1) = word_of_nat (x + 4095)" by simp
    then have "unat ((word_of_nat x :: u32) + (2 ^ 12 - 1)) = x + 4095" using assms by (simp only: unat_word_of_nat)
    then show ?thesis unfolding align_pow2 unat_min_align by simp
  qed
  then show "unat (align (word_of_nat x :: u32) 4096 div 4096) = (x + 4095) div 4096" by (simp add: unat_div)
  show "unat ((word_of_nat x :: u32) mod 4096) = x mod 4096" using assms by (simp add: unat_mod unat_word_of_nat)
qed

lemma ceiling_blocks: "(x + 4095) div 4096 = (if x mod 4096 = 0 then x div 4096 else Suc (x div (4096 :: nat)))"
proof -
  have "x + 4095 = (x mod 4096 + 4095) + (x div 4096) * 4096" using mod_div_mult_eq [of x 4096] by linarith
  then have "(x + 4095) div 4096 = ((x mod 4096 + 4095) + (x div 4096) * 4096) div 4096" by (rule arg_cong)
  also have "\<dots> = x div 4096 + (x mod 4096 + 4095) div 4096" by (rule div_mult_self1) simp
  finally have "(x + 4095) div 4096 = x div 4096 + (x mod 4096 + 4095) div 4096" .
  moreover have "(x mod 4096 + 4095) div 4096 = (if x mod 4096 = 0 then 0 else 1)"
    by (auto intro: div_nat_eqI)
  ultimately show ?thesis by auto
qed

lemma blocks_forward:
  assumes "x + 4096 < 2 ^ 32"
  shows "unat (if (word_of_nat x :: u32) mod 4096 = 0 then align (word_of_nat x :: u32) 4096 div 4096 + 1
      else align (word_of_nat x :: u32) 4096 div 4096) = x div 4096 + 1"
    "sint ((word_of_nat x :: u32) mod 4096) = int (x mod 4096)"
proof -
  note b = blocks_of [OF assms]
  have z: "(word_of_nat x :: u32) mod 4096 = 0 \<longleftrightarrow> x mod 4096 = 0" using b(2) by (metis unat_eq_zero)
  have l: "unat (align (word_of_nat x :: u32) 4096 div 4096) < 2 ^ 32 - 1" using b(1) assms by simp
  have "unat (align (word_of_nat x :: u32) 4096 div 4096 + 1) = unat (align (word_of_nat x :: u32) 4096 div 4096) + 1"
    using l by (simp add: unat_word_ariths)
  then show "unat (if (word_of_nat x :: u32) mod 4096 = 0 then align (word_of_nat x :: u32) 4096 div 4096 + 1
      else align (word_of_nat x :: u32) 4096 div 4096) = x div 4096 + 1" using z b(1) ceiling_blocks [of x] by auto
  have "uint ((word_of_nat x :: u32) mod 4096) = int (x mod 4096)" using b(2) by (metis uint_nat)
  moreover have "x mod 4096 < 4096" by simp
  ultimately show "sint ((word_of_nat x :: u32) mod 4096) = int (x mod 4096)" by (subst sint_eq_uint_u32) simp_all
qed

lemma blocks_back:
  assumes "x + 4096 < 2 ^ 32"
  shows "sint (4096 - (word_of_nat x :: u32) mod 4096) smod 4096 = int ((x + 4095) div 4096 * 4096 - x)"
proof -
  define z where "z = x mod 4096"
  have z: "z < 4096" "x = z + x div 4096 * 4096" by (simp_all add: z_def)
  have "word_of_nat (unat ((word_of_nat x :: u32) mod 4096)) = (word_of_nat x :: u32) mod 4096" unfolding of_nat_unat by simp
  then have "(word_of_nat x :: u32) mod 4096 = word_of_nat z" unfolding blocks_of(2) [OF assms] z_def by (rule sym)
  then have "4096 - (word_of_nat x :: u32) mod 4096 = word_of_nat (4096 - z)" using z(1) by (simp add: of_nat_diff)
  moreover have "sint (word_of_nat (4096 - z) :: u32) = int (4096 - z)"
    using sint_eq_uint_u32 [of "word_of_nat (4096 - z)"] uint_word_of_int_u32 [of "int (4096 - z)"] by simp
  ultimately have "sint (4096 - (word_of_nat x :: u32) mod 4096) smod 4096 = int ((4096 - z) mod 4096)"
    using sdiv_smod_nonneg(2) [of "int (4096 - z)" 4096] by (simp add: zmod_int del: of_nat_diff)
  moreover have "(x + 4095) div 4096 * 4096 - x = (4096 - z) mod 4096"
    using z ceiling_blocks [of x] unfolding z_def [symmetric] by auto
  ultimately show ?thesis by simp
qed

section \<open>Reading what the buffer holds\<close>

definition read_size :: "'p file_struct \<Rightarrow> int \<Rightarrow> int" where
  "read_size f sz = (if offset f + sz > data_size (file_fnode f) then data_size (file_fnode f) - offset f else sz)"

text \<open>As long as a read does not start at the beginning of a block and read all of it, the file system is not asked.\<close>

lemma vfs_read_buffered:
  assumes fn: "buffer_size (file_fnode f) = 4096" "rw_pos (file_fnode f) = int pos"
    and r: "0 < r" "pos + r \<le> 4096" "r < 4096" and real: "read_size f sz = int r"
    and d: "bytes_at (fmem st) (data_buffer (file_fnode f)) 4096 = d"
    and buf: "region buf r \<inter> region (data_buffer (file_fnode f)) 4096 = {}"
  shows "\<exists>m. vfs_read fs f buf sz st = Some (int r, f\<lparr>offset := offset f + int r,
      file_fnode := (file_fnode f)\<lparr>rw_pos := int ((pos + r) mod 4096)\<rparr>\<rparr>, set_fmem m st)
    \<and> bytes_at m buf r = take r (drop pos d) \<and> same_outside (region buf r) (fmem st) m"
proof -
  let ?dbuf = "data_buffer (file_fnode f)"
  define m where "m = snd (memcpy (fmem st) buf (?dbuf + word_of_nat pos) (int r))"
  have so: "same_outside (region buf r) (fmem st) m" using memcpy_outside [of buf "int r"] by (simp add: m_def)
  have data: "bytes_at m buf r = take r (drop pos d)"
    unfolding m_def by (rule copy_part [OF d]) (use r(2) buf in simp_all)
  have sm: "(int pos + int r) smod 4096 = int ((pos + r) mod 4096)"
    using sdiv_smod_nonneg(2) [of "int pos + int r" 4096] by (simp add: zmod_int)
  have "split_request 4096 (int pos) (int r) = (int r, 0, 0)"
  proof (cases "pos + r = 4096")
    case True
    then show ?thesis using split_large [of "int pos" "int r" 0 0] by simp
  next
    case False
    then show ?thesis using split_small [of "int pos" "int r"] r by simp
  qed
  then have "vfs_read fs f buf sz st = Some (int r, f\<lparr>offset := offset f + int r,
      file_fnode := (file_fnode f)\<lparr>rw_pos := int ((pos + r) mod 4096)\<rparr>\<rparr>, set_fmem m st)"
    using real r(1,3) fn sm by (simp add: vfs_read_def read_size_def Let_def fcopy_def m_def)
  then show ?thesis using data so by blast
qed

section \<open>An open file\<close>

text \<open>
  A file that is open and in step: the offset agrees with the block the fnode is at and the
  position in it, and the buffer of the fnode holds this block.
\<close>

definition file_ok :: "('p fnode \<Rightarrow> 'q fs_state \<Rightarrow> u32 list \<Rightarrow> nat \<Rightarrow> u8 list list \<Rightarrow> addr set \<Rightarrow> bool)
    \<Rightarrow> 'p file_struct \<Rightarrow> 'q fs_state \<Rightarrow> u32 list \<Rightarrow> nat \<Rightarrow> u8 list list \<Rightarrow> addr set \<Rightarrow> bool" where
  "file_ok repr f st bs i D F \<longleftrightarrow>
     (let fn = file_fnode f in repr fn st bs i D F \<and> buffer_size fn = 4096 \<and> 0 \<le> rw_pos fn \<and> rw_pos fn < 4096
        \<and> offset f = 4096 * int i + rw_pos fn \<and> region (data_buffer fn) 4096 \<subseteq> F
        \<and> bytes_at (fmem st) (data_buffer fn) 4096 = D ! i \<and> data_size fn \<le> 4096 * int (length bs))"

section \<open>What a file system promises\<close>

text \<open>
  \<open>repr fn st bs i D F\<close>: the fnode is a file made of the blocks \<open>bs\<close>, which hold the
  data \<open>D\<close>, and is positioned at block \<open>i\<close>; the memory in \<open>F\<close> is not used by the file system.
\<close>

locale block_file =
  fixes fs :: "('p, 'q) filesystem"
    and repr :: "'p fnode \<Rightarrow> 'q fs_state \<Rightarrow> u32 list \<Rightarrow> nat \<Rightarrow> u8 list list \<Rightarrow> addr set \<Rightarrow> bool"
  assumes repr_blocks: "repr fn st bs i D F
      \<Longrightarrow> i < length bs \<and> length D = length bs \<and> 0 \<notin> set bs \<and> (\<forall>d \<in> set D. length d = 4096)"
    and next_block: "repr fn st bs i D F \<Longrightarrow> Suc i < length bs
      \<Longrightarrow> \<exists>p. get_data_block (fops fs) fn VFS_NEXT_BLOCK st = Some (bs ! Suc i, fn\<lparr>private_data := p\<rparr>, st)
            \<and> repr (fn\<lparr>private_data := p\<rparr>) st bs (Suc i) D F"
    and no_next_block: "repr fn st bs i D F \<Longrightarrow> Suc i = length bs
      \<Longrightarrow> \<exists>p. get_data_block (fops fs) fn VFS_NEXT_BLOCK st = Some (0, fn\<lparr>private_data := p\<rparr>, st)"
    and prev_block: "repr fn st bs (Suc i) D F
      \<Longrightarrow> \<exists>p. get_data_block (fops fs) fn VFS_PREV_BLOCK st = Some (bs ! i, fn\<lparr>private_data := p\<rparr>, st)
            \<and> repr (fn\<lparr>private_data := p\<rparr>) st bs i D F"
    and start_block: "repr fn st bs 0 D F \<Longrightarrow> get_data_block (fops fs) fn VFS_START_BLOCK st = Some (bs ! 0, fn, st)"
    and current_block: "repr fn st bs i D F \<Longrightarrow> get_data_block (fops fs) fn VFS_CURRENT_BLOCK st = Some (bs ! i, fn, st)"
    and read_data: "repr fn st bs i D F \<Longrightarrow> j < length bs \<Longrightarrow> region buf 4096 \<subseteq> F
      \<Longrightarrow> \<exists>m. read_block (fops fs) (fn_sb fn) buf (bs ! j) st = Some (0, set_fmem m st)
            \<and> bytes_at m buf 4096 = D ! j \<and> same_outside (region buf 4096) (fmem st) m"
    and write_data: "repr fn st bs i D F \<Longrightarrow> j < length bs \<Longrightarrow> region buf 4096 \<subseteq> F
      \<Longrightarrow> \<exists>m. write_block (fops fs) (fn_sb fn) buf (bs ! j) st = Some (0, set_fmem m st)
            \<and> repr fn (set_fmem m st) bs i (D[j := bytes_at (fmem st) buf 4096]) F \<and> same_outside (- F) (fmem st) m"
    and repr_frame: "repr fn st bs i D F \<Longrightarrow> same_outside F (fmem st) m \<Longrightarrow> repr fn (set_fmem m st) bs i D F"
    and repr_fields: "repr fn st bs i D F \<Longrightarrow> repr (fn\<lparr>fn_current_block := b\<rparr>) st bs i D F"
      "repr fn st bs i D F \<Longrightarrow> repr (fn\<lparr>rw_pos := x\<rparr>) st bs i D F"
      "repr fn st bs i D F \<Longrightarrow> repr (fn\<lparr>blk_cnt := y, data_size := x\<rparr>) st bs i D F"
begin

lemma nth_block: "repr fn st bs i D F \<Longrightarrow> j < length bs \<Longrightarrow> bs ! j \<noteq> 0"
  using repr_blocks by (metis nth_mem)

lemma read_next:
  assumes "repr fn st bs i D F" "Suc i < length bs" "region buf 4096 \<subseteq> F"
  shows "\<exists>p m. let fn' = fn\<lparr>private_data := p, fn_current_block := bs ! Suc i\<rparr> in
    vfs_read_block fs fn buf VFS_NEXT_BLOCK st = Some (0, fn', set_fmem m st) \<and> repr fn' (set_fmem m st) bs (Suc i) D F
    \<and> bytes_at m buf 4096 = D ! Suc i \<and> same_outside (region buf 4096) (fmem st) m"
proof -
  obtain p where p: "get_data_block (fops fs) fn VFS_NEXT_BLOCK st = Some (bs ! Suc i, fn\<lparr>private_data := p\<rparr>, st)"
    "repr (fn\<lparr>private_data := p\<rparr>) st bs (Suc i) D F" using next_block [OF assms(1,2)] by blast
  let ?fn = "fn\<lparr>private_data := p, fn_current_block := bs ! Suc i\<rparr>"
  have r: "repr ?fn st bs (Suc i) D F" using repr_fields(1) [OF p(2), of "bs ! Suc i"] by simp
  obtain m where m: "read_block (fops fs) (fn_sb ?fn) buf (bs ! Suc i) st = Some (0, set_fmem m st)"
    "bytes_at m buf 4096 = D ! Suc i" "same_outside (region buf 4096) (fmem st) m" using read_data [OF r assms(2,3)] by blast
  have "repr ?fn (set_fmem m st) bs (Suc i) D F" by (rule repr_frame [OF r same_outside_mono [OF m(3) assms(3)]])
  then show ?thesis using p(1) m nth_block [OF assms(1,2)]
    by (intro exI [of _ p] exI [of _ m]) (simp add: vfs_read_block_def vfs_get_data_block_def vfs_read_block_at_def Let_def)
qed

lemma vfs_open_ok:
  assumes r: "repr (file_fnode f) st bs 0 D F" and b: "buffer_size (file_fnode f) = 4096" "region (data_buffer (file_fnode f)) 4096 \<subseteq> F"
    and z: "rw_pos (file_fnode f) = 0" "offset f = 0" "data_size (file_fnode f) \<le> 4096 * int (length bs)"
  shows "\<exists>m. let f' = f\<lparr>file_fnode := (file_fnode f)\<lparr>fn_current_block := bs ! 0\<rparr>\<rparr> in
    vfs_open fs f st = Some (0, f', set_fmem m st) \<and> file_ok repr f' (set_fmem m st) bs 0 D F"
proof -
  let ?fn = "file_fnode f" and ?fn' = "(file_fnode f)\<lparr>fn_current_block := bs ! 0\<rparr>"
  have len: "0 < length bs" using repr_blocks [OF r] by simp
  have r': "repr ?fn' st bs 0 D F" by (rule repr_fields(1) [OF r])
  obtain m where m: "read_block (fops fs) (fn_sb ?fn) (data_buffer ?fn) (bs ! 0) st = Some (0, set_fmem m st)"
    "bytes_at m (data_buffer ?fn) 4096 = D ! 0" "same_outside (region (data_buffer ?fn) 4096) (fmem st) m"
    using read_data [OF r len b(2)] by blast
  have "repr ?fn' (set_fmem m st) bs 0 D F" by (rule repr_frame [OF r' same_outside_mono [OF m(3) b(2)]])
  then show ?thesis using m(1,2) start_block [OF r] nth_block [OF r len] b z
    by (intro exI [of _ m])
      (simp add: vfs_open_def vfs_read_block_def vfs_get_data_block_def vfs_read_block_at_def file_ok_def Let_def)
qed

lemma read_blocks_data:
  assumes "repr fn st bs i D F" "i + n < length bs" "region buf (4096 * n) \<subseteq> F" "4096 * n < 2 ^ 32"
  shows "\<exists>p b m. let fn' = fn\<lparr>private_data := p, fn_current_block := b\<rparr> in
    read_blocks fs n 4096 buf fn st = Some (0, buf + word_of_nat (4096 * n), fn', set_fmem m st)
    \<and> repr fn' (set_fmem m st) bs (i + n) D F
    \<and> bytes_at m buf (4096 * n) = concat (take n (drop (Suc i) D)) \<and> same_outside (region buf (4096 * n)) (fmem st) m"
  using assms
proof (induction n arbitrary: fn st i buf)
  case 0
  then show ?case
    by (intro exI [of _ "private_data fn"] exI [of _ "fn_current_block fn"] exI [of _ "fmem st"])
      (simp add: bytes_at_def set_fmem_def set_dmem_def)
next
  case (Suc n)
  have reg: "region buf (4096 + 4096 * n) = region buf 4096 \<union> region (buf + word_of_nat 4096) (4096 * n)" by (rule region_append)
  then have F: "region buf 4096 \<subseteq> F" "region (buf + word_of_nat 4096) (4096 * n) \<subseteq> F" using Suc.prems(3) by simp_all
  have "Suc i < length bs" using Suc.prems(2) by simp
  from read_next [OF Suc.prems(1) this F(1)] obtain p m where 1:
    "vfs_read_block fs fn buf VFS_NEXT_BLOCK st = Some (0, fn\<lparr>private_data := p, fn_current_block := bs ! Suc i\<rparr>, set_fmem m st)"
    "repr (fn\<lparr>private_data := p, fn_current_block := bs ! Suc i\<rparr>) (set_fmem m st) bs (Suc i) D F"
    "bytes_at m buf 4096 = D ! Suc i" "same_outside (region buf 4096) (fmem st) m" unfolding Let_def by blast
  obtain p' b' m' where 2:
    "read_blocks fs n 4096 (buf + word_of_nat 4096) (fn\<lparr>private_data := p, fn_current_block := bs ! Suc i\<rparr>) (set_fmem m st)
      = Some (0, buf + word_of_nat 4096 + word_of_nat (4096 * n), fn\<lparr>private_data := p', fn_current_block := b'\<rparr>, set_fmem m' st)"
    "repr (fn\<lparr>private_data := p', fn_current_block := b'\<rparr>) (set_fmem m' st) bs (Suc i + n) D F"
    "bytes_at m' (buf + word_of_nat 4096) (4096 * n) = concat (take n (drop (Suc (Suc i)) D))"
    "same_outside (region (buf + word_of_nat 4096) (4096 * n)) m m'"
    using Suc.IH [OF 1(2) _ F(2)] Suc.prems(2,4) by (auto simp: Let_def)
  have "bytes_at m' buf 4096 = bytes_at m buf 4096"
    by (rule bytes_at_outside [OF 2(4)]) (use region_behind [of 4096 "4096 * n" buf] Suc.prems(4) in auto)
  then have "bytes_at m' buf (4096 + 4096 * n) = D ! Suc i @ concat (take n (drop (Suc (Suc i)) D))"
    using bytes_at_append [of m' buf 4096 "4096 * n"] 1(3) 2(3) by simp
  moreover have "drop (Suc i) D = D ! Suc i # drop (Suc (Suc i)) D"
    using repr_blocks [OF Suc.prems(1)] Suc.prems(2) by (simp add: Cons_nth_drop_Suc)
  ultimately have "bytes_at m' buf (4096 * Suc n) = concat (take (Suc n) (drop (Suc i) D))" by simp
  moreover have "same_outside (region buf (4096 * Suc n)) (fmem st) m'"
    using same_outside_trans [OF 1(4) 2(4)] reg by simp
  moreover have "read_blocks fs (Suc n) 4096 buf fn st
      = Some (0, buf + word_of_nat (4096 * Suc n), fn\<lparr>private_data := p', fn_current_block := b'\<rparr>, set_fmem m' st)"
    using 1(1) 2(1) by (simp add: algebra_simps)
  ultimately show ?case using 2(2) unfolding Let_def
    by (intro exI [of _ p'] exI [of _ b'] exI [of _ m']) simp
qed

text \<open>A read within the block in the buffer.\<close>

lemma vfs_read_inside:
  assumes ok: "file_ok repr f st bs i D F" and r: "0 < r" "rw_pos (file_fnode f) + int r < 4096" and real: "read_size f sz = int r"
    and buf: "region buf r \<subseteq> F" "region buf r \<inter> region (data_buffer (file_fnode f)) 4096 = {}"
  shows "\<exists>f' st'. vfs_read fs f buf sz st = Some (int r, f', st') \<and> file_ok repr f' st' bs i D F \<and> offset f' = offset f + int r
    \<and> bytes_at (fmem st') buf r = take r (drop (nat (offset f)) (concat D))"
proof -
  let ?fn = "file_fnode f" and ?dbuf = "data_buffer (file_fnode f)"
  define pos where "pos = nat (rw_pos ?fn)"
  have fo: "repr ?fn st bs i D F" "buffer_size ?fn = 4096" "rw_pos ?fn = int pos" "offset f = 4096 * int i + int pos"
    "region ?dbuf 4096 \<subseteq> F" "bytes_at (fmem st) ?dbuf 4096 = D ! i" "data_size ?fn \<le> 4096 * int (length bs)"
    using ok by (simp_all add: file_ok_def Let_def pos_def)
  have pr: "pos + r < 4096" using r(2) fo(3) by simp
  let ?f = "f\<lparr>offset := offset f + int r, file_fnode := ?fn\<lparr>rw_pos := int (pos + r)\<rparr>\<rparr>"
  from vfs_read_buffered [OF fo(2,3) r(1) _ _ real fo(6) buf(2), of fs] pr obtain m where
    m: "vfs_read fs f buf sz st = Some (int r, ?f, set_fmem m st)" "bytes_at m buf r = take r (drop pos (D ! i))"
    "same_outside (region buf r) (fmem st) m" by auto
  have "take r (drop pos (D ! i)) = take r (drop (4096 * i + pos) (concat D))"
    using chunk_bytes(1) [of D 4096 i pos r] repr_blocks [OF fo(1)] pr by simp
  then have data: "bytes_at m buf r = take r (drop (nat (offset f)) (concat D))"
    using fo(4) m(2) by (simp add: nat_add_distrib nat_mult_distrib)
  have db: "bytes_at m ?dbuf 4096 = D ! i" using bytes_at_outside [OF m(3) buf(2)] fo(6) by simp
  have "repr (?fn\<lparr>rw_pos := int (pos + r)\<rparr>) (set_fmem m st) bs i D F"
    by (rule repr_fields(2), rule repr_frame [OF fo(1) same_outside_mono [OF m(3) buf(1)]])
  then have "file_ok repr ?f (set_fmem m st) bs i D F" using fo db pr by (simp add: file_ok_def Let_def)
  then show ?thesis using data m(1) by (intro exI [of _ ?f] exI [of _ "set_fmem m st"]) simp
qed

text \<open>A read that goes on to other blocks and ends within one.\<close>

lemma vfs_read_across:
  assumes ok: "file_ok repr f st bs i D F" and pos: "rw_pos (file_fnode f) = int pos"
    and r: "r = 4096 - pos + (4096 * n + k)" "0 < k" "k < 4096" "Suc i + n < length bs" "r < 2 ^ 32"
    and real: "read_size f sz = int r"
    and buf: "region buf r \<subseteq> F" "region buf r \<inter> region (data_buffer (file_fnode f)) 4096 = {}"
  shows "\<exists>f' st'. vfs_read fs f buf sz st = Some (int r, f', st') \<and> file_ok repr f' st' bs (Suc i + n) D F \<and> offset f' = offset f + int r
    \<and> bytes_at (fmem st') buf r = take r (drop (nat (offset f)) (concat D))"
proof -
  let ?fn = "file_fnode f" and ?dbuf = "data_buffer (file_fnode f)"
  define a where "a = 4096 - pos"
  have fo: "repr ?fn st bs i D F" "buffer_size ?fn = 4096" "pos < 4096" "offset f = 4096 * int i + int pos"
    "region ?dbuf 4096 \<subseteq> F" "bytes_at (fmem st) ?dbuf 4096 = D ! i" "data_size ?fn \<le> 4096 * int (length bs)"
    using ok pos by (simp_all add: file_ok_def Let_def)
  note rb = repr_blocks [OF fo(1)]
  let ?b1 = "buf + word_of_nat a" and ?b2 = "buf + word_of_nat a + word_of_nat (4096 * n)"
  have reg: "region buf r = region buf a \<union> region ?b1 (4096 * n) \<union> region ?b2 k"
    using region_append [of buf a "4096 * n + k"] region_append [of ?b1 "4096 * n" k] r(1) by (simp add: a_def Un_assoc)
  have dis: "region buf a \<inter> region ?b1 (4096 * n + k) = {}" "region ?b1 (4096 * n) \<inter> region ?b2 k = {}"
    using region_behind [of a "4096 * n + k" buf] region_behind [of "4096 * n" k ?b1] r(1,5) by (simp_all add: a_def)
  then have dis': "region ?b1 (4096 * n) \<inter> region buf a = {}" "region ?b2 k \<inter> region buf a = {}" "region ?b2 k \<inter> region ?b1 (4096 * n) = {}"
    using region_append [of ?b1 "4096 * n" k] by auto
  define m0 where "m0 = snd (memcpy (fmem st) buf (?dbuf + word_of_nat pos) (int a))"
  have so0: "same_outside (region buf a) (fmem st) m0" using memcpy_outside [of buf "int a"] by (simp add: m0_def)
  have "bytes_at m0 buf a = take a (drop pos (D ! i))"
    unfolding m0_def by (rule copy_part [OF fo(6)]) (use fo(3) buf(2) reg in \<open>auto simp: a_def\<close>)
  then have d0: "bytes_at m0 buf a = drop pos (D ! i)" using rb fo(3) by (simp add: a_def)
  have r0: "repr ?fn (set_fmem m0 st) bs i D F"
    by (rule repr_frame [OF fo(1) same_outside_mono [OF so0]]) (use buf(1) reg in auto)
  have "region ?b1 (4096 * n) \<subseteq> F" "4096 * n < 2 ^ 32" using buf(1) reg r(1,5) by auto
  from read_blocks_data [OF r0 _ this] r(4) obtain p1 c1 m1 where 1:
    "read_blocks fs n 4096 ?b1 ?fn (set_fmem m0 st) = Some (0, ?b2, ?fn\<lparr>private_data := p1, fn_current_block := c1\<rparr>, set_fmem m1 st)"
    "repr (?fn\<lparr>private_data := p1, fn_current_block := c1\<rparr>) (set_fmem m1 st) bs (i + n) D F"
    "bytes_at m1 ?b1 (4096 * n) = concat (take n (drop (Suc i) D))" "same_outside (region ?b1 (4096 * n)) m0 m1"
    unfolding Let_def by auto
  from read_next [OF 1(2) _ fo(5)] r(4) obtain p2 m2 where 2:
    "vfs_read_block fs (?fn\<lparr>private_data := p1, fn_current_block := c1\<rparr>) ?dbuf VFS_NEXT_BLOCK (set_fmem m1 st)
      = Some (0, ?fn\<lparr>private_data := p2, fn_current_block := bs ! (Suc i + n)\<rparr>, set_fmem m2 st)"
    "repr (?fn\<lparr>private_data := p2, fn_current_block := bs ! (Suc i + n)\<rparr>) (set_fmem m2 st) bs (Suc i + n) D F"
    "bytes_at m2 ?dbuf 4096 = D ! (Suc i + n)" "same_outside (region ?dbuf 4096) m1 m2"
    unfolding Let_def by auto
  define m3 where "m3 = snd (memcpy m2 ?b2 ?dbuf (int k))"
  have so3: "same_outside (region ?b2 k) m2 m3" using memcpy_outside [of ?b2 "int k"] by (simp add: m3_def)
  have d3: "bytes_at m3 ?b2 k = take k (D ! (Suc i + n))"
    using copy_part [OF 2(3), of 0 k ?b2] buf(2) reg r(3) by (simp add: m3_def Int_Un_distrib2)
  have bd: "region ?b2 k \<inter> region ?dbuf 4096 = {}" "region ?dbuf 4096 \<inter> region buf a = {}" "region ?dbuf 4096 \<inter> region ?b1 (4096 * n) = {}"
    using buf(2) reg by auto
  have "bytes_at m3 buf a = drop pos (D ! i)"
    using bytes_at_outside [OF so3 dis'(2)] bytes_at_outside [OF 2(4) bd(2)] bytes_at_outside [OF 1(4) dis'(1)] d0 by simp
  moreover have "bytes_at m3 ?b1 (4096 * n) = concat (take n (drop (Suc i) D))"
    using bytes_at_outside [OF so3 dis'(3)] bytes_at_outside [OF 2(4) bd(3)] 1(3) by simp
  ultimately have "bytes_at m3 buf (a + (4096 * n + k)) = drop pos (D ! i) @ concat (take n (drop (Suc i) D)) @ take k (D ! (Suc i + n))"
    unfolding bytes_at_append using d3 by simp
  also have "\<dots> = take r (drop (4096 * i + pos) (concat D))"
    using chunk_bytes(2) [of D 4096 i pos n k] rb fo(3) r by simp
  finally have data: "bytes_at m3 buf r = take r (drop (nat (offset f)) (concat D))"
    using fo(4) r(1) by (simp add: a_def nat_add_distrib nat_mult_distrib)
  have db: "bytes_at m3 ?dbuf 4096 = D ! (Suc i + n)" using bytes_at_outside [OF so3 bd(1)] 2(3) by simp
  let ?fn' = "?fn\<lparr>private_data := p2, fn_current_block := bs ! (Suc i + n), rw_pos := int k\<rparr>"
  let ?f = "f\<lparr>offset := offset f + int r, file_fnode := ?fn'\<rparr>"
  have rr: "int pos + int r = int k + (int n + 1) * 4096" using r(1) fo(3) by simp
  then have "(int pos + int r) mod 4096 = int k" using r(3) by (simp only: mod_mult_self1) simp
  then have sm: "(int pos + int r) smod 4096 = int k" using sdiv_smod_nonneg(2) [of "int pos + int r" 4096] by simp
  have sp: "split_request 4096 (int pos) (int r) = (int a, int n, int k)"
    using split_large [of "int pos" "int r" n "int k"] r(1-3) fo(3) by (simp add: a_def of_nat_diff)
  have "vfs_read fs f buf sz st = Some (int r, ?f, set_fmem m3 st)"
    using real r(2,3) fo(2) pos sp 1(1) 2(1) sm r(1) by (simp add: vfs_read_def read_size_def Let_def fcopy_def m0_def m3_def)
  moreover have "repr ?fn' (set_fmem m3 st) bs (Suc i + n) D F"
    using repr_fields(2) [OF repr_frame [OF 2(2), of m3], of "int k"] so3 buf(1) reg by (simp add: same_outside_mono)
  then have "file_ok repr ?f (set_fmem m3 st) bs (Suc i + n) D F" using fo db r rr by (simp add: file_ok_def Let_def)
  ultimately show ?thesis using data by (intro exI [of _ ?f] exI [of _ "set_fmem m3 st"]) simp
qed

lemma vfs_read_data:
  assumes ok: "file_ok repr f st bs i D F" and sz: "0 < sz" "offset f < data_size (file_fnode f)"
  defines "r \<equiv> nat (min sz (data_size (file_fnode f) - offset f))"
  assumes e: "(offset f + int r) mod 4096 \<noteq> 0" "r < 2 ^ 32"
    and buf: "region buf r \<subseteq> F" "region buf r \<inter> region (data_buffer (file_fnode f)) 4096 = {}"
  shows "\<exists>i' f' st'. vfs_read fs f buf sz st = Some (int r, f', st') \<and> file_ok repr f' st' bs i' D F \<and> offset f' = offset f + int r
    \<and> bytes_at (fmem st') buf r = take r (drop (nat (offset f)) (concat D))"
proof -
  let ?fn = "file_fnode f"
  define pos where "pos = nat (rw_pos ?fn)"
  have fo: "rw_pos ?fn = int pos" "pos < 4096" "offset f = 4096 * int i + int pos" "data_size ?fn \<le> 4096 * int (length bs)"
    using ok by (auto simp: file_ok_def Let_def pos_def)
  have r: "0 < r" "read_size f sz = int r" "offset f + int r \<le> data_size ?fn" using sz by (auto simp: r_def read_size_def)
  show ?thesis
  proof (cases "pos + r < 4096")
    case True
    then show ?thesis using vfs_read_inside [OF ok r(1) _ r(2) buf] fo(1) by auto
  next
    case False
    define n k where "n = (pos + r - 4096) div 4096" and "k = (pos + r - 4096) mod 4096"
    have nk: "r = 4096 - pos + (4096 * n + k)" "k < 4096" using False fo(2) by (simp_all add: n_def k_def)
    have o: "offset f + int r = int k + (int i + 1 + int n) * 4096" using nk fo(2,3) by simp
    have "(offset f + int r) mod 4096 = int k mod 4096" unfolding o by (rule mod_mult_self1)
    then have "0 < k" using e(1) by (cases k) auto
    moreover have "Suc i + n < length bs" using o \<open>0 < k\<close> r(3) fo(4) by simp
    ultimately show ?thesis using vfs_read_across [OF ok fo(1) nk(1) _ nk(2) _ e(2) r(2) buf] by auto
  qed
qed

text \<open>A read of whole blocks up to the last one fails in the end, when it asks for the next block.\<close>

lemma vfs_read_to_end_fails:
  assumes ok: "file_ok repr f st bs i D F" and pos: "rw_pos (file_fnode f) = 0" and n: "length bs = Suc i + n"
    and real: "read_size f sz = int (4096 * Suc n)" "4096 * Suc n < 2 ^ 32"
    and buf: "region buf (4096 * Suc n) \<subseteq> F"
  shows "\<exists>f' st'. vfs_read fs f buf sz st = Some (- ENOSPC, f', st') \<and> offset f' = offset f"
proof -
  let ?fn = "file_fnode f" and ?dbuf = "data_buffer (file_fnode f)"
  have fo: "repr ?fn st bs i D F" "buffer_size ?fn = 4096" using ok by (simp_all add: file_ok_def Let_def)
  have reg: "region buf (4096 + 4096 * n) = region buf 4096 \<union> region (buf + word_of_nat 4096) (4096 * n)" by (rule region_append)
  define m0 where "m0 = snd (memcpy (fmem st) buf ?dbuf 4096)"
  have "same_outside (region buf 4096) (fmem st) m0" using memcpy_outside [of buf 4096] by (simp add: m0_def)
  then have r0: "repr ?fn (set_fmem m0 st) bs i D F"
    by (rule repr_frame [OF fo(1) same_outside_mono]) (use buf reg in auto)
  have "region (buf + word_of_nat 4096) (4096 * n) \<subseteq> F" "4096 * n < 2 ^ 32" using buf reg real(2) by auto
  from read_blocks_data [OF r0 _ this] n obtain p c m1 where 1:
    "read_blocks fs n 4096 (buf + 4096) ?fn (set_fmem m0 st)
      = Some (0, buf + 4096 + word_of_nat (4096 * n), ?fn\<lparr>private_data := p, fn_current_block := c\<rparr>, set_fmem m1 st)"
    "repr (?fn\<lparr>private_data := p, fn_current_block := c\<rparr>) (set_fmem m1 st) bs (i + n) D F" unfolding Let_def by auto
  obtain p2 where 2: "vfs_read_block fs (?fn\<lparr>private_data := p, fn_current_block := c\<rparr>) ?dbuf VFS_NEXT_BLOCK (set_fmem m1 st)
      = Some (- ENOSPC, ?fn\<lparr>fn_current_block := c, private_data := p2\<rparr>, set_fmem m1 st)"
    using no_next_block [OF 1(2)] n by (auto simp: vfs_read_block_def vfs_get_data_block_def)
  have "split_request 4096 0 (4096 + 4096 * int n) = (4096, int n, 0)"
    using split_large [of 0 "4096 + 4096 * int n" n 0] by simp
  then have "vfs_read fs f buf sz st = Some (- ENOSPC, f\<lparr>file_fnode := ?fn\<lparr>fn_current_block := c, private_data := p2\<rparr>\<rparr>, set_fmem m1 st)"
    using real(1) fo(2) pos 1(1) 2 by (simp add: vfs_read_def read_size_def Let_def fcopy_def m0_def)
  then show ?thesis by simp
qed

text \<open>Positioning.\<close>

lemma skip_next:
  assumes "repr fn st bs i D F" "i + n < length bs"
  shows "\<exists>p. skip_blocks fs n VFS_NEXT_BLOCK b fn st = Some (Some (if n = 0 then b else bs ! (i + n)), fn\<lparr>private_data := p\<rparr>, st)
    \<and> repr (fn\<lparr>private_data := p\<rparr>) st bs (i + n) D F"
  using assms
proof (induction n arbitrary: fn i b)
  case 0
  then show ?case by (intro exI [of _ "private_data fn"]) simp
next
  case (Suc n)
  obtain p where p: "get_data_block (fops fs) fn VFS_NEXT_BLOCK st = Some (bs ! Suc i, fn\<lparr>private_data := p\<rparr>, st)"
    "repr (fn\<lparr>private_data := p\<rparr>) st bs (Suc i) D F" using next_block [OF Suc.prems(1)] Suc.prems(2) by auto
  then show ?case using Suc.IH [OF p(2), of "bs ! Suc i"] Suc.prems nth_block [OF Suc.prems(1), of "Suc i"]
    by (auto simp: vfs_get_data_block_def split: if_splits)
qed

lemma skip_prev:
  assumes "repr fn st bs (i + n) D F"
  shows "\<exists>p. skip_blocks fs n VFS_PREV_BLOCK b fn st = Some (Some (if n = 0 then b else bs ! i), fn\<lparr>private_data := p\<rparr>, st)
    \<and> repr (fn\<lparr>private_data := p\<rparr>) st bs i D F"
  using assms
proof (induction n arbitrary: fn b)
  case 0
  then show ?case by (intro exI [of _ "private_data fn"]) simp
next
  case (Suc n)
  obtain p where p: "get_data_block (fops fs) fn VFS_PREV_BLOCK st = Some (bs ! (i + n), fn\<lparr>private_data := p\<rparr>, st)"
    "repr (fn\<lparr>private_data := p\<rparr>) st bs (i + n) D F" using prev_block [of fn st bs "i + n"] Suc.prems by auto
  then show ?case using Suc.IH [OF p(2), of "bs ! (i + n)"] nth_block [OF p(2), of "i + n"] repr_blocks [OF p(2)]
    by (auto simp: vfs_get_data_block_def split: if_splits)
qed

text \<open>A seek by blocks ends at a block and fills the buffer with it.\<close>

lemma seek_blocks_to:
  assumes "skip_blocks fs (unat blocks) whence 0 fn st = Some (Some (bs ! j), fn\<lparr>private_data := p\<rparr>, st)"
    and "repr (fn\<lparr>private_data := p\<rparr>) st bs j D F" "region (data_buffer fn) 4096 \<subseteq> F"
  shows "\<exists>m. seek_blocks fs fn whence blocks x st = Some (0, fn\<lparr>private_data := p, rw_pos := x\<rparr>, set_fmem m st)
    \<and> bytes_at m (data_buffer fn) 4096 = D ! j \<and> repr (fn\<lparr>private_data := p\<rparr>) (set_fmem m st) bs j D F"
proof -
  obtain m where m: "read_block (fops fs) (fn_sb fn) (data_buffer fn) (bs ! j) st = Some (0, set_fmem m st)"
    "bytes_at m (data_buffer fn) 4096 = D ! j" "same_outside (region (data_buffer fn) 4096) (fmem st) m"
    using read_data [OF assms(2) _ assms(3)] repr_blocks [OF assms(2)] by auto
  have "repr (fn\<lparr>private_data := p\<rparr>) (set_fmem m st) bs j D F"
    by (rule repr_frame [OF assms(2) same_outside_mono [OF m(3) assms(3)]])
  then show ?thesis using assms(1) m by (intro exI [of _ m]) (simp add: seek_blocks_def vfs_read_block_at_def)
qed

lemma seek_forward_to:
  assumes ok: "file_ok repr f st bs i D F" and n: "offset f + int n < 4096 * int (length bs)" "4096 * length bs < 2 ^ 31"
  defines "t \<equiv> nat (offset f) + n"
  shows "\<exists>p x m. let fn' = (file_fnode f)\<lparr>private_data := p, rw_pos := x\<rparr> in
    seek_forward fs (file_fnode f) (rw_pos (file_fnode f)) (int n) st = Some (0, fn', set_fmem m st)
    \<and> x smod 4096 = int (t mod 4096) \<and> repr fn' (set_fmem m st) bs (t div 4096) D F
    \<and> bytes_at m (data_buffer fn') 4096 = D ! (t div 4096)"
proof -
  let ?fn = "file_fnode f"
  define pos where "pos = nat (rw_pos ?fn)"
  have fo: "repr ?fn st bs i D F" "buffer_size ?fn = 4096" "rw_pos ?fn = int pos" "pos < 4096" "offset f = 4096 * int i + int pos"
    "region (data_buffer ?fn) 4096 \<subseteq> F" "bytes_at (fmem st) (data_buffer ?fn) 4096 = D ! i"
    using ok by (auto simp: file_ok_def Let_def pos_def)
  have t: "t = 4096 * i + (pos + n)" using fo(5) by (simp add: t_def nat_add_distrib nat_mult_distrib)
  have lt: "n < 2 ^ 31" "t < 4096 * length bs" using n fo(5) t by linarith+
  have w: "(word_of_int (int n) :: u32) = word_of_nat n" "(word_of_int (4096 - int pos) :: u32) = word_of_nat (4096 - pos)"
    using fo(4) by (simp_all add: of_nat_diff)
  have le: "(word_of_nat (4096 - pos) :: u32) \<le> word_of_nat n \<longleftrightarrow> 4096 - pos \<le> n"
    using lt(1) by (simp add: word_le_nat_alt unat_word_of_nat)
  show ?thesis
  proof (cases "4096 - pos \<le> n")
    case False
    then have "t div 4096 = i" "t mod 4096 = pos + n" using t by simp_all
    moreover have "int (pos + n) smod 4096 = int (pos + n)" using sdiv_smod_nonneg(2) [of "int (pos + n)" 4096] False by simp
    ultimately show ?thesis using False fo le w repr_fields(2) [OF fo(1), of "int pos + int n"] unfolding Let_def
      by (intro exI [of _ "private_data ?fn"] exI [of _ "int pos + int n"] exI [of _ "fmem st"])
        (simp add: seek_forward_def Let_def set_fmem_def set_dmem_def)
  next
    case True
    define x where "x = n - (4096 - pos)"
    have tt: "t = x + (i + 1) * 4096" using True fo(4) t by (simp add: x_def)
    have tx: "t div 4096 = i + (x div 4096 + 1)" "t mod 4096 = x mod 4096" unfolding tt by (simp, rule mod_mult_self1)
    have xl: "x + 4096 < 2 ^ 32" using lt(1) by (simp add: x_def)
    have ws: "(word_of_nat n :: u32) - word_of_nat (4096 - pos) = word_of_nat x" using True by (simp add: x_def of_nat_diff)
    let ?blocks = "if (word_of_nat x :: u32) mod 4096 = 0 then align (word_of_nat x :: u32) 4096 div 4096 + 1
      else align (word_of_nat x :: u32) 4096 div 4096"
    note ub = blocks_forward(1) [OF xl] and sx = blocks_forward(2) [OF xl]
    have "i + (x div 4096 + 1) < length bs" using tx(1) lt(2) by (metis less_mult_imp_div_less mult.commute)
    from skip_next [OF fo(1) this, of 0] obtain p where p:
      "skip_blocks fs (unat ?blocks) VFS_NEXT_BLOCK 0 ?fn st = Some (Some (bs ! (t div 4096)), ?fn\<lparr>private_data := p\<rparr>, st)"
      "repr (?fn\<lparr>private_data := p\<rparr>) st bs (t div 4096) D F" unfolding ub tx(1) by auto
    from seek_blocks_to [OF p fo(6), of "int (x mod 4096)"] obtain m where m:
      "seek_blocks fs ?fn VFS_NEXT_BLOCK ?blocks (int (x mod 4096)) st
        = Some (0, ?fn\<lparr>private_data := p, rw_pos := int (x mod 4096)\<rparr>, set_fmem m st)"
      "bytes_at m (data_buffer ?fn) 4096 = D ! (t div 4096)" "repr (?fn\<lparr>private_data := p\<rparr>) (set_fmem m st) bs (t div 4096) D F" by blast
    have "int (x mod 4096) smod 4096 = int (x mod 4096)" using sdiv_smod_nonneg(2) [of "int (x mod 4096)" 4096] by simp
    moreover have "seek_forward fs ?fn (rw_pos ?fn) (int n) st = Some (0, ?fn\<lparr>private_data := p, rw_pos := int (x mod 4096)\<rparr>, set_fmem m st)"
      using m(1) True fo(2,3) le w ws sx by (simp add: seek_forward_def Let_def del: of_nat_diff)
    ultimately show ?thesis using m(2) tx(2) repr_fields(2) [OF m(3), of "int (x mod 4096)"] unfolding Let_def
      by (intro exI [of _ p] exI [of _ "int (x mod 4096)"] exI [of _ m]) simp
  qed
qed

lemma seek_back_to:
  assumes ok: "file_ok repr f st bs i D F" and n: "int n \<le> offset f" "4096 * length bs < 2 ^ 31"
  defines "t \<equiv> nat (offset f) - n"
  shows "\<exists>p x m. let fn' = (file_fnode f)\<lparr>private_data := p, rw_pos := x\<rparr> in
    seek_back fs (file_fnode f) (rw_pos (file_fnode f)) (int n) st = Some (0, fn', set_fmem m st)
    \<and> x smod 4096 = int (t mod 4096) \<and> repr fn' (set_fmem m st) bs (t div 4096) D F
    \<and> bytes_at m (data_buffer fn') 4096 = D ! (t div 4096)"
proof -
  let ?fn = "file_fnode f"
  define pos where "pos = nat (rw_pos ?fn)"
  have fo: "repr ?fn st bs i D F" "buffer_size ?fn = 4096" "rw_pos ?fn = int pos" "pos < 4096" "offset f = 4096 * int i + int pos"
    "region (data_buffer ?fn) 4096 \<subseteq> F" "bytes_at (fmem st) (data_buffer ?fn) 4096 = D ! i"
    using ok by (auto simp: file_ok_def Let_def pos_def)
  have t: "t = 4096 * i + pos - n" "n \<le> 4096 * i + pos"
    using fo(5) n(1) by (simp_all add: t_def nat_add_distrib nat_mult_distrib)
  have il: "i < length bs" using repr_blocks [OF fo(1)] by simp
  have lt: "n < 2 ^ 31" using t(2) il n(2) fo(4) by linarith
  have le: "(word_of_nat pos :: u32) < word_of_nat n \<longleftrightarrow> pos < n"
    using lt fo(4) by (simp add: word_less_nat_alt unat_word_of_nat)
  show ?thesis
  proof (cases "pos < n")
    case False
    then have "t = pos - n + i * 4096" using t by simp
    then have "t div 4096 = i" "t mod 4096 = pos - n" using fo(4) by simp_all
    moreover have "int (pos - n) smod 4096 = int (pos - n)" using sdiv_smod_nonneg(2) [of "int (pos - n)" 4096] fo(4) by simp
    ultimately show ?thesis using False fo le repr_fields(2) [OF fo(1), of "int pos - int n"] unfolding Let_def
      by (intro exI [of _ "private_data ?fn"] exI [of _ "int pos - int n"] exI [of _ "fmem st"])
        (simp add: seek_back_def Let_def set_fmem_def set_dmem_def of_nat_diff)
  next
    case True
    define x c where "x = n - pos" and "c = (x + 4095) div 4096"
    have xl: "x + 4096 < 2 ^ 32" using lt by (simp add: x_def)
    have x: "x + t = 4096 * i" using t True by (simp add: x_def)
    define y where "y = c * 4096 - x"
    have c: "x \<le> c * 4096" "c * 4096 < x + 4096" "0 < c" using True by (simp_all add: c_def x_def)
    have ci: "c \<le> i" using x c by simp
    have tt: "t = y + (i - c) * 4096" "y < 4096" using x c ci by (simp_all add: y_def algebra_simps diff_mult_distrib)
    have tx: "t div 4096 = i - c" "t mod 4096 = y" unfolding tt(1) using tt(2) by simp_all
    have ws: "(word_of_nat n :: u32) - word_of_nat pos = word_of_nat x" using True by (simp add: x_def of_nat_diff)
    note b = blocks_of [OF xl]
    let ?x = "sint (4096 - (word_of_nat x :: u32) mod 4096)"
    have sx: "?x smod 4096 = int y" using blocks_back [OF xl] by (simp add: y_def c_def)
    obtain p where p: "skip_blocks fs (unat (align (word_of_nat x :: u32) 4096 div 4096)) VFS_PREV_BLOCK 0 ?fn st
        = Some (Some (bs ! (t div 4096)), ?fn\<lparr>private_data := p\<rparr>, st)" "repr (?fn\<lparr>private_data := p\<rparr>) st bs (t div 4096) D F"
      using skip_prev [of ?fn st bs "i - c" c D F 0] fo(1) ci c(3) unfolding b(1) tx(1) c_def [symmetric] by auto
    from seek_blocks_to [OF p fo(6), of ?x] obtain m where m:
      "seek_blocks fs ?fn VFS_PREV_BLOCK (align (word_of_nat x :: u32) 4096 div 4096) ?x st
        = Some (0, ?fn\<lparr>private_data := p, rw_pos := ?x\<rparr>, set_fmem m st)"
      "bytes_at m (data_buffer ?fn) 4096 = D ! (t div 4096)" "repr (?fn\<lparr>private_data := p\<rparr>) (set_fmem m st) bs (t div 4096) D F" by blast
    have "seek_back fs ?fn (rw_pos ?fn) (int n) st = Some (0, ?fn\<lparr>private_data := p, rw_pos := ?x\<rparr>, set_fmem m st)"
      using m(1) True fo(2,3) le ws by (simp add: seek_back_def Let_def)
    then show ?thesis using m(2) tx(2) sx repr_fields(2) [OF m(3), of ?x] unfolding Let_def
      by (intro exI [of _ p] exI [of _ ?x] exI [of _ m]) simp
  qed
qed

lemma vfs_seek_set:
  assumes ok: "file_ok repr f st bs i D F" and fl: "fs_flag fs AND FS_FOPS_PREV_BLOCK \<noteq> 0"
    and off: "off \<le> data_size (file_fnode f)" "0 \<le> off" "off < 4096 * int (length bs)" "4096 * length bs < 2 ^ 31" "off \<noteq> offset f"
  shows "\<exists>f' st'. vfs_seek fs f off SEEK_SET st = Some (off, f', st') \<and> offset f' = off
    \<and> file_ok repr f' st' bs (nat off div 4096) D F \<and> file_fnode f' = (file_fnode f)\<lparr>private_data := private_data (file_fnode f'), rw_pos := off mod 4096\<rparr>"
proof -
  let ?fn = "file_fnode f" and ?t = "nat off"
  have fo: "0 \<le> offset f" "buffer_size ?fn = 4096" "region (data_buffer ?fn) 4096 \<subseteq> F" "data_size ?fn \<le> 4096 * int (length bs)"
    using ok by (auto simp: file_ok_def Let_def)
  obtain p x m where s: "(if off < offset f then seek_back fs ?fn (rw_pos ?fn) (offset f - off) st
      else seek_forward fs ?fn (rw_pos ?fn) (off - offset f) st) = Some (0, ?fn\<lparr>private_data := p, rw_pos := x\<rparr>, set_fmem m st)"
    "x smod 4096 = off mod 4096" "repr (?fn\<lparr>private_data := p, rw_pos := x\<rparr>) (set_fmem m st) bs (?t div 4096) D F"
    "bytes_at m (data_buffer ?fn) 4096 = D ! (?t div 4096)"
  proof (cases "off < offset f")
    case True
    then have "nat (offset f) - nat (offset f - off) = ?t" "int (nat (offset f - off)) = offset f - off" using off(2) by auto
    then show thesis using seek_back_to [OF ok, of "nat (offset f - off)"] True off(2,4) that unfolding Let_def
      by (auto simp: zmod_int)
  next
    case False
    then have "nat (offset f) + nat (off - offset f) = ?t" "int (nat (off - offset f)) = off - offset f" using fo(1) by auto
    then show thesis using seek_forward_to [OF ok, of "nat (off - offset f)"] False off that unfolding Let_def
      by (auto simp: zmod_int)
  qed
  let ?f = "f\<lparr>offset := off, file_fnode := ?fn\<lparr>private_data := p, rw_pos := off mod 4096\<rparr>\<rparr>"
  have "vfs_seek fs f off SEEK_SET st = Some (off, ?f, set_fmem m st)"
    using s(1,2) fl off(1,5) fo(2) by (auto simp: vfs_seek_def seek_target_def Let_def split: if_splits)
  moreover have "repr (?fn\<lparr>private_data := p, rw_pos := off mod 4096\<rparr>) (set_fmem m st) bs (?t div 4096) D F"
    using repr_fields(2) [OF s(3), of "off mod 4096"] by simp
  then have "file_ok repr ?f (set_fmem m st) bs (?t div 4096) D F"
    using s(4) fo off(2) by (simp add: file_ok_def Let_def zdiv_int)
  ultimately show ?thesis by (intro exI [of _ ?f] exI [of _ "set_fmem m st"]) simp
qed

text \<open>Overwriting bytes of the current block.\<close>

lemma vfs_write_inside:
  assumes ok: "file_ok repr f st bs i D F" and r: "0 < r" "rw_pos (file_fnode f) = int pos" "pos + r < 4096"
    and buf: "region buf r \<inter> region (data_buffer (file_fnode f)) 4096 = {}"
  shows "\<exists>f' st'. vfs_write fs f buf (int r) st = Some (0, f', st') \<and> offset f' = offset f + int r
    \<and> file_ok repr f' st' bs i (D[i := take pos (D ! i) @ bytes_at (fmem st) buf r @ drop (pos + r) (D ! i)]) F
    \<and> data_size (file_fnode f') = offset f + int r \<and> data_buffer (file_fnode f') = data_buffer (file_fnode f)"
proof -
  let ?fn = "file_fnode f" and ?dbuf = "data_buffer (file_fnode f)"
  let ?d = "take pos (D ! i) @ bytes_at (fmem st) buf r @ drop (pos + r) (D ! i)"
  have fo: "repr ?fn st bs i D F" "buffer_size ?fn = 4096" "offset f = 4096 * int i + int pos"
    "region ?dbuf 4096 \<subseteq> F" "bytes_at (fmem st) ?dbuf 4096 = D ! i"
    using ok r(2) by (simp_all add: file_ok_def Let_def)
  note rb = repr_blocks [OF fo(1)]
  define m0 where "m0 = snd (memcpy (fmem st) (?dbuf + word_of_nat pos) buf (int r))"
  have d0: "bytes_at m0 ?dbuf 4096 = ?d" unfolding m0_def by (rule write_part [OF fo(5) _ buf]) (use r(3) in simp)
  have "same_outside (region (?dbuf + word_of_nat pos) r) (fmem st) m0" using memcpy_outside [of _ "int r"] by (simp add: m0_def)
  moreover have "region (?dbuf + word_of_nat pos) r \<subseteq> F" using region_part [of pos r 4096 ?dbuf] r(3) fo(4) by auto
  ultimately have r0: "repr ?fn (set_fmem m0 st) bs i D F" by (intro repr_frame [OF fo(1) same_outside_mono])
  let ?fn1 = "?fn\<lparr>fn_current_block := bs ! i\<rparr>"
  have r1: "repr ?fn1 (set_fmem m0 st) bs i D F" by (rule repr_fields(1) [OF r0])
  from write_data [OF r1 _ fo(4)] rb obtain m1 where m1:
    "write_block (fops fs) (fn_sb ?fn) ?dbuf (bs ! i) (set_fmem m0 st) = Some (0, set_fmem m1 st)"
    "repr ?fn1 (set_fmem m1 st) bs i (D[i := ?d]) F" "same_outside (- F) m0 m1" using d0 by auto
  have d1: "bytes_at m1 ?dbuf 4096 = ?d" using bytes_at_outside [OF m1(3), of ?dbuf 4096] fo(4) d0 by auto
  have w: "vfs_write_block fs ?fn ?dbuf VFS_CURRENT_BLOCK (set_fmem m0 st) = Some (0, ?fn1, set_fmem m1 st)"
    using current_block [OF r0] nth_block [OF fo(1)] rb m1(1) by (simp add: vfs_write_block_def vfs_get_data_block_def vfs_write_block_at_def Let_def)
  let ?e = "offset f + int r"
  let ?fn2 = "?fn1\<lparr>blk_cnt := align ?e 4096 sdiv 4096, data_size := ?e, rw_pos := int (pos + r)\<rparr>"
  let ?f = "f\<lparr>offset := ?e, file_fnode := ?fn2\<rparr>"
  have "(int pos + int r) smod 4096 = int (pos + r)" using sdiv_smod_nonneg(2) [of "int pos + int r" 4096] r(3) by simp
  then have "vfs_write fs f buf (int r) st = Some (0, ?f, set_fmem m1 st)"
    using split_small [of "int pos" "int r"] r fo(2) w by (simp add: vfs_write_def Let_def fcopy_def m0_def)
  moreover have "repr ?fn2 (set_fmem m1 st) bs i (D[i := ?d]) F"
    using repr_fields(2) [OF repr_fields(3) [OF m1(2), of ?e "align ?e 4096 sdiv 4096"], of "int (pos + r)"] by simp
  then have "file_ok repr ?f (set_fmem m1 st) bs i (D[i := ?d]) F"
    using fo d1 r rb by (simp add: file_ok_def Let_def)
  ultimately show ?thesis by (intro exI [of _ ?f] exI [of _ "set_fmem m1 st"]) simp
qed

lemma write_read_back:
  assumes ok: "file_ok repr f st bs i D F" and fl: "fs_flag fs AND FS_FOPS_PREV_BLOCK \<noteq> 0"
    and r: "0 < r" "rw_pos (file_fnode f) = int pos" "pos + r < 4096" "4096 * length bs < 2 ^ 31"
    and buf: "region buf r \<inter> region (data_buffer (file_fnode f)) 4096 = {}"
    and buf': "region buf' r \<subseteq> F" "region buf' r \<inter> region (data_buffer (file_fnode f)) 4096 = {}"
  shows "\<exists>f1 st1 f2 st2 f3 st3. vfs_write fs f buf (int r) st = Some (0, f1, st1)
    \<and> vfs_seek fs f1 (offset f) SEEK_SET st1 = Some (offset f, f2, st2) \<and> vfs_read fs f2 buf' (int r) st2 = Some (int r, f3, st3)
    \<and> bytes_at (fmem st3) buf' r = bytes_at (fmem st) buf r"
proof -
  let ?d = "take pos (D ! i) @ bytes_at (fmem st) buf r @ drop (pos + r) (D ! i)"
  let ?D = "D[i := ?d]"
  from vfs_write_inside [OF ok r(1-3) buf] obtain f1 st1 where 1: "vfs_write fs f buf (int r) st = Some (0, f1, st1)"
    "offset f1 = offset f + int r" "file_ok repr f1 st1 bs i ?D F" "data_size (file_fnode f1) = offset f + int r"
    "data_buffer (file_fnode f1) = data_buffer (file_fnode f)" by blast
  have o: "offset f = 4096 * int i + int pos" "repr (file_fnode f) st bs i D F" using ok r(2) by (simp_all add: file_ok_def Let_def)
  note rb = repr_blocks [OF o(2)]
  have o2: "nat (offset f) = 4096 * i + pos" using o(1) by (simp add: nat_add_distrib nat_mult_distrib)
  have "4096 * int i + 4096 \<le> 4096 * int (length bs)" using rb by simp
  then have "offset f < 4096 * int (length bs)" using o(1) r(3) by linarith
  then obtain f2 st2 where 2: "vfs_seek fs f1 (offset f) SEEK_SET st1 = Some (offset f, f2, st2)" "offset f2 = offset f"
    "file_ok repr f2 st2 bs (nat (offset f) div 4096) ?D F"
    "file_fnode f2 = (file_fnode f1)\<lparr>private_data := private_data (file_fnode f2), rw_pos := offset f mod 4096\<rparr>"
    using vfs_seek_set [OF 1(3) fl, of "offset f"] 1(2,4) r(1,4) o(1) by auto
  have f2: "data_size (file_fnode f2) = offset f + int r" "data_buffer (file_fnode f2) = data_buffer (file_fnode f)"
    by (subst 2(4), simp add: 1(4), subst 2(4), simp add: 1(5))
  have rn: "nat (min (int r) (data_size (file_fnode f2) - offset f2)) = r" using f2(1) 2(2) by simp
  have "offset f2 + int r = int (pos + r) + int i * 4096" using o(1) 2(2) by simp
  then have "(offset f2 + int r) mod 4096 = int (pos + r)" using r(3) by (simp only: mod_mult_self1) simp
  then obtain f3 st3 where 3: "vfs_read fs f2 buf' (int r) st2 = Some (int r, f3, st3)"
    "bytes_at (fmem st3) buf' r = take r (drop (nat (offset f)) (concat ?D))"
    using vfs_read_data [OF 2(3), of "int r" buf', unfolded rn] r(1,3) f2 2(2) buf' by auto
  have "take r (drop (4096 * i + pos) (concat ?D)) = take r (drop pos (?D ! i))"
    by (rule chunk_bytes(1)) (use rb r(3) in \<open>auto dest!: set_update_subset_insert [THEN subsetD]\<close>)
  also have "\<dots> = bytes_at (fmem st) buf r" using rb r(3) by simp
  finally show ?thesis using 1(1) 2(1) 3 o2 by metis
qed

end

end
