(* ===== verification/Lmfs.thy ===== *)
theory Lmfs
  imports Fnode Vfs_File
begin

text \<open>
  fs/lmfs.c, the native file system.  Blocks have 4096 bytes and are eight sectors.  The first
  block is the super block; free fnodes and free blocks are kept in two stacks on the disk, of
  which the top block is in memory.  The fnode of a file has a table of blocks (\<open>lvl0\<close>), each
  of which is a table of 1024 data blocks; the current one is in memory at \<open>lvl1\<close>.  The
  operations \<open>write_superblock\<close> and \<open>write_fnode\<close>, which nothing calls, are left out.
\<close>

section \<open>Structures\<close>

record lmfs_super_block =
  ls_magic :: u32
  n_blocks :: u32
  start_block :: u32
  super_block_size :: u32
  ib_pool_start_block :: u32
  ib_pool_current_block :: u32
  ib_pool_pos :: u32
  ib_pool_block_nr :: u32
  db_pool_start_block :: u32
  db_pool_current_block :: u32
  db_pool_pos :: u32
  db_pool_block_nr :: u32
  fnode_start_block :: u32
  fnode_free :: u32
  fnode_n_blocks :: u32
  fnode_nr :: u32
  data_start_block :: u32
  data_free_blocks :: u32
  root_fnode_index :: u32
  ib_pool :: addr
  db_pool :: addr

text \<open>The pointers \<open>bitmap\<close> and \<open>lvl0\<close> point into \<open>data_block\<close>, here as an index, or are null.\<close>

record lmfs_fnode =
  fnode_index :: u32
  lvl1 :: addr
  data_block :: "u32 list"
  pos_in_lvl1 :: int
  pos_in_lvl0 :: int
  lm_current_block :: u32
  block_count :: u32
  file_nr :: int
  lm_bitmap :: "nat option"
  lvl0 :: "nat option"

definition zero_lmfs_fnode :: lmfs_fnode where
  "zero_lmfs_fnode = \<lparr>fnode_index = 0, lvl1 = 0, data_block = replicate 64 0, pos_in_lvl1 = 0, pos_in_lvl0 = 0,
     lm_current_block = 0, block_count = 0, file_nr = 0, lm_bitmap = None, lvl0 = None\<rparr>"

abbreviation (input) LMFS_FNODE_SIZE :: int where "LMFS_FNODE_SIZE \<equiv> 292"
abbreviation (input) LMFS_SUPER_SIZE :: int where "LMFS_SUPER_SIZE \<equiv> 84"

type_synonym lmfs_state = "lmfs_super_block fs_state"

abbreviation lsb :: "addr \<Rightarrow> lmfs_state \<Rightarrow> lmfs_super_block" where "lsb sb st \<equiv> sb_private (sbs st sb)"

definition upd_sb :: "addr \<Rightarrow> (lmfs_super_block super_block \<Rightarrow> lmfs_super_block super_block) \<Rightarrow> lmfs_state \<Rightarrow> lmfs_state" where
  "upd_sb sb f st = st\<lparr>sbs := (sbs st)(sb := f (sbs st sb))\<rparr>"

definition upd_lsb :: "addr \<Rightarrow> (lmfs_super_block \<Rightarrow> lmfs_super_block) \<Rightarrow> lmfs_state \<Rightarrow> lmfs_state" where
  "upd_lsb sb f = upd_sb sb (\<lambda>s. s\<lparr>sb_private := f (sb_private s)\<rparr>)"

definition free_fpages :: "addr \<Rightarrow> 'q fs_state \<Rightarrow> 'q fs_state option" where
  "free_fpages a st =
     map_option (\<lambda>ms. st\<lparr>fdisk := (fdisk st)\<lparr>kmem := (kmem (fdisk st))\<lparr>mm := ms\<rparr>\<rparr>\<rparr>) (free_pages a (mm (kmem (fdisk st))))"

section \<open>Blocks and super block\<close>

definition lmfs_read_block :: "addr \<Rightarrow> addr \<Rightarrow> u32 \<Rightarrow> lmfs_state \<Rightarrow> (int \<times> lmfs_state) option" where
  "lmfs_read_block sb buffer block st = do {
     b \<leftarrow> sb_bdev (sbs st sb);
     let (ret, d) = read_sectors b buffer (block * 8) 8 (fdisk st);
     Some (ret, st\<lparr>fdisk := d\<rparr>)
   }"

definition lmfs_write_block :: "addr \<Rightarrow> addr \<Rightarrow> u32 \<Rightarrow> lmfs_state \<Rightarrow> (int \<times> lmfs_state) option" where
  "lmfs_write_block sb buffer block st = do {
     b \<leftarrow> sb_bdev (sbs st sb);
     let (ret, d) = write_sectors b buffer (block * 8) 8 (fdisk st);
     Some (ret, st\<lparr>fdisk := d\<rparr>)
   }"

definition new_lmfs_super :: "lmfs_state \<Rightarrow> (addr \<times> lmfs_state) option" where
  "new_lmfs_super st = fkzalloc LMFS_SUPER_SIZE st"

definition init_lmfs_ibpool :: "addr \<Rightarrow> lmfs_state \<Rightarrow> (int \<times> lmfs_state) option" where
  "init_lmfs_ibpool sb st = do {
     (a, st) \<leftarrow> fget_free_pages 1 st;
     let st = upd_lsb sb (\<lambda>l. l\<lparr>ib_pool := a\<rparr>) st;
     if a = 0 then Some (- ENOMEM, st)
     else do {
       (err, st) \<leftarrow> lmfs_read_block sb a (ib_pool_current_block (lsb sb st)) st;
       if err \<noteq> 0 then do { st \<leftarrow> free_fpages a st; Some (- EIO, st) } else Some (0, st)
     }
   }"

definition init_lmfs_dbpool :: "addr \<Rightarrow> lmfs_state \<Rightarrow> (int \<times> lmfs_state) option" where
  "init_lmfs_dbpool sb st = do {
     (a, st) \<leftarrow> fget_free_pages 1 st;
     let st = upd_lsb sb (\<lambda>l. l\<lparr>db_pool := a\<rparr>) st;
     if a = 0 then Some (- ENOMEM, st)
     else do {
       (err, st) \<leftarrow> lmfs_read_block sb a (db_pool_current_block (lsb sb st)) st;
       if err \<noteq> 0 then do { st \<leftarrow> free_fpages a st; Some (- EIO, st) } else Some (0, st)
     }
   }"

definition fnode_location :: "addr \<Rightarrow> u32 \<Rightarrow> lmfs_state \<Rightarrow> u32 \<times> u32" where
  "fnode_location sb index st = (index div 8 + fnode_start_block (lsb sb st), index mod 8)"

text \<open>The super block as it is on the disk.\<close>

definition super_of :: "byte_mem \<Rightarrow> addr \<Rightarrow> lmfs_super_block" where
  "super_of m a = \<lparr>ls_magic = word_at m a, n_blocks = word_at m (a + 4), start_block = word_at m (a + 8), super_block_size = word_at m (a + 12),
     ib_pool_start_block = word_at m (a + 16), ib_pool_current_block = word_at m (a + 20), ib_pool_pos = word_at m (a + 24),
     ib_pool_block_nr = word_at m (a + 28), db_pool_start_block = word_at m (a + 32), db_pool_current_block = word_at m (a + 36),
     db_pool_pos = word_at m (a + 40), db_pool_block_nr = word_at m (a + 44), fnode_start_block = word_at m (a + 48),
     fnode_free = word_at m (a + 52), fnode_n_blocks = word_at m (a + 56), fnode_nr = word_at m (a + 60), data_start_block = word_at m (a + 64),
     data_free_blocks = word_at m (a + 68), root_fnode_index = word_at m (a + 72), ib_pool = word_at m (a + 76), db_pool = word_at m (a + 80)\<rparr>"

text \<open>The letters of LMFS.\<close>

definition lmfs_magic :: "u8 list" where
  "lmfs_magic = [76, 77, 70, 83]"

definition lmfs_fill_super :: "bdev option \<Rightarrow> addr \<Rightarrow> lmfs_state \<Rightarrow> (int \<times> lmfs_state) option" where
  "lmfs_fill_super bd sb st = do {
     (a, st) \<leftarrow> fget_free_pages 1 st;
     let st = st\<lparr>dbuffer := a\<rparr>;
     if a = 0 then Some (- ENOMEM, st)
     else do {
       b \<leftarrow> bd;
       let (err, d) = read_sectors b a 0 8 (fdisk st);
       let st = st\<lparr>fdisk := d\<rparr>;
       if err \<noteq> 0 then do { st \<leftarrow> free_fpages a st; Some (err, st) }
       else if bytes_at (fmem st) a 4 \<noteq> lmfs_magic then do { st \<leftarrow> free_fpages a st; Some (- EINVAL, st) }
       else do {
         (l, st) \<leftarrow> new_lmfs_super st;
         if l = 0 then do { st \<leftarrow> free_fpages a st; Some (- ENOMEM, st) }
         else do {
           let lmfs_super = super_of (fmem st) a;
           let st = upd_sb sb (\<lambda>s. s\<lparr>sb_dev := 0, sb_dir := 0, block_size_bits := 12, sb_block_size := 4096,
             max_file := sint (fnode_nr lmfs_super), sb_flags := 0, sb_magic := ls_magic lmfs_super, sb_bdev := bd,
             sb_private := lmfs_super\<rparr>) st;
           (err, st) \<leftarrow> init_lmfs_ibpool sb st;
           if err \<noteq> 0 then do { st \<leftarrow> ffree l st; st \<leftarrow> free_fpages a st; Some (err, st) }
           else do {
             (err, st) \<leftarrow> init_lmfs_dbpool sb st;
             if err \<noteq> 0 then do {
               st \<leftarrow> free_fpages (ib_pool (lsb sb st)) st; st \<leftarrow> ffree l st; st \<leftarrow> free_fpages a st; Some (err, st)
             } else Some (0, st)
           }
         }
       }
     }
   }"

section \<open>Free fnodes and blocks\<close>

definition lmfs_pop_fnode :: "addr \<Rightarrow> lmfs_state \<Rightarrow> (u32 \<times> lmfs_state) option" where
  "lmfs_pop_fnode sb st =
     (let l = lsb sb st; pos = ib_pool_pos l; blk = ib_pool_current_block l; pool = ib_pool l in
      if fnode_free l = 0 then Some (0, st)
      else
        let index = word_at (fmem st) (pool + 4 * pos); (pos', blk) = (if pos = 0 then (1023, blk - 1) else (pos - 1, blk)) in do {
          (err, st) \<leftarrow> (if pos = 0 \<and> blk \<ge> db_pool_start_block l then lmfs_read_block sb pool blk st else Some (0, st));
          Some (if err \<noteq> 0 then (0, st)
                else (index, upd_lsb sb (\<lambda>l. l\<lparr>ib_pool_current_block := blk, ib_pool_pos := pos', fnode_free := fnode_free l - 1\<rparr>) st))
        })"

definition lmfs_push_fnode :: "addr \<Rightarrow> u32 \<Rightarrow> lmfs_state \<Rightarrow> (u32 \<times> lmfs_state) option" where
  "lmfs_push_fnode sb index st =
     (let l = lsb sb st; pos = ib_pool_pos l + 1; blk = ib_pool_current_block l; pool = ib_pool l in
      if index = 0 then Some (0, st)
      else do {
        (err, st) \<leftarrow> (if pos = 1024 then lmfs_write_block sb pool blk st else Some (0, st));
        let (pos, blk) = (if pos = 1024 then (0, blk + 1) else (pos, blk));
        Some (if err \<noteq> 0 then (word_of_int (- EIO), st)
              else (0, upd_lsb sb (\<lambda>l. l\<lparr>ib_pool_current_block := blk, ib_pool_pos := pos, fnode_free := fnode_free l + 1\<rparr>)
                         (set_fmem (put_word (fmem st) (pool + 4 * pos) index) st)))
      })"

definition lmfs_pop_block :: "addr \<Rightarrow> lmfs_state \<Rightarrow> (u32 \<times> lmfs_state) option" where
  "lmfs_pop_block sb st =
     (let l = lsb sb st; pos = db_pool_pos l; blk = db_pool_current_block l; pool = db_pool l in
      if data_free_blocks l = 0 then Some (0, st)
      else
        let block = word_at (fmem st) (pool + 4 * pos); (pos', blk) = (if pos = 0 then (1023, blk - 1) else (pos - 1, blk)) in do {
          (err, st) \<leftarrow> (if pos = 0 \<and> blk \<ge> db_pool_start_block l then lmfs_read_block sb pool blk st else Some (0, st));
          Some (if err \<noteq> 0 then (0, st)
                else (block, upd_lsb sb (\<lambda>l. l\<lparr>db_pool_current_block := blk, db_pool_pos := pos'\<rparr>) st))
        })"

definition lmfs_push_block :: "addr \<Rightarrow> u32 \<Rightarrow> lmfs_state \<Rightarrow> (int \<times> lmfs_state) option" where
  "lmfs_push_block sb block st =
     (let l = lsb sb st; pos = db_pool_pos l + 1; blk = db_pool_current_block l; pool = db_pool l in
      if block = 0 then Some (- EINVAL, st)
      else do {
        (err, st) \<leftarrow> (if pos = 1024 then lmfs_write_block sb pool blk st else Some (0, st));
        let (pos, blk) = (if pos = 1024 then (0, blk + 1) else (pos, blk));
        Some (if err \<noteq> 0 then (- EIO, st)
              else (0, upd_lsb sb (\<lambda>l. l\<lparr>db_pool_current_block := blk, db_pool_pos := pos\<rparr>)
                         (set_fmem (put_word (fmem st) (pool + 4 * pos) block) st)))
      })"

text \<open>
  A new block is entered behind the last one in the table.  The branch for a full table stores
  into \<open>lvl0[65]\<close>, behind the end of the array of 64 words.
\<close>

definition lmfs_get_new_block :: "lmfs_fnode fnode \<Rightarrow> lmfs_state \<Rightarrow> (u32 \<times> lmfs_fnode fnode \<times> lmfs_state) option" where
  "lmfs_get_new_block fn st =
     (let lf = private_data fn; sb = fn_sb fn; pos1 = (word_of_int (pos_in_lvl0 lf) :: u32); pos2 = (word_of_int (pos_in_lvl1 lf) :: u32) in do {
        (new_block, st) \<leftarrow> lmfs_pop_block sb st;
        if new_block = 0 then Some (word_of_int (- ENOSPC), fn, st)
        else if pos2 = 1024 \<and> pos1 = 64 then do {
          (new_level1, st) \<leftarrow> lmfs_pop_block sb st;
          if new_level1 = 0 then do { (_, st) \<leftarrow> lmfs_push_block sb new_block st; Some (0, fn, st) }
          else do {
            (err, st) \<leftarrow> lmfs_write_block sb (lvl1 lf) pos1 st;
            if err \<noteq> 0 then do {
              (_, st) \<leftarrow> lmfs_push_block sb new_level1 st; (_, st) \<leftarrow> lmfs_push_block sb new_block st; Some (0, fn, st)
            } else None
          }
        } else do {
          let st = set_fmem (put_word (fmem st) (lvl1 lf + 4 * pos2) new_block) st;
          let pos2 = pos2 + 1;
          (_, st) \<leftarrow> lmfs_write_block sb (lvl1 lf) pos1 st;
          Some (new_block, fn\<lparr>private_data := lf\<lparr>pos_in_lvl0 := sint pos1, pos_in_lvl1 := sint pos2\<rparr>\<rparr>, st)
        }
      })"

section \<open>Fnodes\<close>

text \<open>An entry of the fnode table, 512 bytes.\<close>

record lmfs_fnode_entry =
  en_flag :: u32
  en_mode :: u32
  en_type :: u32
  en_size :: u32
  en_file_nr :: u32
  en_block_nr :: u32
  en_data_block :: "u32 list"

definition entry_at :: "byte_mem \<Rightarrow> addr \<Rightarrow> lmfs_fnode_entry" where
  "entry_at m e = \<lparr>en_flag = word_at m e, en_mode = word_at m (e + 4), en_type = word_at m (e + 8), en_size = word_at m (e + 28),
     en_file_nr = word_at m (e + 32), en_block_nr = word_at m (e + 36), en_data_block = words_at m (e + 256) 64\<rparr>"

definition init_data_block_info :: "addr \<Rightarrow> lmfs_fnode \<Rightarrow> lmfs_fnode_entry \<Rightarrow> lmfs_state \<Rightarrow> (int \<times> lmfs_fnode \<times> lmfs_state) option" where
  "init_data_block_info sb lf entry st =
     (let l0 = (if en_type entry = 6 then 0 else 32);
          lf = lf\<lparr>data_block := en_data_block entry, pos_in_lvl0 := 0, pos_in_lvl1 := 0, block_count := en_block_nr entry,
                 lm_bitmap := (if en_type entry = 6 then None else Some 0), lvl0 := Some l0\<rparr>
      in do {
        (ret, st) \<leftarrow> lmfs_read_block sb (lvl1 lf) (data_block lf ! l0) st;
        Some (if ret \<noteq> 0 then (ret, lf, st) else (0, lf\<lparr>lm_current_block := word_at (fmem st) (lvl1 lf)\<rparr>, st))
      })"

definition lmfs_fill_fnode :: "lmfs_fnode fnode \<Rightarrow> u32 \<Rightarrow> lmfs_state \<Rightarrow> (int \<times> lmfs_fnode fnode \<times> lmfs_state) option" where
  "lmfs_fill_fnode fn index st =
     (let (i, j) = fnode_location (fn_sb fn) index st in
      if i = 0 \<and> j = 0 then Some (- EINVAL, fn, st)
      else do {
        (ret, st) \<leftarrow> lmfs_read_block (fn_sb fn) (data_buffer fn) i st;
        if ret \<noteq> 0 then Some (ret, fn, st)
        else do {
          let en = entry_at (fmem st) (data_buffer fn + 512 * j);
          let fn = fn\<lparr>fn_mode := ucast (en_mode en), fn_flags := en_flag en, fn_type := ucast (en_type en), atime := 0, mtime := 0, ctime := 0,
                     blk_cnt := sint (en_block_nr en), fnode_size := 512, fn_state := 0, data_size := sint (en_size en),
                     buffer_size := 4096, psize := 292\<rparr>;
          (ret, lf, st) \<leftarrow> init_data_block_info (fn_sb fn) ((private_data fn)\<lparr>fnode_index := index, file_nr := sint (en_file_nr en)\<rparr>) en st;
          Some (ret, fn\<lparr>private_data := lf\<rparr>, st)
        }
      })"

definition lmfs_get_root_fnode :: "addr \<Rightarrow> lmfs_state \<Rightarrow> (lmfs_fnode fnode option \<times> lmfs_state) option" where
  "lmfs_get_root_fnode sb st = do {
     (fn, st) \<leftarrow> allocate_fnode zero_lmfs_fnode LMFS_FNODE_SIZE st;
     Some (map_option (\<lambda>fn. fn\<lparr>fnode_size := 512, fn_sb := sb, psize := 292, buffer_size := 4096,
                               private_data := (private_data fn)\<lparr>fnode_index := 0\<rparr>\<rparr>) fn, st)
   }"

definition lmfs_copy_fnode :: "lmfs_fnode fnode \<Rightarrow> lmfs_fnode fnode \<Rightarrow> lmfs_state \<Rightarrow> (int \<times> lmfs_fnode fnode \<times> lmfs_state) option" where
  "lmfs_copy_fnode fn parent st = do {
     (a, st) \<leftarrow> fget_free_pages 1 st;
     let fn = fn\<lparr>fn_sb := fn_sb parent, private_data := (private_data fn)\<lparr>lvl1 := a\<rparr>\<rparr>;
     if a = 0 then Some (- ENOMEM, fn, st) else lmfs_fill_fnode fn (fnode_index (private_data parent)) st
   }"

definition lmfs_release_fnode :: "lmfs_fnode fnode \<Rightarrow> lmfs_state \<Rightarrow> (int \<times> lmfs_state) option" where
  "lmfs_release_fnode fn st = do {
     st \<leftarrow> (if lvl1 (private_data fn) \<noteq> 0 then ffree (lvl1 (private_data fn)) st else Some st);
     Some (0, st)
   }"

section \<open>The blocks of a file\<close>

text \<open>The tables \<open>buffer\<close> and \<open>db_buffer\<close> of the code are the same page.\<close>

definition lmfs_get_data_block :: "lmfs_fnode fnode \<Rightarrow> int \<Rightarrow> lmfs_state \<Rightarrow> (u32 \<times> lmfs_fnode fnode \<times> lmfs_state) option" where
  "lmfs_get_data_block fn whence st =
     (let lf = private_data fn; pos = pos_in_lvl0 lf; pos_db = pos_in_lvl1 lf;
          at = (\<lambda>st i. word_at (fmem st) (lvl1 lf + word_of_int (4 * i)));
          set_pos = (\<lambda>p0 p1 st. let b = at st p1 in
            Some (b, fn\<lparr>private_data := lf\<lparr>pos_in_lvl0 := p0, pos_in_lvl1 := p1, lm_current_block := b\<rparr>\<rparr>, st));
          load = (\<lambda>i p0 p1. do {
            (ret, st) \<leftarrow> lmfs_read_block (fn_sb fn) (lvl1 lf) (at st i) st;
            if ret \<noteq> 0 then Some (0, fn, st) else set_pos p0 p1 st
          })
      in
      if whence = VFS_START_BLOCK then
        if pos = 0 \<and> pos_db = 0 then Some (lm_current_block lf, fn, st) else load 0 0 0
      else if whence = VFS_CURRENT_BLOCK then Some (lm_current_block lf, fn, st)
      else if whence = VFS_NEXT_BLOCK then
        if pos_db = 1023 then if at st (pos + 1) \<noteq> 0 then load (pos + 1) (pos + 1) 0 else Some (0, fn, st)
        else set_pos pos (pos_db + 1) st
      else if whence = VFS_PREV_BLOCK then
        if pos_db = 0 then if pos = 0 then Some (0, fn, st) else load (pos - 1) (pos - 1) 1023
        else set_pos pos (pos_db - 1) st
      else Some (0, fn, st))"

partial_function (option) free_blocks_loop :: "u32 \<Rightarrow> lmfs_fnode fnode \<Rightarrow> lmfs_state \<Rightarrow> (lmfs_fnode fnode \<times> lmfs_state) option" where
  "free_blocks_loop block fn st =
     (if block = 0 then Some (fn, st)
      else do {
        (_, st) \<leftarrow> lmfs_push_block (fn_sb fn) block st;
        (block, fn, st) \<leftarrow> lmfs_get_data_block fn VFS_NEXT_BLOCK st;
        free_blocks_loop block fn st
      })"

text \<open>With a block given, it is the variable \<open>block\<close>, still 0, that is pushed.\<close>

definition lmfs_free_block :: "lmfs_fnode fnode \<Rightarrow> u32 \<Rightarrow> lmfs_state \<Rightarrow> (int \<times> lmfs_fnode fnode \<times> lmfs_state) option" where
  "lmfs_free_block fn b st =
     (if b = 0 then do {
        (block, fn, st) \<leftarrow> lmfs_get_data_block fn VFS_START_BLOCK st;
        (fn, st) \<leftarrow> free_blocks_loop block fn st;
        Some (0, fn, st)
      } else do {
        (_, st) \<leftarrow> lmfs_push_block (fn_sb fn) 0 st;
        Some (0, fn, st)
      })"

section \<open>Directories\<close>

text \<open>A directory entry has 256 bytes: the name at 0, the type at 248, the fnode at 252.\<close>

fun dir_search :: "byte_mem \<Rightarrow> addr \<Rightarrow> addr \<Rightarrow> nat \<Rightarrow> addr option option" where
  "dir_search m name entry 0 = Some None"
| "dir_search m name entry (Suc n) = do {
     r \<leftarrow> strcmp m name entry;
     if r = 0 then Some (Some entry) else dir_search m name (entry + 256) n
   }"

definition lmfs_find_file :: "addr \<Rightarrow> lmfs_fnode fnode \<Rightarrow> addr \<Rightarrow> lmfs_state \<Rightarrow> (int \<times> lmfs_fnode fnode \<times> lmfs_state) option" where
  "lmfs_find_file name fn buffer st = do {
     hit \<leftarrow> dir_search (fmem st) name buffer 16;
     (case hit of
        None \<Rightarrow> Some (- ENOENT, fn, st)
      | Some entry \<Rightarrow> lmfs_fill_fnode fn (word_at (fmem st) (entry + 252)) st)
   }"

function next_dirent :: "byte_mem \<Rightarrow> addr \<Rightarrow> int \<Rightarrow> int \<Rightarrow> int \<times> addr option" where
  "next_dirent m entry npos sz =
     (if npos < sz then if m entry = 0 then next_dirent m (entry + 256) (npos + 256) sz else (npos + 256, Some entry)
      else (npos, None))"
  by pat_completeness auto
termination by (relation "measure (\<lambda>(m, entry, npos, sz). nat (sz - npos))") auto

declare next_dirent.simps [simp del]

definition lmfs_getdents :: "lmfs_fnode fnode \<Rightarrow> addr \<Rightarrow> addr \<Rightarrow> lmfs_state \<Rightarrow> (int \<times> lmfs_state) option" where
  "lmfs_getdents fn dent data st =
     (case next_dirent (fmem st) data (rw_pos fn) (buffer_size fn) of
        (npos, None) \<Rightarrow> Some (npos - rw_pos fn, st)
      | (npos, Some entry) \<Rightarrow> do {
          let m = (fmem st)(dent := fmem st (entry + 248));
          (_, m) \<leftarrow> strcpy m (dent + 1) entry;
          Some (npos - rw_pos fn, set_fmem m st)
        })"

definition lmfs_ops :: "(lmfs_fnode, lmfs_super_block) filesystem_ops" where
  "lmfs_ops = \<lparr>get_root_fnode = lmfs_get_root_fnode, get_data_block = lmfs_get_data_block, find_file = lmfs_find_file,
     op_copy_fnode = Some lmfs_copy_fnode, get_block = Some lmfs_get_new_block, read_block = lmfs_read_block,
     write_block = lmfs_write_block, parse_name = None, op_getdents = lmfs_getdents, fill_super = lmfs_fill_super,
     op_release_fnode = Some lmfs_release_fnode\<rparr>"

definition lmfs :: "(lmfs_fnode, lmfs_super_block) filesystem" where
  "lmfs = \<lparr>fops = lmfs_ops, fs_flag = 3\<rparr>"

section \<open>Blocks on the RAM disk\<close>

definition lmfs_disk :: "addr \<Rightarrow> addr \<Rightarrow> lmfs_state \<Rightarrow> bool" where
  "lmfs_disk base sb st \<longleftrightarrow>
     (case sb_bdev (sbs st sb) of
        None \<Rightarrow> False
      | Some b \<Rightarrow> disk_ops (disks (fdisk st) (bdev_disk b)) = memdisk_ops base \<and> 2040 \<le> max_start b)"

abbreviation disk_block :: "addr \<Rightarrow> byte_mem \<Rightarrow> u32 \<Rightarrow> u8 list" where
  "disk_block base m b \<equiv> bytes_at m (base + 4096 * b) 4096"

abbreviation ramdisk :: "addr \<Rightarrow> addr set" where
  "ramdisk base \<equiv> region base (4096 * 256)"

lemma block_region:
  assumes "b < 256"
  shows "region (base + 4096 * b) 4096 \<subseteq> ramdisk base"
proof -
  have "unat b < 256" using assms by (simp add: word_less_nat_alt)
  then show ?thesis using region_part [of "4096 * unat b" 4096 "4096 * 256" base] by simp
qed

lemma lmfs_disk_simps [simp]: "lmfs_disk base sb (set_fmem m st) = lmfs_disk base sb st"
  "lmfs_disk base sb' (upd_lsb sb f st) = lmfs_disk base sb' st"
  by (auto simp: lmfs_disk_def set_fmem_def set_dmem_def upd_lsb_def upd_sb_def split: option.splits)

lemma block_sectors:
  assumes "(b :: u32) < 256"
  shows "b * 8 \<le> 2040" "MEMDISK_ADDRESS base (b * 8) = base + 4096 * b"
proof -
  have "unat b \<le> 255" using assms by (simp add: word_less_nat_alt)
  then have "unat (b * 8) = unat b * 8" by (subst unat_mult_lem [THEN iffD1]) auto
  then show "b * 8 \<le> 2040" using \<open>unat b \<le> 255\<close> by (simp add: word_le_nat_alt)
  show "MEMDISK_ADDRESS base (b * 8) = base + 4096 * b" by (simp add: MEMDISK_ADDRESS_def)
qed

lemma lmfs_read:
  assumes "lmfs_disk base sb st" "b < 256" "region buf 4096 \<inter> ramdisk base = {}"
  shows "\<exists>m. lmfs_read_block sb buf b st = Some (0, set_fmem m st)
    \<and> bytes_at m buf 4096 = disk_block base (fmem st) b \<and> same_outside (region buf 4096) (fmem st) m"
proof -
  obtain bd where bd: "sb_bdev (sbs st sb) = Some bd" "disk_ops (disks (fdisk st) (bdev_disk bd)) = memdisk_ops base" "2040 \<le> max_start bd"
    using assms(1) by (auto simp: lmfs_disk_def split: option.splits)
  let ?m = "snd (memcpy (fmem st) buf (base + 4096 * b) (int 4096))"
  have "b * 8 \<le> max_start bd" using block_sectors(1) [OF assms(2)] bd(3) by simp
  from sectors_of_memdisk(1) [OF bd(2) this]
  have "lmfs_read_block sb buf b st = Some (0, set_fmem ?m st)"
    by (simp add: lmfs_read_block_def bd(1) memdisk_read_sectors_def block_sectors(2) [OF assms(2)] set_fmem_def)
  moreover have "apart buf 4096 (base + 4096 * b) 4096" using assms(3) block_region [OF assms(2), of base] by (auto simp: apart_region)
  then have "bytes_at ?m buf 4096 = disk_block base (fmem st) b" by (rule memcpy_target) simp
  moreover have "same_outside (region buf 4096) (fmem st) ?m" using memcpy_outside [of buf 4096] by simp
  ultimately show ?thesis by blast
qed

lemma lmfs_write:
  assumes "lmfs_disk base sb st" "b < 256" "region buf 4096 \<inter> ramdisk base = {}"
  shows "\<exists>m. lmfs_write_block sb buf b st = Some (0, set_fmem m st)
    \<and> disk_block base m b = bytes_at (fmem st) buf 4096 \<and> same_outside (region (base + 4096 * b) 4096) (fmem st) m"
proof -
  obtain bd where bd: "sb_bdev (sbs st sb) = Some bd" "disk_ops (disks (fdisk st) (bdev_disk bd)) = memdisk_ops base" "2040 \<le> max_start bd"
    using assms(1) by (auto simp: lmfs_disk_def split: option.splits)
  let ?m = "snd (memcpy (fmem st) (base + 4096 * b) buf (int 4096))"
  have "b * 8 \<le> max_start bd" using block_sectors(1) [OF assms(2)] bd(3) by simp
  from sectors_of_memdisk(2) [OF bd(2) this]
  have "lmfs_write_block sb buf b st = Some (0, set_fmem ?m st)"
    by (simp add: lmfs_write_block_def bd(1) memdisk_write_sectors_def block_sectors(2) [OF assms(2)] set_fmem_def)
  moreover have "apart (base + 4096 * b) 4096 buf 4096" using assms(3) block_region [OF assms(2), of base] by (auto simp: apart_region)
  then have "disk_block base ?m b = bytes_at (fmem st) buf 4096" by (rule memcpy_target) simp
  moreover have "same_outside (region (base + 4096 * b) 4096) (fmem st) ?m" using memcpy_outside [of _ 4096] by simp
  ultimately show ?thesis by blast
qed

lemma disk_blocks_apart:
  assumes "b < 256" "c < 256" "b \<noteq> c"
  shows "region (base + 4096 * b) 4096 \<inter> region (base + 4096 * c) 4096 = {}"
proof -
  have "unat b < 256" "unat c < 256" using assms by (simp_all add: word_less_nat_alt)
  moreover have "unat b \<noteq> unat c" using assms(3) word_unat_eq_iff [of b c] by blast
  ultimately show ?thesis using region_parts_apart [of "4096 * unat b" 4096 "4096 * unat c" 4096 base] by (auto simp: neq_iff)
qed

section \<open>Files\<close>

text \<open>
  A file of lmfs: the first table of blocks, which is in memory, has the blocks and then a
  zero.  Files with more than 1023 blocks need the next table, which is not found.
\<close>

definition lmfs_repr :: "addr \<Rightarrow> lmfs_fnode fnode \<Rightarrow> lmfs_state \<Rightarrow> u32 list \<Rightarrow> nat \<Rightarrow> u8 list list \<Rightarrow> addr set \<Rightarrow> bool" where
  "lmfs_repr base fn st bs i D F \<longleftrightarrow>
     (let lf = private_data fn in
      lmfs_disk base (fn_sb fn) st \<and> pos_in_lvl0 lf = 0 \<and> pos_in_lvl1 lf = int i \<and> i < length bs \<and> length bs < 1024
      \<and> words_at (fmem st) (lvl1 lf) (Suc (length bs)) = bs @ [0] \<and> lm_current_block lf = bs ! i
      \<and> distinct bs \<and> (\<forall>b \<in> set bs. 0 < b \<and> b < 256) \<and> D = map (disk_block base (fmem st)) bs
      \<and> F \<inter> region (lvl1 lf) 4096 = {} \<and> F \<inter> ramdisk base = {} \<and> region (lvl1 lf) 4096 \<inter> ramdisk base = {})"

lemma lvl1_word:
  assumes "lmfs_repr base fn st bs i D F" "j \<le> length bs"
  shows "word_at (fmem st) (lvl1 (private_data fn) + 4 * word_of_nat j) = (bs @ [0]) ! j"
proof -
  have "words_at (fmem st) (lvl1 (private_data fn)) (Suc (length bs)) ! j = (bs @ [0]) ! j"
    using assms(1) by (simp add: lmfs_repr_def Let_def)
  then show ?thesis using assms(2) by simp
qed

lemma lmfs_next:
  assumes "lmfs_repr base fn st bs i D F"
  shows "lmfs_get_data_block fn VFS_NEXT_BLOCK st = Some ((bs @ [0]) ! Suc i,
    fn\<lparr>private_data := (private_data fn)\<lparr>pos_in_lvl1 := int (Suc i), lm_current_block := (bs @ [0]) ! Suc i\<rparr>\<rparr>, st)"
proof -
  have "pos_in_lvl0 (private_data fn) = 0" "pos_in_lvl1 (private_data fn) = int i" "i < 1023" "Suc i \<le> length bs"
    using assms by (auto simp: lmfs_repr_def Let_def)
  then show ?thesis using lvl1_word [OF assms, of "Suc i"] by (simp add: lmfs_get_data_block_def Let_def algebra_simps)
qed

lemma lmfs_prev:
  assumes "lmfs_repr base fn st bs (Suc i) D F"
  shows "lmfs_get_data_block fn VFS_PREV_BLOCK st = Some (bs ! i,
    fn\<lparr>private_data := (private_data fn)\<lparr>pos_in_lvl1 := int i, lm_current_block := bs ! i\<rparr>\<rparr>, st)"
proof -
  have "pos_in_lvl0 (private_data fn) = 0" "pos_in_lvl1 (private_data fn) = int (Suc i)" "Suc i < length bs"
    using assms by (auto simp: lmfs_repr_def Let_def)
  then show ?thesis using lvl1_word [OF assms, of i] by (simp add: lmfs_get_data_block_def Let_def nth_append)
qed

lemma lmfs_repr_frame:
  assumes r: "lmfs_repr base fn st bs i D F" and s: "same_outside A (fmem st) m" and a: "A \<inter> region (lvl1 (private_data fn)) 4096 = {}"
  shows "lmfs_repr base fn (set_fmem m st) bs i (map (disk_block base m) bs) F"
proof -
  have len: "4 * Suc (length bs) \<le> 4096" using r by (simp add: lmfs_repr_def Let_def)
  then have "A \<inter> region (lvl1 (private_data fn)) (4 * Suc (length bs)) = {}" using a region_mono [OF len] by blast
  from words_at_outside [OF s this] show ?thesis using r by (simp add: lmfs_repr_def Let_def)
qed

lemma lmfs_repr_block:
  assumes "lmfs_repr base fn st bs i D F" "j < length bs"
  shows "bs ! j < 256" "D ! j = disk_block base (fmem st) (bs ! j)"
  using assms nth_mem [OF assms(2)] by (auto simp: lmfs_repr_def Let_def)

lemma lmfs_read_data:
  assumes r: "lmfs_repr base fn st bs i D F" and j: "j < length bs" and buf: "region buf 4096 \<subseteq> F"
  shows "\<exists>m. lmfs_read_block (fn_sb fn) buf (bs ! j) st = Some (0, set_fmem m st)
    \<and> bytes_at m buf 4096 = D ! j \<and> same_outside (region buf 4096) (fmem st) m"
proof -
  have "lmfs_disk base (fn_sb fn) st" "region buf 4096 \<inter> ramdisk base = {}" using r buf by (auto simp: lmfs_repr_def Let_def)
  from lmfs_read [OF this(1) lmfs_repr_block(1) [OF r j] this(2)] lmfs_repr_block(2) [OF r j] show ?thesis by metis
qed

lemma lmfs_write_data:
  assumes r: "lmfs_repr base fn st bs i D F" and j: "j < length bs" and buf: "region buf 4096 \<subseteq> F"
  shows "\<exists>m. lmfs_write_block (fn_sb fn) buf (bs ! j) st = Some (0, set_fmem m st)
    \<and> lmfs_repr base fn (set_fmem m st) bs i (D[j := bytes_at (fmem st) buf 4096]) F \<and> same_outside (- F) (fmem st) m"
proof -
  let ?b = "bs ! j"
  have c: "lmfs_disk base (fn_sb fn) st" "region buf 4096 \<inter> ramdisk base = {}" "F \<inter> ramdisk base = {}"
    "region (lvl1 (private_data fn)) 4096 \<inter> ramdisk base = {}" "distinct bs" "D = map (disk_block base (fmem st)) bs"
    using r buf by (auto simp: lmfs_repr_def Let_def)
  have b: "?b < 256" by (rule lmfs_repr_block(1) [OF r j])
  obtain m where m: "lmfs_write_block (fn_sb fn) buf ?b st = Some (0, set_fmem m st)" "disk_block base m ?b = bytes_at (fmem st) buf 4096"
    "same_outside (region (base + 4096 * ?b) 4096) (fmem st) m" using lmfs_write [OF c(1) b c(2)] by blast
  have "map (disk_block base m) bs = D[j := bytes_at (fmem st) buf 4096]"
  proof (rule nth_equalityI)
    fix k assume "k < length (map (disk_block base m) bs)"
    then have k: "k < length bs" by simp
    show "map (disk_block base m) bs ! k = D[j := bytes_at (fmem st) buf 4096] ! k"
    proof (cases "k = j")
      case True
      then show ?thesis using m(2) k c(6) by simp
    next
      case False
      then have "?b \<noteq> bs ! k" using c(5) j k by (simp add: nth_eq_iff_index_eq)
      from bytes_at_outside [OF m(3) disk_blocks_apart [OF b lmfs_repr_block(1) [OF r k] this]] show ?thesis using False k c(6) by simp
    qed
  qed (simp add: c(6))
  moreover have "lmfs_repr base fn (set_fmem m st) bs i (map (disk_block base m) bs) F"
    by (rule lmfs_repr_frame [OF r m(3)]) (use c(4) block_region [OF b] in blast)
  moreover have "same_outside (- F) (fmem st) m" by (rule same_outside_mono [OF m(3)]) (use c(3) block_region [OF b] in blast)
  ultimately show ?thesis using m(1) by auto
qed

interpretation lm: block_file lmfs "lmfs_repr base" for base
proof (unfold_locales, goal_cases)
  case (1 fn st bs i D F)
  then show ?case by (auto simp: lmfs_repr_def Let_def)
next
  case (2 fn st bs i D F)
  then have "lmfs_repr base (fn\<lparr>private_data := (private_data fn)\<lparr>pos_in_lvl1 := int (Suc i), lm_current_block := bs ! Suc i\<rparr>\<rparr>) st bs (Suc i) D F"
    by (simp add: lmfs_repr_def Let_def)
  then show ?case using lmfs_next [OF 2(1)] 2(2) unfolding lmfs_def lmfs_ops_def by (auto simp: nth_append)
next
  case (3 fn st bs i D F)
  then show ?case using lmfs_next [OF 3(1)] unfolding lmfs_def lmfs_ops_def by (auto simp: nth_append)
next
  case (4 fn st bs i D F)
  then have "lmfs_repr base (fn\<lparr>private_data := (private_data fn)\<lparr>pos_in_lvl1 := int i, lm_current_block := bs ! i\<rparr>\<rparr>) st bs i D F"
    by (simp add: lmfs_repr_def Let_def)
  then show ?case using lmfs_prev [OF 4] unfolding lmfs_def lmfs_ops_def by auto
next
  case (5 fn st bs D F)
  then show ?case by (simp add: lmfs_def lmfs_ops_def lmfs_get_data_block_def Let_def lmfs_repr_def)
next
  case (6 fn st bs i D F)
  then show ?case by (simp add: lmfs_def lmfs_ops_def lmfs_get_data_block_def Let_def lmfs_repr_def)
next
  case (7 fn st bs i D F j buf)
  from lmfs_read_data [OF this] show ?case by (simp add: lmfs_def lmfs_ops_def)
next
  case (8 fn st bs i D F j buf)
  from lmfs_write_data [OF this] show ?case by (simp add: lmfs_def lmfs_ops_def)
next
  case (9 fn st bs i D F m)
  have a: "F \<inter> region (lvl1 (private_data fn)) 4096 = {}" "F \<inter> ramdisk base = {}" "\<forall>b \<in> set bs. b < 256" "D = map (disk_block base (fmem st)) bs"
    using 9(1) by (auto simp: lmfs_repr_def Let_def)
  have "map (disk_block base m) bs = map (disk_block base (fmem st)) bs"
  proof (rule map_cong [OF refl])
    fix b assume "b \<in> set bs"
    then have "F \<inter> region (base + 4096 * b) 4096 = {}" using a(2,3) block_region [of b base] by blast
    from bytes_at_outside [OF 9(2) this] show "disk_block base m b = disk_block base (fmem st) b" .
  qed
  then show ?case using lmfs_repr_frame [OF 9 a(1)] a(4) by (simp only:)
qed (simp_all add: lmfs_repr_def Let_def)

end
