(* ===== verification/Lmfs_File.thy ===== *)
theory Lmfs_File
  imports Lmfs
begin

text \<open>
  Files of lmfs from the path to the bytes: an fnode that is filled from the disk represents
  the file that is stored there, the lookup of a name in a directory ends with this fnode,
  and reading, writing and positioning an open file act on the bytes of the file.
\<close>

section \<open>Filling an fnode\<close>

lemma bytes_at_part:
  assumes "bytes_at m' p n = bytes_at m q n" "k + l \<le> n"
  shows "bytes_at m' (p + word_of_nat k) l = bytes_at m (q + word_of_nat k) l"
proof (rule nth_equalityI)
  fix i assume "i < length (bytes_at m' (p + word_of_nat k) l)"
  then have "i < l" by simp
  then show "bytes_at m' (p + word_of_nat k) l ! i = bytes_at m (q + word_of_nat k) l ! i"
    using arg_cong [OF assms(1), of "\<lambda>xs. xs ! (k + i)"] assms(2) by (simp add: add.assoc)
qed simp

lemma entry_at_cong:
  assumes "bytes_at m' e' 512 = bytes_at m e 512"
  shows "entry_at m' e' = entry_at m e"
proof -
  note part = bytes_at_part [OF assms]
  have word: "word_at m' (e' + word_of_nat k) = word_at m (e + word_of_nat k)" if "k + 4 \<le> 512" for k
    by (rule word_at_cong [OF part [OF that]])
  have "words_at m' (e' + 256) 64 = words_at m (e + 256) 64" using words_at_bytes [OF part [of 256 "4 * 64"]] by simp
  then show ?thesis using word [of 0] word [of 4] word [of 8] word [of 28] word [of 32] word [of 36] by (simp add: entry_at_def)
qed

text \<open>The entry of an fnode on the disk, and the file that it describes.\<close>

definition stored_entry :: "addr \<Rightarrow> byte_mem \<Rightarrow> u32 \<Rightarrow> u32 \<Rightarrow> lmfs_fnode_entry" where
  "stored_entry base m start idx = entry_at m (base + 4096 * (idx div 8 + start) + 512 * (idx mod 8))"

definition first_table :: "lmfs_fnode_entry \<Rightarrow> u32" where
  "first_table en = en_data_block en ! (if en_type en = 6 then 0 else 32)"

definition stored_file :: "addr \<Rightarrow> byte_mem \<Rightarrow> u32 \<Rightarrow> u32 \<Rightarrow> u32 list \<Rightarrow> bool" where
  "stored_file base m start idx bs \<longleftrightarrow>
     (let t = first_table (stored_entry base m start idx) in
      0 < idx div 8 + start \<and> idx div 8 + start < 256 \<and> t < 256 \<and> bs \<noteq> [] \<and> length bs < 1024
      \<and> words_at m (base + 4096 * t) (Suc (length bs)) = bs @ [0] \<and> distinct bs \<and> (\<forall>b \<in> set bs. 0 < b \<and> b < 256))"

text \<open>The fnode after the call: what of it comes from the entry.\<close>

definition filled :: "lmfs_fnode fnode \<Rightarrow> lmfs_fnode_entry \<Rightarrow> lmfs_fnode fnode \<Rightarrow> bool" where
  "filled fn en fn' \<longleftrightarrow> data_size fn' = sint (en_size en) \<and> fn_type fn' = ucast (en_type en) \<and> fn_mode fn' = ucast (en_mode en)
     \<and> buffer_size fn' = 4096 \<and> data_buffer fn' = data_buffer fn \<and> fn_sb fn' = fn_sb fn \<and> fnode_at fn' = fnode_at fn
     \<and> rw_pos fn' = rw_pos fn \<and> lvl1 (private_data fn') = lvl1 (private_data fn)"

definition buffers_ok :: "addr \<Rightarrow> lmfs_fnode fnode \<Rightarrow> bool" where
  "buffers_ok base fn \<longleftrightarrow> region (data_buffer fn) 4096 \<inter> ramdisk base = {} \<and> region (lvl1 (private_data fn)) 4096 \<inter> ramdisk base = {}
     \<and> region (data_buffer fn) 4096 \<inter> region (lvl1 (private_data fn)) 4096 = {}"

lemma stored_entry_frame:
  assumes "same_outside A (m :: byte_mem) m'" "A \<inter> ramdisk base = {}" "idx div 8 + start < 256"
  shows "stored_entry base m' start idx = stored_entry base m start idx"
  unfolding stored_entry_def
proof (rule entry_at_cong, rule bytes_at_outside [OF assms(1)])
  have "unat (idx mod 8) < 8" by (simp add: unat_mod_distrib)
  then have "region (base + 4096 * (idx div 8 + start) + word_of_nat (512 * unat (idx mod 8))) 512
      \<subseteq> region (base + 4096 * (idx div 8 + start)) 4096" by (intro region_part) simp
  then show "A \<inter> region (base + 4096 * (idx div 8 + start) + 512 * (idx mod 8)) 512 = {}"
    using block_region [OF assms(3)] assms(2) by fastforce
qed

lemma fill_fnode_repr:
  assumes d: "lmfs_disk base (fn_sb fn) st" and f: "stored_file base (fmem st) (fnode_start_block (lsb (fn_sb fn) st)) idx bs"
    and b: "buffers_ok base fn" and F: "F \<inter> region (lvl1 (private_data fn)) 4096 = {}" "F \<inter> ramdisk base = {}"
  shows "\<exists>fn' m. lmfs_fill_fnode fn idx st = Some (0, fn', set_fmem m st)
    \<and> lmfs_repr base fn' (set_fmem m st) bs 0 (map (disk_block base (fmem st)) bs) F
    \<and> filled fn (stored_entry base (fmem st) (fnode_start_block (lsb (fn_sb fn) st)) idx) fn'
    \<and> same_outside (region (data_buffer fn) 4096 \<union> region (lvl1 (private_data fn)) 4096) (fmem st) m"
proof -
  let ?start = "fnode_start_block (lsb (fn_sb fn) st)" and ?dbuf = "data_buffer fn" and ?l1 = "lvl1 (private_data fn)"
  let ?i = "idx div 8 + ?start" and ?j = "idx mod 8"
  let ?en = "stored_entry base (fmem st) ?start idx"
  let ?t = "first_table ?en"
  have sf: "0 < ?i" "?i < 256" "?t < 256" "bs \<noteq> []" "length bs < 1024" "words_at (fmem st) (base + 4096 * ?t) (Suc (length bs)) = bs @ [0]"
    "distinct bs" "\<forall>b \<in> set bs. 0 < b \<and> b < 256" using f by (simp_all add: stored_file_def Let_def)
  obtain m1 where m1: "lmfs_read_block (fn_sb fn) ?dbuf ?i st = Some (0, set_fmem m1 st)" "bytes_at m1 ?dbuf 4096 = disk_block base (fmem st) ?i"
    "same_outside (region ?dbuf 4096) (fmem st) m1" using lmfs_read [OF d sf(2), of ?dbuf] b by (auto simp: buffers_ok_def)
  have "unat ?j < 8" by (simp add: unat_mod_distrib)
  then have "bytes_at m1 (?dbuf + 512 * ?j) 512 = bytes_at (fmem st) (base + 4096 * ?i + 512 * ?j) 512"
    using bytes_at_part [OF m1(2), of "512 * unat ?j" 512] by simp
  from entry_at_cong [OF this] have en: "entry_at m1 (?dbuf + 512 * ?j) = ?en" by (simp add: stored_entry_def)
  obtain m where m: "lmfs_read_block (fn_sb fn) ?l1 ?t (set_fmem m1 st) = Some (0, set_fmem m st)" "bytes_at m ?l1 4096 = disk_block base m1 ?t"
    "same_outside (region ?l1 4096) m1 m" using lmfs_read [of base "fn_sb fn" "set_fmem m1 st" ?t ?l1] d sf(3) b by (auto simp: buffers_ok_def)
  have same: "same_outside (region ?dbuf 4096 \<union> region ?l1 4096) (fmem st) m" using same_outside_trans [OF m1(3) m(3)] by (simp add: Un_commute)
  have off: "(region ?dbuf 4096 \<union> region ?l1 4096) \<inter> ramdisk base = {}" using b by (auto simp: buffers_ok_def)
  have blk1: "disk_block base m1 ?t = disk_block base (fmem st) ?t"
    by (rule bytes_at_outside [OF m1(3)]) (use off block_region [OF sf(3), of base] in blast)
  have blks: "map (disk_block base m) bs = map (disk_block base (fmem st)) bs"
  proof (rule map_cong [OF refl], rule bytes_at_outside [OF same])
    fix x assume "x \<in> set bs"
    then show "(region ?dbuf 4096 \<union> region ?l1 4096) \<inter> region (base + 4096 * x) 4096 = {}"
      using off block_region [of x base] sf(8) by blast
  qed
  have "bytes_at m ?l1 (4 * Suc (length bs)) = bytes_at (fmem st) (base + 4096 * ?t) (4 * Suc (length bs))"
    using bytes_at_part [of m ?l1 4096 "fmem st" "base + 4096 * ?t" 0 "4 * Suc (length bs)"] m(2) blk1 sf(5) by simp
  from words_at_bytes [OF this] have words: "words_at m ?l1 (Suc (length bs)) = bs @ [0]" using sf(6) by simp
  have w0: "word_at m ?l1 = bs ! 0" using arg_cong [OF words, of "\<lambda>xs. xs ! 0"] sf(4) by (simp add: nth_append)
  define lf where "lf = (private_data fn)\<lparr>fnode_index := idx, file_nr := sint (en_file_nr ?en), data_block := en_data_block ?en, pos_in_lvl0 := 0,
    pos_in_lvl1 := 0, block_count := en_block_nr ?en, lm_bitmap := (if en_type ?en = 6 then None else Some 0),
    lvl0 := Some (if en_type ?en = 6 then 0 else 32), lm_current_block := bs ! 0\<rparr>"
  define fn' where "fn' = fn\<lparr>fn_mode := ucast (en_mode ?en), fn_flags := en_flag ?en, fn_type := ucast (en_type ?en), atime := 0, mtime := 0, ctime := 0,
    blk_cnt := sint (en_block_nr ?en), fnode_size := 512, fn_state := 0, data_size := sint (en_size ?en),
    buffer_size := 4096, psize := 292, private_data := lf\<rparr>"
  have "lmfs_fill_fnode fn idx st = Some (0, fn', set_fmem m st)"
    using m1(1) en m(1) less_imp_neq [OF sf(1)] w0
    by (simp add: lmfs_fill_fnode_def fnode_location_def Let_def init_data_block_info_def first_table_def fn'_def lf_def)
  moreover have "lmfs_repr base fn' (set_fmem m st) bs 0 (map (disk_block base (fmem st)) bs) F"
    using d sf words F b blks by (simp add: lmfs_repr_def fn'_def lf_def buffers_ok_def)
  ultimately show ?thesis using same by (auto simp: filled_def fn'_def lf_def)
qed

section \<open>Directories\<close>

text \<open>The names in a block of a directory, and the first entry with a name.\<close>

definition slot_name :: "u8 list \<Rightarrow> nat \<Rightarrow> u8 list" where
  "slot_name d k = takeWhile (\<lambda>c. c \<noteq> 0) (drop (256 * k) d)"

definition slots_ok :: "u8 list \<Rightarrow> bool" where
  "slots_ok d \<longleftrightarrow> length d = 4096 \<and> (\<forall>k < 16. length (slot_name d k) < 248)"

definition dir_find :: "u8 list \<Rightarrow> u8 list \<Rightarrow> nat option" where
  "dir_find d nm = List.find (\<lambda>k. slot_name d k = nm) [0..<16]"

lemma bytes_at_take: "l \<le> n \<Longrightarrow> bytes_at m p l = take l (bytes_at m p n)"
  by (intro nth_equalityI) simp_all

lemma bytes_at_drop: "k \<le> n \<Longrightarrow> bytes_at m (p + word_of_nat k) (n - k) = drop k (bytes_at m p n)"
  by (intro nth_equalityI) (simp_all add: add.assoc)

lemma take_takeWhile:
  assumes "length (takeWhile P xs) < length xs"
  shows "take (Suc (length (takeWhile P xs))) xs = takeWhile P xs @ [xs ! length (takeWhile P xs)]"
  using assms by (simp add: take_Suc_conv_app_nth takeWhile_eq_take [symmetric])

lemma slot_nonzero: "0 \<notin> set (slot_name d k)"
  unfolding slot_name_def by (metis (mono_tags, lifting) set_takeWhileD)

lemma slot_str_at:
  assumes "slots_ok d" "bytes_at m buf 4096 = d" "k < 16"
  shows "str_at m (buf + word_of_nat (256 * k)) (slot_name d k)"
proof -
  let ?xs = "drop (256 * k) d" and ?nm = "slot_name d k"
  have len: "length ?nm < length ?xs" using assms(1,3) by (auto simp: slots_ok_def)
  have "bytes_at m (buf + word_of_nat (256 * k)) (Suc (length ?nm)) = take (Suc (length ?nm)) ?xs"
  proof -
    have "bytes_at m (buf + word_of_nat (256 * k)) (4096 - 256 * k) = ?xs" using bytes_at_drop [of "256 * k" 4096 m buf] assms by simp
    then show ?thesis using bytes_at_take [of "Suc (length ?nm)" "4096 - 256 * k"] len assms(1) by (simp add: slots_ok_def)
  qed
  moreover have "?xs ! length ?nm = 0" using nth_length_takeWhile [of "\<lambda>c. c \<noteq> 0" ?xs] len by (simp add: slot_name_def)
  ultimately show ?thesis using take_takeWhile [of "\<lambda>c. c \<noteq> 0" ?xs] len slot_nonzero [of d k] by (simp add: str_at_iff slot_name_def)
qed

lemma dir_search_slots:
  assumes "slots_ok d" "bytes_at m buf 4096 = d" "str_at m name nm" "k + n \<le> 16"
  shows "dir_search m name (buf + word_of_nat (256 * k)) n
    = Some (map_option (\<lambda>j. buf + word_of_nat (256 * j)) (List.find (\<lambda>j. slot_name d j = nm) [k..<k + n]))"
  using assms(4)
proof (induction n arbitrary: k)
  case (Suc n)
  obtain r where r: "strcmp m name (buf + word_of_nat (256 * k)) = Some r" "r = 0 \<longleftrightarrow> nm = slot_name d k"
    using strcmp_str [OF assms(3) slot_str_at [OF assms(1,2)], of k] Suc by auto
  have "buf + word_of_nat (256 * k) + 256 = buf + word_of_nat (256 * Suc k)" by (simp add: algebra_simps)
  moreover have "[k..<k + Suc n] = k # [Suc k..<Suc k + n]" by (simp add: upt_rec)
  ultimately show ?case using r Suc.IH [of "Suc k"] Suc.prems by (auto simp: add_ac simp del: of_nat_mult upt_Suc)
qed simp

lemma dir_search_block:
  assumes "slots_ok d" "bytes_at m buf 4096 = d" "str_at m name nm"
  shows "dir_search m name buf 16 = Some (map_option (\<lambda>j. buf + word_of_nat (256 * j)) (dir_find d nm))"
  using dir_search_slots [OF assms, of 0 16] by (simp add: dir_find_def)

lemma dir_find_less: "dir_find d nm = Some k \<Longrightarrow> k < 16 \<and> slot_name d k = nm"
  by (auto simp: dir_find_def find_Some_iff)

section \<open>Lookup\<close>

text \<open>A directory that is open and a name in memory that the calls below do not overwrite.\<close>

definition dir_ok :: "addr \<Rightarrow> lmfs_fnode fnode \<Rightarrow> lmfs_state \<Rightarrow> u32 list \<Rightarrow> nat \<Rightarrow> u8 list list \<Rightarrow> addr set \<Rightarrow> addr \<Rightarrow> u8 list \<Rightarrow> bool" where
  "dir_ok base fn st bs i D F name nm \<longleftrightarrow> lmfs_repr base fn st bs i D F \<and> region (data_buffer fn) 4096 \<subseteq> F \<and> buffers_ok base fn
     \<and> str_at (fmem st) name nm \<and> region name (Suc (length nm)) \<inter> region (data_buffer fn) 4096 = {}
     \<and> (\<forall>d \<in> set D. slots_ok d)"

lemma dir_block_loaded:
  assumes "dir_ok base fn st bs i D F name nm" "i < length bs"
  shows "\<exists>m. lmfs_read_block (fn_sb fn) (data_buffer fn) (bs ! i) st = Some (0, set_fmem m st) \<and> dir_ok base fn (set_fmem m st) bs i D F name nm
    \<and> same_outside (region (data_buffer fn) 4096) (fmem st) m \<and> bytes_at m (data_buffer fn) 4096 = D ! i
    \<and> dir_search m name (data_buffer fn) 16 = Some (map_option (\<lambda>j. data_buffer fn + word_of_nat (256 * j)) (dir_find (D ! i) nm))"
proof -
  have d: "lmfs_repr base fn st bs i D F" "region (data_buffer fn) 4096 \<subseteq> F" "str_at (fmem st) name nm"
    "region (data_buffer fn) 4096 \<inter> region name (Suc (length nm)) = {}" "\<forall>d \<in> set D. slots_ok d"
    using assms(1) by (auto simp: dir_ok_def)
  obtain m where m: "lmfs_read_block (fn_sb fn) (data_buffer fn) (bs ! i) st = Some (0, set_fmem m st)"
    "bytes_at m (data_buffer fn) 4096 = D ! i" "same_outside (region (data_buffer fn) 4096) (fmem st) m"
    using lmfs_read_data [OF d(1) assms(2) d(2)] by blast
  have s: "str_at m name nm" using str_at_outside [OF m(3) d(4)] d(3) by simp
  have "lmfs_repr base fn (set_fmem m st) bs i D F" by (rule lm.repr_frame [OF d(1) same_outside_mono [OF m(3) d(2)]])
  then have "dir_ok base fn (set_fmem m st) bs i D F name nm" using assms(1) s by (simp add: dir_ok_def)
  moreover have "i < length D" using lm.repr_blocks [OF d(1)] assms(2) by simp
  then have "slots_ok (D ! i)" using d(5) by simp
  from dir_search_block [OF this m(2) s]
  have "dir_search m name (data_buffer fn) 16 = Some (map_option (\<lambda>j. data_buffer fn + word_of_nat (256 * j)) (dir_find (D ! i) nm))" .
  ultimately show ?thesis using m by blast
qed

text \<open>A file that the search finds in block \<open>j\<close> of the directory, in entry \<open>k\<close>.\<close>

definition dir_hit :: "u8 list list \<Rightarrow> u8 list \<Rightarrow> nat \<Rightarrow> nat \<Rightarrow> nat \<Rightarrow> bool" where
  "dir_hit D nm i j k \<longleftrightarrow> i \<le> j \<and> j < length D \<and> dir_find (D ! j) nm = Some k \<and> (\<forall>x. i \<le> x \<and> x < j \<longrightarrow> dir_find (D ! x) nm = None)"

definition entry_fnode :: "addr \<Rightarrow> byte_mem \<Rightarrow> u32 \<Rightarrow> nat \<Rightarrow> u32" where
  "entry_fnode base m b k = word_at m (base + 4096 * b + word_of_nat (256 * k + 252))"

lemma lmfs_sel: "read_block (fops lmfs) = lmfs_read_block" "find_file (fops lmfs) = lmfs_find_file"
  "get_data_block (fops lmfs) = lmfs_get_data_block" "parse_name (fops lmfs) = None" "op_copy_fnode (fops lmfs) = Some lmfs_copy_fnode"
  "write_block (fops lmfs) = lmfs_write_block" "fs_flag lmfs = 3"
  by (simp_all add: lmfs_def lmfs_ops_def)

lemma dir_next:
  assumes "dir_ok base fn st bs i D F name nm" "Suc i < length bs"
  shows "\<exists>p. lmfs_get_data_block fn VFS_NEXT_BLOCK st = Some (bs ! Suc i, fn\<lparr>private_data := p\<rparr>, st)
    \<and> dir_ok base (fn\<lparr>private_data := p\<rparr>) st bs (Suc i) D F name nm \<and> lvl1 p = lvl1 (private_data fn)"
proof -
  let ?p = "(private_data fn)\<lparr>pos_in_lvl1 := int (Suc i), lm_current_block := bs ! Suc i\<rparr>"
  have r: "lmfs_repr base fn st bs i D F" using assms(1) by (simp add: dir_ok_def)
  then have "lmfs_repr base (fn\<lparr>private_data := ?p\<rparr>) st bs (Suc i) D F" using assms(2) by (simp add: lmfs_repr_def Let_def)
  then show ?thesis using lmfs_next [OF r] assms by (intro exI [of _ ?p]) (simp add: dir_ok_def buffers_ok_def nth_append)
qed

lemma find_file_hit:
  assumes d: "dir_ok base fn st bs i D F name nm" and i: "i < length bs" and k: "dir_find (D ! i) nm = Some k"
    and f: "stored_file base (fmem st) (fnode_start_block (lsb (fn_sb fn) st)) (entry_fnode base (fmem st) (bs ! i) k) fbs"
    and loaded: "bytes_at (fmem st) (data_buffer fn) 4096 = D ! i"
    "dir_search (fmem st) name (data_buffer fn) 16 = Some (map_option (\<lambda>j. data_buffer fn + word_of_nat (256 * j)) (dir_find (D ! i) nm))"
  shows "\<exists>fn' m. lmfs_find_file name fn (data_buffer fn) st = Some (0, fn', set_fmem m st)
    \<and> lmfs_repr base fn' (set_fmem m st) fbs 0 (map (disk_block base (fmem st)) fbs) F
    \<and> filled fn (stored_entry base (fmem st) (fnode_start_block (lsb (fn_sb fn) st)) (entry_fnode base (fmem st) (bs ! i) k)) fn'
    \<and> same_outside (region (data_buffer fn) 4096 \<union> region (lvl1 (private_data fn)) 4096) (fmem st) m"
proof -
  let ?e = "data_buffer fn + word_of_nat (256 * k)"
  have r: "lmfs_repr base fn st bs i D F" "buffers_ok base fn" using d by (simp_all add: dir_ok_def)
  have l: "lmfs_disk base (fn_sb fn) st" "F \<inter> region (lvl1 (private_data fn)) 4096 = {}" "F \<inter> ramdisk base = {}"
    using r(1) by (simp_all add: lmfs_repr_def Let_def)
  have "D ! i = disk_block base (fmem st) (bs ! i)" by (rule lmfs_repr_block(2) [OF r(1) i])
  with loaded(1) have same: "bytes_at (fmem st) (data_buffer fn) 4096 = bytes_at (fmem st) (base + 4096 * bs ! i) 4096" by simp
  have "k < 16" using dir_find_less [OF k] by simp
  then have "256 * k + 252 + 4 \<le> 4096" by simp
  from word_at_cong [OF bytes_at_part [OF same this]]
  have "word_at (fmem st) (?e + 252) = entry_fnode base (fmem st) (bs ! i) k" by (simp add: entry_fnode_def add.assoc)
  then have "lmfs_find_file name fn (data_buffer fn) st = lmfs_fill_fnode fn (entry_fnode base (fmem st) (bs ! i) k) st"
    using loaded(2) k by (simp add: lmfs_find_file_def)
  then show ?thesis using fill_fnode_repr [OF l(1) f r(2) l(2,3)] by simp
qed

lemma disk_block_frame:
  assumes "same_outside A m m'" "A \<inter> ramdisk base = {}" "b < 256"
  shows "disk_block base m' b = disk_block base m b"
  by (rule bytes_at_outside [OF assms(1)]) (use assms(2) block_region [OF assms(3)] in blast)

lemma entry_fnode_frame:
  assumes "same_outside A m m'" "A \<inter> ramdisk base = {}" "b < 256" "k < 16"
  shows "entry_fnode base m' b k = entry_fnode base m b k"
  unfolding entry_fnode_def
  by (rule word_at_cong) (use bytes_at_part [OF disk_block_frame [OF assms(1-3)], of "256 * k + 252" 4] assms(4) in simp)

lemma stored_file_frame:
  assumes "same_outside A m m'" "A \<inter> ramdisk base = {}"
  shows "stored_file base m' start idx bs = stored_file base m start idx bs"
proof (cases "idx div 8 + start < 256")
  case True
  let ?t = "first_table (stored_entry base m start idx)"
  have e: "stored_entry base m' start idx = stored_entry base m start idx" by (rule stored_entry_frame [OF assms True])
  have "words_at m' (base + 4096 * ?t) (Suc (length bs)) = words_at m (base + 4096 * ?t) (Suc (length bs))" if "?t < 256" "length bs < 1024"
    using words_at_bytes [OF bytes_at_part [OF disk_block_frame [OF assms that(1)], of 0 "4 * Suc (length bs)"]] that(2) by simp
  then show ?thesis using e by (auto simp: stored_file_def Let_def)
qed (simp add: stored_file_def Let_def)

text \<open>What a lookup in the directory gives: an fnode for the file the entry names.\<close>

definition found_file :: "addr \<Rightarrow> lmfs_fnode fnode \<Rightarrow> lmfs_state \<Rightarrow> u32 \<Rightarrow> u32 list \<Rightarrow> addr set \<Rightarrow> lmfs_fnode fnode \<Rightarrow> byte_mem \<Rightarrow> bool" where
  "found_file base fn st idx fbs F fn' m \<longleftrightarrow> lmfs_repr base fn' (set_fmem m st) fbs 0 (map (disk_block base (fmem st)) fbs) F
     \<and> filled fn (stored_entry base (fmem st) (fnode_start_block (lsb (fn_sb fn) st)) idx) fn'
     \<and> same_outside (region (data_buffer fn) 4096 \<union> region (lvl1 (private_data fn)) 4096) (fmem st) m"

lemma found_file_frame:
  assumes f: "found_file base fn (set_fmem m st) idx fbs F fn' m'" and s: "same_outside (region (data_buffer fn) 4096) (fmem st) m"
    and b: "buffers_ok base fn" and sf: "stored_file base (fmem st) (fnode_start_block (lsb (fn_sb fn) st)) idx fbs"
  shows "found_file base fn st idx fbs F fn' m'"
proof -
  let ?start = "fnode_start_block (lsb (fn_sb fn) st)"
  have off: "region (data_buffer fn) 4096 \<inter> ramdisk base = {}" using b by (simp add: buffers_ok_def)
  have i: "idx div 8 + ?start < 256" "\<forall>x \<in> set fbs. x < 256" using sf by (auto simp: stored_file_def Let_def)
  have "map (disk_block base m) fbs = map (disk_block base (fmem st)) fbs"
    by (rule map_cong [OF refl], rule disk_block_frame [OF s off]) (use i(2) in simp)
  moreover have "stored_entry base m ?start idx = stored_entry base (fmem st) ?start idx" by (rule stored_entry_frame [OF s off i(1)])
  moreover have "same_outside (region (data_buffer fn) 4096 \<union> region (lvl1 (private_data fn)) 4096) (fmem st) m'"
    using same_outside_trans [OF s] f by (fastforce simp: found_file_def Un_assoc [symmetric])
  ultimately show ?thesis using f by (simp add: found_file_def del: map_eq_conv)
qed

lemma found_file_position:
  assumes "found_file base (fn\<lparr>private_data := p\<rparr>) st idx fbs F fn' m" "lvl1 p = lvl1 (private_data fn)"
  shows "found_file base fn st idx fbs F fn' m"
  using assms by (simp add: found_file_def filled_def)

definition type_ok :: "lmfs_fnode_entry \<Rightarrow> u8 \<Rightarrow> bool" where
  "type_ok en type \<longleftrightarrow> ucast (en_type en) AND type = (ucast (en_type en) :: u8)"

lemma search_dir_hit:
  assumes "dir_ok base fn st bs i D F name nm" "dir_hit D nm i j k"
    and "stored_file base (fmem st) (fnode_start_block (lsb (fn_sb fn) st)) (entry_fnode base (fmem st) (bs ! j) k) fbs"
    and "type_ok (stored_entry base (fmem st) (fnode_start_block (lsb (fn_sb fn) st)) (entry_fnode base (fmem st) (bs ! j) k)) type"
  shows "\<exists>fn' m. search_dir lmfs (fn_sb fn) name (data_buffer fn) type (bs ! i) fn st = Some (0, True, fn', set_fmem m st)
    \<and> found_file base fn st (entry_fnode base (fmem st) (bs ! j) k) fbs F fn' m"
  using assms
proof (induction "j - i" arbitrary: i fn st)
  case 0
  let ?idx = "entry_fnode base (fmem st) (bs ! j) k" and ?start = "fnode_start_block (lsb (fn_sb fn) st)"
  have r: "lmfs_repr base fn st bs i D F" "buffers_ok base fn" using 0(2) by (simp_all add: dir_ok_def)
  have j: "i = j" "i < length bs" "dir_find (D ! i) nm = Some k" "bs ! i < 256"
    using 0(1,3) lm.repr_blocks [OF r(1)] lmfs_repr_block(1) [OF r(1), of i] by (auto simp: dir_hit_def)
  obtain m where m: "lmfs_read_block (fn_sb fn) (data_buffer fn) (bs ! i) st = Some (0, set_fmem m st)" "dir_ok base fn (set_fmem m st) bs i D F name nm"
    "same_outside (region (data_buffer fn) 4096) (fmem st) m" "bytes_at m (data_buffer fn) 4096 = D ! i"
    "dir_search m name (data_buffer fn) 16 = Some (map_option (\<lambda>j. data_buffer fn + word_of_nat (256 * j)) (dir_find (D ! i) nm))"
    using dir_block_loaded [OF 0(2) j(2)] by blast
  have off: "region (data_buffer fn) 4096 \<inter> ramdisk base = {}" using r(2) by (simp add: buffers_ok_def)
  have idx: "entry_fnode base m (bs ! i) k = ?idx" using entry_fnode_frame [OF m(3) off j(4)] dir_find_less [OF j(3)] j(1) by simp
  obtain fn' m' where f: "lmfs_find_file name fn (data_buffer fn) (set_fmem m st) = Some (0, fn', set_fmem m' st)"
    "found_file base fn (set_fmem m st) ?idx fbs F fn' m'"
    using find_file_hit [OF m(2) j(2,3), of fbs] stored_file_frame [OF m(3) off] 0(4) idx m(4,5) by (auto simp: found_file_def)
  have ff: "found_file base fn st ?idx fbs F fn' m'" by (rule found_file_frame [OF f(2) m(3) r(2) 0(4)])
  then have "fn_type fn' = ucast (en_type (stored_entry base (fmem st) ?start ?idx))" by (simp add: found_file_def filled_def)
  then show ?case using m(1) f(1) ff 0(5) by (intro exI [of _ fn'] exI [of _ m'], subst search_dir.simps) (simp add: lmfs_sel type_ok_def)
next
  case (Suc x)
  let ?idx = "entry_fnode base (fmem st) (bs ! j) k" and ?start = "fnode_start_block (lsb (fn_sb fn) st)"
  have r: "lmfs_repr base fn st bs i D F" "buffers_ok base fn" using Suc(3) by (simp_all add: dir_ok_def)
  have len: "length D = length bs" using lm.repr_blocks [OF r(1)] by simp
  have j: "i < j" "j < length bs" "dir_find (D ! i) nm = None" "dir_hit D nm (Suc i) j k" "k < 16" "i < length bs" "Suc i < length bs" "bs ! j < 256"
    using Suc(2,4) len lmfs_repr_block(1) [OF r(1), of j] dir_find_less [of "D ! j"] by (auto simp: dir_hit_def)
  obtain m where m: "lmfs_read_block (fn_sb fn) (data_buffer fn) (bs ! i) st = Some (0, set_fmem m st)" "dir_ok base fn (set_fmem m st) bs i D F name nm"
    "same_outside (region (data_buffer fn) 4096) (fmem st) m"
    "dir_search m name (data_buffer fn) 16 = Some (map_option (\<lambda>j. data_buffer fn + word_of_nat (256 * j)) (dir_find (D ! i) nm))"
    using dir_block_loaded [OF Suc(3) j(6)] by blast
  have off: "region (data_buffer fn) 4096 \<inter> ramdisk base = {}" using r(2) by (simp add: buffers_ok_def)
  have idx: "entry_fnode base m (bs ! j) k = ?idx" by (rule entry_fnode_frame [OF m(3) off j(8,5)])
  have "?idx div 8 + ?start < 256" using Suc(5) by (simp add: stored_file_def Let_def)
  from stored_entry_frame [OF m(3) off this] have en: "stored_entry base m ?start ?idx = stored_entry base (fmem st) ?start ?idx" .
  obtain p where p: "lmfs_get_data_block fn VFS_NEXT_BLOCK (set_fmem m st) = Some (bs ! Suc i, fn\<lparr>private_data := p\<rparr>, set_fmem m st)"
    "dir_ok base (fn\<lparr>private_data := p\<rparr>) (set_fmem m st) bs (Suc i) D F name nm" "lvl1 p = lvl1 (private_data fn)" using dir_next [OF m(2) j(7)] by blast
  have "x = j - Suc i" using Suc(2) by simp
  from Suc(1) [OF this p(2) j(4)] obtain fn' m' where
    s: "search_dir lmfs (fn_sb fn) name (data_buffer fn) type (bs ! Suc i) (fn\<lparr>private_data := p\<rparr>) (set_fmem m st) = Some (0, True, fn', set_fmem m' st)"
    "found_file base (fn\<lparr>private_data := p\<rparr>) (set_fmem m st) ?idx fbs F fn' m'"
    using Suc(5,6) stored_file_frame [OF m(3) off] en by (auto simp: idx)
  have ff: "found_file base fn st ?idx fbs F fn' m'"
    by (rule found_file_frame [OF found_file_position [OF s(2) p(3)] m(3) r(2) Suc(5)])
  have "bs ! Suc i \<noteq> 0" by (rule lm.nth_block [OF r(1) j(7)])
  moreover have "lmfs_find_file name fn (data_buffer fn) (set_fmem m st) = Some (- ENOENT, fn, set_fmem m st)"
    using m(4) j(3) by (simp add: lmfs_find_file_def)
  ultimately show ?case using m(1) p(1) s(1) ff by (intro exI [of _ fn'] exI [of _ m'], subst search_dir.simps) (simp add: lmfs_sel)
qed

lemma search_dir_miss:
  assumes "dir_ok base fn st bs i D F name nm" "\<forall>x. i \<le> x \<and> x < length D \<longrightarrow> dir_find (D ! x) nm = None"
  shows "\<exists>p m. search_dir lmfs (fn_sb fn) name (data_buffer fn) type (bs ! i) fn st = Some (0, False, fn\<lparr>private_data := p\<rparr>, set_fmem m st)
    \<and> same_outside (region (data_buffer fn) 4096) (fmem st) m"
  using assms
proof (induction "length bs - i" arbitrary: i fn st)
  case 0
  then show ?case using lm.repr_blocks [of base fn st bs i D F] by (simp add: dir_ok_def)
next
  case (Suc x)
  have r: "lmfs_repr base fn st bs i D F" using Suc(3) by (simp add: dir_ok_def)
  have i: "i < length bs" "length D = length bs" using lm.repr_blocks [OF r] by auto
  obtain m where m: "lmfs_read_block (fn_sb fn) (data_buffer fn) (bs ! i) st = Some (0, set_fmem m st)" "dir_ok base fn (set_fmem m st) bs i D F name nm"
    "same_outside (region (data_buffer fn) 4096) (fmem st) m"
    "dir_search m name (data_buffer fn) 16 = Some (map_option (\<lambda>j. data_buffer fn + word_of_nat (256 * j)) (dir_find (D ! i) nm))"
    using dir_block_loaded [OF Suc(3) i(1)] by blast
  have miss: "lmfs_find_file name fn (data_buffer fn) (set_fmem m st) = Some (- ENOENT, fn, set_fmem m st)"
    using m(4) Suc(4) i by (simp add: lmfs_find_file_def)
  show ?case
  proof (cases "Suc i < length bs")
    case False
    then have "Suc i = length bs" using i(1) by simp
    then have "\<exists>p. lmfs_get_data_block fn VFS_NEXT_BLOCK (set_fmem m st) = Some (0, fn\<lparr>private_data := p\<rparr>, set_fmem m st)"
      using lm.no_next_block [of base fn "set_fmem m st"] m(2) by (auto simp: dir_ok_def lmfs_sel)
    then obtain p where p: "lmfs_get_data_block fn VFS_NEXT_BLOCK (set_fmem m st) = Some (0, fn\<lparr>private_data := p\<rparr>, set_fmem m st)" by blast
    then show ?thesis using m(1,3) miss by (intro exI [of _ p] exI [of _ m], subst search_dir.simps) (simp add: lmfs_sel)
  next
    case True
    obtain p where p: "lmfs_get_data_block fn VFS_NEXT_BLOCK (set_fmem m st) = Some (bs ! Suc i, fn\<lparr>private_data := p\<rparr>, set_fmem m st)"
      "dir_ok base (fn\<lparr>private_data := p\<rparr>) (set_fmem m st) bs (Suc i) D F name nm" using dir_next [OF m(2) True] by blast
    have "x = length bs - Suc i" using Suc(2) by simp
    from Suc(1) [OF this p(2)] Suc(4) obtain p' m' where
      s: "search_dir lmfs (fn_sb fn) name (data_buffer fn) type (bs ! Suc i) (fn\<lparr>private_data := p\<rparr>) (set_fmem m st)
          = Some (0, False, fn\<lparr>private_data := p'\<rparr>, set_fmem m' st)" "same_outside (region (data_buffer fn) 4096) m m'" by auto
    have "same_outside (region (data_buffer fn) 4096) (fmem st) m'" using same_outside_trans [OF m(3) s(2)] by simp
    moreover have "bs ! Suc i \<noteq> 0" by (rule lm.nth_block [OF r True])
    ultimately show ?thesis using m(1) p(1) s(1) miss
      by (intro exI [of _ p'] exI [of _ m'], subst search_dir.simps) (simp add: lmfs_sel)
  qed
qed

section \<open>Paths\<close>

lemma find_file_name_last:
  assumes "str_at (fmem st) p nm" "nm \<noteq> []" "SLASH \<notin> set nm" "length nm < 2 ^ 31" "p \<noteq> 0" "t \<noteq> 0"
    and "region t (Suc (length nm)) \<inter> region p (Suc (length nm)) = {}"
  shows "\<exists>m. find_file_name p t st = Some (p + word_of_nat (length nm), set_fmem m st) \<and> str_at m t nm
    \<and> same_outside (region t (Suc (length nm))) (fmem st) m"
proof -
  obtain m where m: "strcpy (fmem st) t p = Some (t, m)" "str_at m t nm" "same_outside (region t (Suc (length nm))) (fmem st) m"
    using strcpy_str [OF assms(1,4,6,5,7)] by blast
  have "str_at m p nm" using str_at_outside [OF m(3) assms(7)] assms(1) by simp
  then have "strlen m p = Some (int (length nm))" using strlen_str assms(5) by simp
  moreover have "strchr (fmem st) p SLASH = Some 0" using strchr_absent [OF assms(1,3)] by simp
  moreover have "fmem st p \<noteq> 0" using assms(1,2) by (cases nm) auto
  ultimately show ?thesis using m assms(5,6) by (intro exI [of _ m]) (simp add: find_file_name_def)
qed

lemma find_file_name_comp:
  assumes s: "str_at (fmem st) p (nm @ SLASH # rest)" and nm: "SLASH \<notin> set nm" "length nm < 2 ^ 31" and z: "t \<noteq> 0" "0 \<notin> region p (Suc (length nm))"
    and a: "region t (Suc (length nm)) \<inter> region p (Suc (length nm)) = {}"
  shows "\<exists>m. find_file_name p t st = Some (p + word_of_nat (Suc (length nm)), set_fmem m st) \<and> str_at m t nm
    \<and> same_outside (region t (Suc (length nm))) (fmem st) m"
proof -
  let ?n = "length nm"
  have pn: "p + word_of_nat ?n \<in> region p (Suc ?n)" "p + word_of_nat 0 \<in> region p (Suc ?n)" unfolding region_def by (rule imageI; simp)+
  then have p: "p \<noteq> 0" "p + word_of_nat ?n \<noteq> 0" using z(2) by auto
  have b: "bytes_at (fmem st) p ?n = nm" "0 \<notin> set nm" using s by (simp_all add: str_at_append)
  have sub: "region t ?n \<inter> region p ?n = {}" using a region_mono [of ?n "Suc ?n" t] region_mono [of ?n "Suc ?n" p] by auto
  define m where "m = put_bytes (fmem st) t (nm @ [0])"
  have "snd (strncpy (fmem st) t p (int ?n)) = put_bytes (fmem st) t nm" by (rule strncpy_bytes [OF nm(2) z(1) p(1) b(1) sub])
  moreover have "sint (word_of_nat ?n :: addr) = int ?n" using sint_word_of_int_u32 [of "int ?n"] nm(2) by simp
  moreover have "(put_bytes (fmem st) t nm)(t + word_of_nat ?n := 0) = m" by (simp add: m_def put_bytes_append)
  moreover have "strchr (fmem st) p SLASH = Some (p + word_of_nat ?n)" by (rule strchr_first [OF s nm(1)])
  moreover have "fmem st p \<noteq> 0" using s by (cases nm) auto
  ultimately have "find_file_name p t st = Some (p + word_of_nat (Suc ?n), set_fmem m st)"
    using p z(1) by (simp add: find_file_name_def case_prod_beta Let_def algebra_simps)
  moreover have "str_at m t nm" using put_bytes_str_at [of nm "fmem st" t] b(2) nm(2) by (simp add: m_def)
  moreover have "same_outside (region t (Suc ?n)) (fmem st) m" using put_bytes_outside [of t "nm @ [0]" "fmem st"] by (simp add: m_def)
  ultimately show ?thesis by blast
qed

text \<open>
  The tree on the disk: \<open>path_to\<close> follows the names from a directory, given by its blocks,
  to a file, given by the number of its fnode and its blocks.
\<close>

definition dir_step :: "addr \<Rightarrow> byte_mem \<Rightarrow> u32 list \<Rightarrow> u8 list \<Rightarrow> u32 \<Rightarrow> bool" where
  "dir_step base m bs nm idx \<longleftrightarrow> (\<forall>b \<in> set bs. slots_ok (disk_block base m b)) \<and> nm \<noteq> [] \<and> SLASH \<notin> set nm \<and> length nm < 512
     \<and> (\<exists>j k. dir_hit (map (disk_block base m) bs) nm 0 j k \<and> idx = entry_fnode base m (bs ! j) k)"

inductive path_to :: "addr \<Rightarrow> byte_mem \<Rightarrow> u32 \<Rightarrow> u8 \<Rightarrow> u32 list \<Rightarrow> u8 list list \<Rightarrow> u32 \<Rightarrow> u32 list \<Rightarrow> bool"
  for base :: addr and m :: byte_mem and start :: u32 and type :: u8 where
  last: "dir_step base m bs nm idx \<Longrightarrow> stored_file base m start idx fbs \<Longrightarrow> type_ok (stored_entry base m start idx) type
    \<Longrightarrow> path_to base m start type bs [nm] idx fbs"
| sub: "dir_step base m bs nm idx \<Longrightarrow> stored_file base m start idx dbs \<Longrightarrow> type_ok (stored_entry base m start idx) DT_DIR
    \<Longrightarrow> path_to base m start type dbs nms idx' fbs \<Longrightarrow> path_to base m start type bs (nm # nms) idx' fbs"

fun path_string :: "u8 list list \<Rightarrow> u8 list" where
  "path_string [] = []"
| "path_string [nm] = nm"
| "path_string (nm # nms) = nm @ SLASH # path_string nms"

text \<open>The state of the walk: the directory is open, the rest of the path and the name buffer are in memory that lmfs does not use.\<close>

definition walk_ok :: "addr \<Rightarrow> byte_mem \<Rightarrow> lmfs_fnode fnode \<Rightarrow> lmfs_state \<Rightarrow> u32 list \<Rightarrow> addr set \<Rightarrow> addr \<Rightarrow> u8 list \<Rightarrow> addr \<Rightarrow> bool" where
  "walk_ok base m0 fn st bs F name s tname \<longleftrightarrow>
     lmfs_repr base fn st bs 0 (map (disk_block base m0) bs) F \<and> region (data_buffer fn) 4096 \<subseteq> F \<and> buffers_ok base fn
     \<and> same_outside (- ramdisk base) m0 (fmem st) \<and> str_at (fmem st) name s \<and> length s < 2 ^ 31
     \<and> region name (Suc (length s)) \<subseteq> F - region (data_buffer fn) 4096 - region tname 512
     \<and> region tname 512 \<subseteq> F - region (data_buffer fn) 4096 \<and> 0 \<notin> F"

lemma walk_search:
  assumes w: "walk_ok base m0 fn st bs F name s tname" and n: "str_at (fmem st) tname nm" and d: "dir_step base m0 bs nm idx"
    and f: "stored_file base m0 (fnode_start_block (lsb (fn_sb fn) st)) idx fbs"
    and t: "type_ok (stored_entry base m0 (fnode_start_block (lsb (fn_sb fn) st)) idx) type"
  shows "\<exists>fn' m. search_dir lmfs (fn_sb fn) tname (data_buffer fn) type (bs ! 0) fn st = Some (0, True, fn', set_fmem m st)
    \<and> walk_ok base m0 fn' (set_fmem m st) fbs F name s tname
    \<and> filled fn (stored_entry base m0 (fnode_start_block (lsb (fn_sb fn) st)) idx) fn'"
proof -
  let ?start = "fnode_start_block (lsb (fn_sb fn) st)" and ?D = "map (disk_block base m0) bs"
  have r: "lmfs_repr base fn st bs 0 ?D F" "buffers_ok base fn" "region (data_buffer fn) 4096 \<subseteq> F"
    and s0: "same_outside (- ramdisk base) m0 (fmem st)" and off: "- ramdisk base \<inter> ramdisk base = {}" using w by (auto simp: walk_ok_def)
  obtain j k where jk: "dir_hit ?D nm 0 j k" "idx = entry_fnode base m0 (bs ! j) k" using d by (auto simp: dir_step_def)
  have j: "j < length bs" "k < 16" using jk(1) dir_find_less by (auto simp: dir_hit_def)
  have idx: "entry_fnode base (fmem st) (bs ! j) k = idx" using entry_fnode_frame [OF s0 off lmfs_repr_block(1) [OF r(1) j(1)] j(2)] jk(2) by simp
  have en: "stored_entry base (fmem st) ?start idx = stored_entry base m0 ?start idx"
    by (rule stored_entry_frame [OF s0 off]) (use f in \<open>simp add: stored_file_def Let_def\<close>)
  have "region tname (Suc (length nm)) \<subseteq> region tname 512" using d by (intro region_mono) (simp add: dir_step_def)
  then have "dir_ok base fn st bs 0 ?D F tname nm" using w n d by (auto simp: dir_ok_def walk_ok_def dir_step_def)
  from search_dir_hit [OF this jk(1), of fbs type] obtain fn' m where
    s: "search_dir lmfs (fn_sb fn) tname (data_buffer fn) type (bs ! 0) fn st = Some (0, True, fn', set_fmem m st)"
      "found_file base fn st idx fbs F fn' m"
    using f t stored_file_frame [OF s0 off] en by (auto simp: idx)
  let ?A = "region (data_buffer fn) 4096 \<union> region (lvl1 (private_data fn)) 4096"
  have ff: "lmfs_repr base fn' (set_fmem m st) fbs 0 (map (disk_block base (fmem st)) fbs) F"
    "filled fn (stored_entry base m0 ?start idx) fn'" "same_outside ?A (fmem st) m" using s(2) en by (simp_all add: found_file_def)
  have fl: "data_buffer fn' = data_buffer fn" "lvl1 (private_data fn') = lvl1 (private_data fn)" using ff(2) by (simp_all add: filled_def)
  have blks: "map (disk_block base (fmem st)) fbs = map (disk_block base m0) fbs"
    by (rule map_cong [OF refl], rule disk_block_frame [OF s0 off]) (use f in \<open>simp add: stored_file_def Let_def\<close>)
  have A: "?A \<inter> ramdisk base = {}" "region (lvl1 (private_data fn)) 4096 \<inter> F = {}" using r by (auto simp: buffers_ok_def lmfs_repr_def Let_def)
  have "same_outside (- ramdisk base) m0 m" by (rule same_outside_mono [OF same_outside_trans [OF s0 ff(3)]]) (use A(1) in blast)
  moreover have "?A \<inter> region name (Suc (length s)) = {}" using w A(2) by (auto simp: walk_ok_def)
  from str_at_outside [OF ff(3) this] have "str_at m name s" using w by (simp add: walk_ok_def)
  moreover have "lmfs_repr base fn' (set_fmem m st) fbs 0 (map (disk_block base m0) fbs) F" using ff(1) by (simp only: blks)
  ultimately have "walk_ok base m0 fn' (set_fmem m st) fbs F name s tname"
    using w r(2) fl by (simp add: walk_ok_def buffers_ok_def)
  then show ?thesis using s(1) ff(2) by blast
qed

lemma walk_ok_rest:
  assumes w: "walk_ok base m0 fn st bs F name (xs @ ys) tname" and m: "same_outside (region tname 512) (fmem st) m"
  shows "walk_ok base m0 fn (set_fmem m st) bs F (name + word_of_nat (length xs)) ys tname"
proof -
  have F: "region tname 512 \<subseteq> F" "F \<inter> ramdisk base = {}" and r: "lmfs_repr base fn st bs 0 (map (disk_block base m0) bs) F"
    and s: "same_outside (- ramdisk base) m0 (fmem st)" using w by (auto simp: walk_ok_def lmfs_repr_def Let_def)
  have sub: "region (name + word_of_nat (length xs)) (Suc (length ys)) \<subseteq> region name (Suc (length (xs @ ys)))" by (rule region_part) simp
  have "same_outside (- ramdisk base) m0 m" by (rule same_outside_mono [OF same_outside_trans [OF s m]]) (use F in blast)
  moreover have "region tname 512 \<inter> region (name + word_of_nat (length xs)) (Suc (length ys)) = {}" using sub w by (auto simp: walk_ok_def)
  from str_at_outside [OF m this] have "str_at m (name + word_of_nat (length xs)) ys" using w by (simp add: walk_ok_def str_at_append)
  moreover have "lmfs_repr base fn (set_fmem m st) bs 0 (map (disk_block base m0) bs) F"
    by (rule lm.repr_frame [OF r same_outside_mono [OF m F(1)]])
  ultimately show ?thesis using w sub by (auto simp: walk_ok_def)
qed

lemma walk_name_last:
  assumes w: "walk_ok base m0 fn st bs F name nm tname" and nm: "nm \<noteq> []" "SLASH \<notin> set nm" "length nm < 512"
  shows "\<exists>m. find_file_name name tname st = Some (name + word_of_nat (length nm), set_fmem m st) \<and> str_at m tname nm
    \<and> walk_ok base m0 fn (set_fmem m st) bs F (name + word_of_nat (length nm)) [] tname"
proof -
  have reg: "region tname (Suc (length nm)) \<subseteq> region tname 512" by (rule region_mono) (use nm in simp)
  have "tname + word_of_nat 0 \<in> region tname 512" "name + word_of_nat 0 \<in> region name (Suc (length nm))"
    unfolding region_def by (rule imageI; simp)+
  then have z: "tname \<noteq> 0" "name \<noteq> 0" using w by (auto simp: walk_ok_def)
  have "region tname (Suc (length nm)) \<inter> region name (Suc (length nm)) = {}" using w reg by (auto simp: walk_ok_def)
  then obtain m where m: "find_file_name name tname st = Some (name + word_of_nat (length nm), set_fmem m st)" "str_at m tname nm"
    "same_outside (region tname (Suc (length nm))) (fmem st) m"
    using find_file_name_last [of st name nm tname] w nm z by (auto simp: walk_ok_def)
  then show ?thesis using walk_ok_rest [of base m0 fn st bs F name nm "[]"] same_outside_mono [OF m(3) reg] w by auto
qed

lemma walk_name_comp:
  assumes w: "walk_ok base m0 fn st bs F name (nm @ SLASH # rest) tname" and nm: "SLASH \<notin> set nm" "length nm < 512"
  shows "\<exists>m. find_file_name name tname st = Some (name + word_of_nat (Suc (length nm)), set_fmem m st) \<and> str_at m tname nm
    \<and> walk_ok base m0 fn (set_fmem m st) bs F (name + word_of_nat (Suc (length nm))) rest tname"
proof -
  have reg: "region tname (Suc (length nm)) \<subseteq> region tname 512" by (rule region_mono) (use nm in simp)
  have sub: "region name (Suc (length nm)) \<subseteq> region name (Suc (length (nm @ SLASH # rest)))" by (rule region_mono) simp
  have "tname + word_of_nat 0 \<in> region tname 512" unfolding region_def by (rule imageI) simp
  then have z: "tname \<noteq> 0" "0 \<notin> region name (Suc (length nm))" using w sub by (auto simp: walk_ok_def)
  have "region tname (Suc (length nm)) \<inter> region name (Suc (length nm)) = {}" using w reg sub by (auto simp: walk_ok_def)
  then obtain m where m: "find_file_name name tname st = Some (name + word_of_nat (Suc (length nm)), set_fmem m st)" "str_at m tname nm"
    "same_outside (region tname (Suc (length nm))) (fmem st) m"
    using find_file_name_comp [of st name nm rest tname] w nm z by (auto simp: walk_ok_def)
  then show ?thesis using walk_ok_rest [of base m0 fn st bs F name "nm @ [SLASH]" rest] same_outside_mono [OF m(3) reg] w by auto
qed

lemma walk_start:
  assumes "walk_ok base m0 fn st bs F name s tname"
  shows "lmfs_get_data_block fn VFS_START_BLOCK st = Some (bs ! 0, fn, st)" "bs ! 0 \<noteq> 0" "name \<noteq> 0"
proof -
  have r: "lmfs_repr base fn st bs 0 (map (disk_block base m0) bs) F" using assms by (simp add: walk_ok_def)
  show "lmfs_get_data_block fn VFS_START_BLOCK st = Some (bs ! 0, fn, st)" using lm.start_block [OF r] by (simp add: lmfs_sel)
  show "bs ! 0 \<noteq> 0" using lm.nth_block [OF r] lm.repr_blocks [OF r] by auto
  have "name + word_of_nat 0 \<in> region name (Suc (length s))" unfolding region_def by (rule imageI) simp
  then show "name \<noteq> 0" using assms by (auto simp: walk_ok_def)
qed

lemma filled_trans: "filled fn en fn' \<Longrightarrow> filled fn' en' fn'' \<Longrightarrow> filled fn en' fn''"
  by (simp add: filled_def)

lemma path_string_Cons: "nms \<noteq> [] \<Longrightarrow> path_string (nm # nms) = nm @ SLASH # path_string nms"
  by (cases nms) simp_all

lemma path_to_names: "path_to base m start type bs nms idx fbs \<Longrightarrow> nms \<noteq> [] \<and> hd nms \<noteq> []"
  by (induction rule: path_to.induct) (auto simp: dir_step_def)

lemma walk_path_resolves:
  assumes "path_to base m0 start (if flg AND O_DIRECTORY = O_DIRECTORY then DT_DIR else DT_ANY) bs nms idx fbs"
    and "walk_ok base m0 fn st bs F name (path_string nms) tname" "start = fnode_start_block (lsb (fn_sb fn) st)"
  shows "\<exists>fn' m. walk_path lmfs (fn_sb fn) (data_buffer fn) flg name found tname fn st = Some (0, False, 0, fn', set_fmem m st)
    \<and> lmfs_repr base fn' (set_fmem m st) fbs 0 (map (disk_block base m0) fbs) F \<and> filled fn (stored_entry base m0 start idx) fn'
    \<and> same_outside (- ramdisk base) m0 m"
  using assms
proof (induction arbitrary: fn st name found rule: path_to.induct)
  case (last bs nm idx fbs)
  have nm: "nm \<noteq> []" "SLASH \<notin> set nm" "length nm < 512" using last(1) by (auto simp: dir_step_def)
  obtain m where m: "find_file_name name tname st = Some (name + word_of_nat (length nm), set_fmem m st)" "str_at m tname nm"
    "walk_ok base m0 fn (set_fmem m st) bs F (name + word_of_nat (length nm)) [] tname"
    using walk_name_last [OF _ nm, of base m0 fn st bs F name tname] last(4) by auto
  obtain fn' m' where s: "search_dir lmfs (fn_sb fn) tname (data_buffer fn) (if flg AND O_DIRECTORY = O_DIRECTORY then DT_DIR else DT_ANY) (bs ! 0) fn (set_fmem m st)
      = Some (0, True, fn', set_fmem m' st)"
    "walk_ok base m0 fn' (set_fmem m' st) fbs F (name + word_of_nat (length nm)) [] tname" "filled fn (stored_entry base m0 start idx) fn'"
    using walk_search [OF m(3) _ last(1), of fbs "if flg AND O_DIRECTORY = O_DIRECTORY then DT_DIR else DT_ANY"] m(2) last(2,3,5) by (auto simp del: if_split)
  have z: "m (name + word_of_nat (length nm)) = 0" "m' (name + word_of_nat (length nm)) = 0" using m(3) s(2) by (simp_all add: walk_ok_def)
  have "find_file_name (name + word_of_nat (length nm)) tname (set_fmem m' st) = Some (0, set_fmem m' st)" using z by (simp add: find_file_name_def)
  then have "walk_path lmfs (fn_sb fn) (data_buffer fn) flg (name + word_of_nat (length nm)) True tname fn' (set_fmem m' st) = Some (0, False, 0, fn', set_fmem m' st)"
    by (subst walk_path.simps) simp
  then show ?case using m(1) walk_start [OF m(3)] z s
    by (intro exI [of _ fn'] exI [of _ m'], subst walk_path.simps) (simp add: lmfs_sel walk_ok_def)
next
  case (sub bs nm idx dbs nms idx' fbs)
  have nms: "nms \<noteq> []" "hd nms \<noteq> []" using path_to_names [OF sub(4)] by auto
  have nm: "SLASH \<notin> set nm" "length nm < 512" using sub(1) by (auto simp: dir_step_def)
  let ?name = "name + word_of_nat (Suc (length nm))"
  obtain m where m: "find_file_name name tname st = Some (?name, set_fmem m st)" "str_at m tname nm"
    "walk_ok base m0 fn (set_fmem m st) bs F ?name (path_string nms) tname"
    using walk_name_comp [OF _ nm, of base m0 fn st bs F name "path_string nms" tname] sub(6) path_string_Cons [OF nms(1), of nm] by auto
  obtain fn1 m1 where s: "search_dir lmfs (fn_sb fn) tname (data_buffer fn) DT_DIR (bs ! 0) fn (set_fmem m st) = Some (0, True, fn1, set_fmem m1 st)"
    "walk_ok base m0 fn1 (set_fmem m1 st) dbs F ?name (path_string nms) tname" "filled fn (stored_entry base m0 start idx) fn1"
    using walk_search [OF m(3) _ sub(1), of dbs DT_DIR] m(2) sub(2,3,7) by auto
  have f1: "fn_sb fn1 = fn_sb fn" "data_buffer fn1 = data_buffer fn" using s(3) by (simp_all add: filled_def)
  obtain fn' m' where w: "walk_path lmfs (fn_sb fn1) (data_buffer fn1) flg ?name True tname fn1 (set_fmem m1 st) = Some (0, False, 0, fn', set_fmem m' st)"
    "lmfs_repr base fn' (set_fmem m' st) fbs 0 (map (disk_block base m0) fbs) F" "filled fn1 (stored_entry base m0 start idx') fn'"
    "same_outside (- ramdisk base) m0 m'" using sub(5) [OF s(2), of True] sub(7) f1(1) by auto
  have "path_string nms = hd (hd nms) # tl (path_string nms)"
    using nms by (cases nms rule: path_string.cases) (auto simp: neq_Nil_conv)
  then have "m ?name \<noteq> 0" using m(3) by (metis str_at.simps(2) walk_ok_def set_fmem_simps(1))
  then show ?case using m(1) walk_start [OF m(3)] s w f1 filled_trans [OF s(3) w(3)]
    by (intro exI [of _ fn'] exI [of _ m'], subst walk_path.simps) (simp add: lmfs_sel)
qed

lemma walk_miss:
  assumes w: "walk_ok base m0 fn st bs F name [] tname" and n: "str_at (fmem st) tname nm" "length nm < 512"
    and d: "\<forall>b \<in> set bs. slots_ok (disk_block base m0 b) \<and> dir_find (disk_block base m0 b) nm = None"
  shows "\<exists>p m. search_dir lmfs (fn_sb fn) tname (data_buffer fn) type (bs ! 0) fn st = Some (0, False, fn\<lparr>private_data := p\<rparr>, set_fmem m st)
    \<and> m name = 0"
proof -
  let ?D = "map (disk_block base m0) bs"
  have "region tname (Suc (length nm)) \<subseteq> region tname 512" using n(2) by (intro region_mono) simp
  then have "dir_ok base fn st bs 0 ?D F tname nm" using w n(1) d by (auto simp: dir_ok_def walk_ok_def)
  from search_dir_miss [OF this, of type] d obtain p m where
    m: "search_dir lmfs (fn_sb fn) tname (data_buffer fn) type (bs ! 0) fn st = Some (0, False, fn\<lparr>private_data := p\<rparr>, set_fmem m st)"
      "same_outside (region (data_buffer fn) 4096) (fmem st) m" by auto
  have "region (data_buffer fn) 4096 \<inter> region name (Suc (length ([] :: u8 list))) = {}" using w by (auto simp: walk_ok_def)
  from str_at_outside [OF m(2) this] have "m name = 0" using w by (simp add: walk_ok_def)
  then show ?thesis using m(1) by blast
qed

section \<open>Properties\<close>

lemma lmfs_repr_bits [simp]: "lmfs_repr base fn (st\<lparr>bit_words := w\<rparr>) bs i D F = lmfs_repr base fn st bs i D F"
  by (cases "sb_bdev (sbs st (fn_sb fn))") (simp_all add: lmfs_repr_def lmfs_disk_def Let_def)

lemma walk_ok_bits [simp]: "walk_ok base m0 fn (st\<lparr>bit_words := w\<rparr>) bs F name s tname = walk_ok base m0 fn st bs F name s tname"
  by (simp add: walk_ok_def)

lemma set_fmem_bits [simp]: "set_fmem m (st\<lparr>bit_words := w\<rparr>) = (set_fmem m st)\<lparr>bit_words := w\<rparr>"
  by (simp add: set_fmem_def)

lemma iname_buffer_bits:
  "get_iname_buffer st = (t, st') \<Longrightarrow> \<exists>w. st' = st\<lparr>bit_words := w\<rparr>"
  "\<exists>w. put_iname_buffer t st = st\<lparr>bit_words := w\<rparr>"
proof -
  have keep: "\<exists>w. st = st\<lparr>bit_words := w\<rparr>" for st :: "'a fs_state" by (rule exI [of _ "bit_words st"]) simp
  show "get_iname_buffer st = (t, st') \<Longrightarrow> \<exists>w. st' = st\<lparr>bit_words := w\<rparr>"
    using keep [of st] by (auto simp: get_iname_buffer_def split: option.splits)
  show "\<exists>w. put_iname_buffer t st = st\<lparr>bit_words := w\<rparr>" using keep [of st] by (auto simp: put_iname_buffer_def Let_def)
qed

lemma lookup_resolves:
  assumes "get_iname_buffer st = (tname, st1)" "walk_ok base (fmem st) fn st bs F name (path_string nms) tname"
    and "path_to base (fmem st) start (if flg AND O_DIRECTORY = O_DIRECTORY then DT_DIR else DT_ANY) bs nms idx fbs" "start = fnode_start_block (lsb (fn_sb fn) st)"
  shows "\<exists>fn' m w. get_file_fnode_loop lmfs name flg fn st = Some (0, fn', (set_fmem m st)\<lparr>bit_words := w\<rparr>)
    \<and> lmfs_repr base fn' (set_fmem m st) fbs 0 (map (disk_block base (fmem st)) fbs) F \<and> filled fn (stored_entry base (fmem st) start idx) fn'"
proof -
  obtain w where w: "st1 = st\<lparr>bit_words := w\<rparr>" using iname_buffer_bits(1) [OF assms(1)] by blast
  have "tname + word_of_nat 0 \<in> region tname 512" unfolding region_def by (rule imageI) simp
  then have t: "tname \<noteq> 0" using assms(2) by (auto simp: walk_ok_def)
  have w1: "walk_ok base (fmem st) fn st1 bs F name (path_string nms) tname" and sb: "start = fnode_start_block (lsb (fn_sb fn) st1)"
    using assms(2,4) by (simp_all add: w)
  obtain fn' m where m: "walk_path lmfs (fn_sb fn) (data_buffer fn) flg name False tname fn st1 = Some (0, False, 0, fn', set_fmem m st1)"
    "lmfs_repr base fn' (set_fmem m st1) fbs 0 (map (disk_block base (fmem st)) fbs) F" "filled fn (stored_entry base (fmem st) start idx) fn'"
    using walk_path_resolves [OF assms(3) w1 sb, of False] by blast
  obtain w' where "put_iname_buffer tname (set_fmem m st1) = (set_fmem m st1)\<lparr>bit_words := w'\<rparr>" using iname_buffer_bits(2) by blast
  then show ?thesis using m t assms(1)
    by (intro exI [of _ fn'] exI [of _ m] exI [of _ w']) (simp add: get_file_fnode_loop_def w)
qed

text \<open>The file structure that \<open>__sys_open\<close> makes for an fnode.\<close>

definition opened :: "addr \<Rightarrow> u32 \<Rightarrow> 'p fnode \<Rightarrow> 'p file_struct" where
  "opened a fl fn = \<lparr>file_at = a, f_type = fn_type fn, f_flag = fl, file_fnode = fn, offset = 0\<rparr>"

text \<open>
  C7.  From the path to the bytes.  Looking up a path from an open directory follows the
  directory entries on the disk, component by component; opening the fnode that it gives and
  reading from it delivers the first bytes of the data blocks of the file that the path names
  on the disk, as many as were asked for or as the file has.
\<close>

theorem lmfs_path_read:
  fixes st :: lmfs_state
  defines "start fn \<equiv> fnode_start_block (lsb (fn_sb fn) st)"
  assumes name: "get_iname_buffer st = (tname, st1)" "walk_ok base (fmem st) fn st bs F name (path_string nms) tname" "rw_pos fn = 0"
    and path: "path_to base (fmem st) (start fn) DT_ANY bs nms idx fbs" "flg AND O_DIRECTORY \<noteq> O_DIRECTORY"
    and size: "n = sint (en_size (stored_entry base (fmem st) (start fn) idx))" "0 < n" "n \<le> 4096 * int (length fbs)"
    and r: "r = nat (min sz n)" "0 < sz" "r mod 4096 \<noteq> 0"
    and buf: "region buf r \<subseteq> F" "region buf r \<inter> region (data_buffer fn) 4096 = {}"
  shows "\<exists>fn' st2 f st3 f' st4. get_file_fnode_loop lmfs name flg fn st = Some (0, fn', st2)
    \<and> vfs_open lmfs (opened a fl fn') st2 = Some (0, f, st3) \<and> vfs_read lmfs f buf sz st3 = Some (int r, f', st4)
    \<and> bytes_at (fmem st4) buf r = take r (concat (map (disk_block base (fmem st)) fbs))"
proof -
  let ?D = "map (disk_block base (fmem st)) fbs"
  obtain fn' m w where l: "get_file_fnode_loop lmfs name flg fn st = Some (0, fn', (set_fmem m st)\<lparr>bit_words := w\<rparr>)"
    "lmfs_repr base fn' (set_fmem m st) fbs 0 ?D F" "filled fn (stored_entry base (fmem st) (start fn) idx) fn'"
    using lookup_resolves [OF name(1,2), of "start fn" flg idx fbs] path by (auto simp: start_def)
  let ?st = "(set_fmem m st)\<lparr>bit_words := w\<rparr>" and ?f = "opened a fl fn'"
  have F: "region (data_buffer fn') 4096 \<subseteq> F" "buffer_size fn' = 4096" "rw_pos fn' = 0" "data_size fn' = n" "data_buffer fn' = data_buffer fn"
    using l(3) name(2,3) size(1) by (auto simp: filled_def walk_ok_def)
  have "lmfs_repr base (file_fnode ?f) ?st fbs 0 ?D F" using l(2) by (simp add: opened_def)
  then obtain m1 where o: "vfs_open lmfs ?f ?st = Some (0, ?f\<lparr>file_fnode := (file_fnode ?f)\<lparr>fn_current_block := fbs ! 0\<rparr>\<rparr>, set_fmem m1 ?st)"
    "file_ok (lmfs_repr base) (?f\<lparr>file_fnode := (file_fnode ?f)\<lparr>fn_current_block := fbs ! 0\<rparr>\<rparr>) (set_fmem m1 ?st) fbs 0 ?D F"
    using lm.vfs_open_ok [of base ?f ?st fbs ?D F] F size(3) by (auto simp: opened_def Let_def)
  let ?g = "?f\<lparr>file_fnode := (file_fnode ?f)\<lparr>fn_current_block := fbs ! 0\<rparr>\<rparr>"
  have n31: "n < 2 ^ 31" using sint_lt [of "en_size (stored_entry base (fmem st) (start fn) idx)"] size(1) by simp
  have g: "data_size (file_fnode ?g) = n" "data_buffer (file_fnode ?g) = data_buffer fn" "offset ?g = 0" using F by (simp_all add: opened_def)
  have len: "nat (min sz (data_size (file_fnode ?g) - offset ?g)) = r" using g(1,3) r(1) by simp
  have "offset ?g < data_size (file_fnode ?g)" using g(1,3) size(2) by simp
  note rd = lm.vfs_read_data [OF o(2) r(2) this, of buf, unfolded len]
  have "(offset ?g + int r) mod 4096 \<noteq> 0" using r(3) g(3) zmod_int [of r 4096] by simp
  moreover have "r < 2 ^ 32" using n31 r(1) by simp
  ultimately obtain f' st4 where "vfs_read lmfs ?g buf sz (set_fmem m1 ?st) = Some (int r, f', st4)"
    "bytes_at (fmem st4) buf r = take r (drop (nat (offset ?g)) (concat ?D))"
    using rd buf g(2) by auto
  then show ?thesis using l(1) o(1) g(3) by simp
qed

text \<open>A disk with a file \<open>a\<close>, which has the five bytes \<open>hello\<close>, and an empty directory \<open>d\<close>.\<close>

definition demo_mem :: byte_mem where
  "demo_mem = (\<lambda>_. 0)(0x1000 := 4, 0x3000 := 97, 0x3100 := 100, 0x3101 := 47, 0x3102 := 120, 0x101208 := 6, 0x10121C := 5, 0x101300 := 2, 0x102000 := 3,
     0x103000 := 104, 0x103001 := 101, 0x103002 := 108, 0x103003 := 108, 0x103004 := 111, 0x104000 := 97, 0x1040FC := 1,
     0x101408 := 4, 0x101580 := 5, 0x104100 := 100, 0x1041FC := 2, 0x105000 := 6)"

definition demo_fs :: lmfs_state where
  "demo_fs = \<lparr>fdisk = set_dmem demo_mem demo_disk,
     sbs = (\<lambda>_. \<lparr>sb_dev = 0, sb_dir = 0, block_size_bits = 12, sb_block_size = 4096, max_file = 8, sb_flags = 0, sb_magic = 0,
       sb_bdev = Some demo_bdev, sb_private = (super_of (\<lambda>_. 0) 0)\<lparr>fnode_start_block := 1\<rparr>\<rparr>),
     bit_words = (\<lambda>_. 0), iname_buffer = 0x8000, iname_buffer_base = 0x4000, dbuffer = 0\<rparr>"

definition demo_dir :: "lmfs_fnode fnode" where
  "demo_dir = (new_fnode 0x9000 (zero_lmfs_fnode\<lparr>lvl1 := 0x1000, lm_current_block := 4\<rparr>))\<lparr>data_buffer := 0x2000, buffer_size := 4096\<rparr>"

abbreviation demo_free :: "addr set" where "demo_free \<equiv> region 0x2000 0x4000"

lemma demo_fmem [simp]: "fmem demo_fs = demo_mem"
  by (simp add: demo_fs_def)

lemma regions_apart:
  assumes "unat (a :: addr) + n \<le> unat b" "unat b + k \<le> 2 ^ 32"
  shows "region a n \<inter> region b k = {}" "region b k \<inter> region a n = {}"
  using apart_unat [OF assms] by (simp_all add: apart_region)

lemma region_sub:
  assumes "unat (a :: addr) \<le> unat b" "unat b + k \<le> unat a + n" "n < 2 ^ 32"
  shows "region b k \<subseteq> region a n"
proof -
  have "region (a + word_of_nat (unat (b - a))) k \<subseteq> region a n"
    using assms by (intro region_part) (simp add: unat_sub word_le_nat_alt)
  then show ?thesis by simp
qed

lemma slot_short:
  assumes "length d = 4096" "k < 16" "n < 248" "d ! (256 * k + n) = 0"
  shows "length (slot_name d k) \<le> n"
proof (rule ccontr)
  assume l: "\<not> ?thesis"
  then have "slot_name d k ! n = drop (256 * k) d ! n" unfolding slot_name_def by (intro takeWhile_nth) simp
  moreover have "slot_name d k ! n \<in> set (slot_name d k)" using l by (intro nth_mem) simp
  then have "slot_name d k ! n \<noteq> 0" using slot_nonzero by metis
  ultimately show False using assms by simp
qed

lemma slot_single:
  assumes "length d = 4096" "k < 16" "d ! (256 * k) \<noteq> 0" "d ! (256 * k + 1) = 0"
  shows "slot_name d k = [d ! (256 * k)]"
proof -
  have "drop (256 * k) d = d ! (256 * k) # d ! Suc (256 * k) # drop (Suc (Suc (256 * k))) d"
    using assms(1,2) by (simp add: Cons_nth_drop_Suc)
  then show ?thesis using assms(3,4) by (simp add: slot_name_def)
qed

lemma demo_dir_block: "slots_ok (disk_block 0x100000 demo_mem 4)" "dir_find (disk_block 0x100000 demo_mem 4) [97] = Some 0"
  "dir_find (disk_block 0x100000 demo_mem 4) [100] = Some 1"
proof -
  let ?d = "disk_block 0x100000 demo_mem 4"
  have "\<forall>k \<in> set [0..<16]. ?d ! (256 * k + 1) = 0" by (simp add: upt_conv_Cons demo_mem_def)
  then have d1: "?d ! (256 * k + 1) = 0" if "k < 16" for k using that by simp
  have "length (slot_name ?d k) \<le> 1" if "k < 16" for k using slot_short [of ?d k 1] d1 that by simp
  then show "slots_ok ?d" by (fastforce simp: slots_ok_def)
  have "?d ! 0 = 97" "?d ! 256 = 100" by (simp_all add: demo_mem_def)
  then have "slot_name ?d 0 = [97]" "slot_name ?d 1 = [100]"
    using slot_single [of ?d 0] slot_single [of ?d 1] d1 [of 0] d1 [of 1] by simp_all
  then show "dir_find ?d [97] = Some 0" "dir_find ?d [100] = Some 1" by (simp_all add: dir_find_def upt_conv_Cons)
qed

lemma demo_tables: "words_at demo_mem 0x1000 (Suc (Suc 0)) = [4, 0]" "words_at demo_mem 0x102000 (Suc (Suc 0)) = [3, 0]"
  "words_at demo_mem 0x105000 (Suc (Suc 0)) = [6, 0]"
  by (simp_all add: words_at_def word_at_def demo_mem_def)

lemma demo_entry: "entry_fnode 0x100000 demo_mem 4 0 = 1" "en_type (stored_entry 0x100000 demo_mem 1 1) = 6"
  "en_size (stored_entry 0x100000 demo_mem 1 1) = 5" "first_table (stored_entry 0x100000 demo_mem 1 1) = 2"
  "en_type (stored_entry 0x100000 demo_mem 1 2) = 4" "first_table (stored_entry 0x100000 demo_mem 1 2) = 5" "entry_fnode 0x100000 demo_mem 4 1 = 2"
  by (simp_all add: word_at_def demo_mem_def entry_fnode_def stored_entry_def entry_at_def first_table_def)

lemma demo_stored: "stored_file 0x100000 demo_mem 1 1 [3]" "stored_file 0x100000 demo_mem 1 2 [6]"
  using demo_tables(2,3) demo_entry(4,6) by (simp_all add: stored_file_def Let_def)

lemma demo_repr: "lmfs_repr 0x100000 demo_dir demo_fs [4] 0 [disk_block 0x100000 demo_mem 4] demo_free"
proof -
  have "demo_free \<inter> region 0x1000 4096 = {}" "demo_free \<inter> ramdisk 0x100000 = {}" "region 0x1000 4096 \<inter> ramdisk 0x100000 = {}"
    by (rule regions_apart; simp)+
  moreover have "lmfs_disk 0x100000 0 demo_fs" by (simp add: lmfs_disk_def demo_fs_def demo_bdev_def demo_disk_def)
  ultimately show ?thesis using demo_tables(1)
    by (simp add: lmfs_repr_def demo_dir_def new_fnode_def zero_lmfs_fnode_def)
qed

lemma demo_buffers: "buffers_ok 0x100000 demo_dir" "region (data_buffer demo_dir) 4096 \<subseteq> demo_free"
proof -
  have "region 0x2000 4096 \<inter> ramdisk 0x100000 = {}" "region 0x1000 4096 \<inter> ramdisk 0x100000 = {}" "region 0x2000 4096 \<inter> region 0x1000 4096 = {}"
    by (rule regions_apart; simp)+
  then show "buffers_ok 0x100000 demo_dir" by (simp add: buffers_ok_def demo_dir_def new_fnode_def zero_lmfs_fnode_def)
  show "region (data_buffer demo_dir) 4096 \<subseteq> demo_free" using region_sub [of "0x2000" "0x2000" 4096 "0x4000"] by (simp add: demo_dir_def)
qed

lemma demo_walk: "walk_ok 0x100000 demo_mem demo_dir demo_fs [4] demo_free 0x3000 [97] 0x4000"
proof -
  have "region 0x3000 (Suc (Suc 0)) \<subseteq> demo_free" "region 0x4000 512 \<subseteq> demo_free" by (rule region_sub; simp)+
  moreover have "region 0x3000 (Suc (Suc 0)) \<inter> region 0x2000 4096 = {}" "region 0x3000 (Suc (Suc 0)) \<inter> region 0x4000 512 = {}" "region 0x4000 512 \<inter> region 0x2000 4096 = {}"
    by (rule regions_apart; simp)+
  moreover have "0 \<notin> demo_free" by (simp add: region_unat)
  ultimately show ?thesis using demo_repr demo_buffers by (auto simp: walk_ok_def demo_mem_def demo_dir_def)
qed

lemma demo_walk_dir: "walk_ok 0x100000 demo_mem demo_dir demo_fs [4] demo_free 0x3100 [100, 47, 120] 0x4000"
proof -
  have "region 0x3100 (Suc (Suc (Suc (Suc 0)))) \<subseteq> demo_free" "region 0x4000 512 \<subseteq> demo_free" by (rule region_sub; simp)+
  moreover have "region 0x3100 (Suc (Suc (Suc (Suc 0)))) \<inter> region 0x2000 4096 = {}" "region 0x3100 (Suc (Suc (Suc (Suc 0)))) \<inter> region 0x4000 512 = {}"
    "region 0x4000 512 \<inter> region 0x2000 4096 = {}" by (rule regions_apart; simp)+
  moreover have "0 \<notin> demo_free" by (simp add: region_unat)
  ultimately show ?thesis using demo_repr demo_buffers by (auto simp: walk_ok_def demo_mem_def demo_dir_def)
qed

lemma demo_empty_dir: "slots_ok (disk_block 0x100000 demo_mem 6)" "dir_find (disk_block 0x100000 demo_mem 6) [120] = None"
proof -
  let ?d = "disk_block 0x100000 demo_mem 6"
  have "\<forall>k \<in> set [0..<16]. ?d ! (256 * k + 0) = 0" by (simp add: upt_conv_Cons demo_mem_def)
  then have "slot_name ?d k = []" if "k < 16" for k using slot_short [of ?d k 0] that by simp
  then show "slots_ok ?d" "dir_find ?d [120] = None" by (auto simp: slots_ok_def dir_find_def find_None_iff)
qed

lemma demo_path: "path_to 0x100000 demo_mem 1 DT_ANY [4] [[97]] 1 [3]"
proof (rule path_to.last)
  have "dir_hit [disk_block 0x100000 demo_mem 4] [97] 0 0 0" using demo_dir_block(2) by (simp add: dir_hit_def)
  then show "dir_step 0x100000 demo_mem [4] [97] 1" using demo_dir_block(1) demo_entry(1)
    by (auto simp: dir_step_def intro!: exI [of _ 0])
  show "type_ok (stored_entry 0x100000 demo_mem 1 1) DT_ANY" using demo_entry(2) by (simp add: type_ok_def)
qed (rule demo_stored(1))

lemma demo_iname: "\<exists>w. get_iname_buffer demo_fs = (0x4000, demo_fs\<lparr>bit_words := w\<rparr>)"
  by (simp add: get_iname_buffer_def demo_fs_def read_bit_def get_bit_pos_def upto_rec1)

theorem lmfs_path_read_witness:
  "\<exists>fn st2 f st3 f' st4. get_file_fnode_loop lmfs 0x3000 0 demo_dir demo_fs = Some (0, fn, st2)
    \<and> vfs_open lmfs (opened 0xa000 0 fn) st2 = Some (0, f, st3) \<and> vfs_read lmfs f 0x5000 100 st3 = Some (5, f', st4)
    \<and> bytes_at (fmem st4) 0x5000 5 = [104, 101, 108, 108, 111]"
proof -
  obtain w where w: "get_iname_buffer demo_fs = (0x4000, demo_fs\<lparr>bit_words := w\<rparr>)" using demo_iname by blast
  have sb: "fnode_start_block (lsb (fn_sb demo_dir) demo_fs) = 1" by (simp add: demo_fs_def)
  have path: "path_to 0x100000 (fmem demo_fs) (fnode_start_block (lsb (fn_sb demo_dir) demo_fs)) DT_ANY [4] [[97]] 1 [3]"
    and size: "5 = sint (en_size (stored_entry 0x100000 (fmem demo_fs) (fnode_start_block (lsb (fn_sb demo_dir) demo_fs)) 1))"
    using demo_path demo_entry(3) sb by simp_all
  have walk: "walk_ok 0x100000 (fmem demo_fs) demo_dir demo_fs [4] demo_free 0x3000 (path_string [[97]]) 0x4000" using demo_walk by simp
  have buf: "region 0x5000 5 \<subseteq> demo_free" "region 0x5000 5 \<inter> region (data_buffer demo_dir) 4096 = {}"
    using region_sub [of "0x2000" "0x5000" 5 "0x4000"] regions_apart(2) [of "0x2000" 4096 "0x5000" 5] by (simp_all add: demo_dir_def)
  have pos: "rw_pos demo_dir = 0" by (simp add: demo_dir_def new_fnode_def)
  have hello: "bytes_at demo_mem 0x103000 5 = [104, 101, 108, 108, 111]" by (simp add: bytes_at_def demo_mem_def upt_conv_Cons)
  note read = lmfs_path_read [OF w walk pos path _ size _ _ _ _ _ buf, where flg = 0 and sz = 100 and a = "0xa000" and fl = 0]
  moreover have "take 5 (concat (map (disk_block 0x100000 (fmem demo_fs)) [3])) = [104, 101, 108, 108, 111]"
    using bytes_at_take [of 5 4096 demo_mem "0x103000"] hello by simp
  ultimately show ?thesis by simp
qed

text \<open>
  C33.  A file that does not exist is found.  When the first component of the path is a
  directory and the second one is in none of its blocks, the lookup does not end with
  \<open>-ENOENT\<close>: the mark that something was found is kept from the first component, and the
  call succeeds with the fnode of the directory.
\<close>

theorem lmfs_missing_is_found:
  fixes st :: lmfs_state
  defines "start fn \<equiv> fnode_start_block (lsb (fn_sb fn) st)"
  assumes name: "get_iname_buffer st = (tname, st1)" "walk_ok base (fmem st) fn st bs F name (path_string [nm, nm']) tname"
    and dir: "dir_step base (fmem st) bs nm idx" "stored_file base (fmem st) (start fn) idx dbs" "type_ok (stored_entry base (fmem st) (start fn) idx) DT_DIR"
    and missing: "\<forall>b \<in> set dbs. slots_ok (disk_block base (fmem st) b) \<and> dir_find (disk_block base (fmem st) b) nm' = None"
    and nm': "nm' \<noteq> []" "SLASH \<notin> set nm'" "length nm' < 512"
  shows "\<exists>fn' st'. get_file_fnode_loop lmfs name flg fn st = Some (0, fn', st')
    \<and> fn_type fn' = ucast (en_type (stored_entry base (fmem st) (start fn) idx))
    \<and> data_size fn' = sint (en_size (stored_entry base (fmem st) (start fn) idx))"
proof -
  let ?m0 = "fmem st" and ?en = "stored_entry base (fmem st) (start fn) idx"
  let ?name = "name + word_of_nat (Suc (length nm))" and ?fin = "name + word_of_nat (Suc (length nm)) + word_of_nat (length nm')"
  obtain w where w: "st1 = st\<lparr>bit_words := w\<rparr>" using iname_buffer_bits(1) [OF name(1)] by blast
  have "tname + word_of_nat 0 \<in> region tname 512" unfolding region_def by (rule imageI) simp
  then have t: "tname \<noteq> 0" using name(2) by (auto simp: walk_ok_def)
  have sb: "start fn = fnode_start_block (lsb (fn_sb fn) (set_fmem m st1))" for m by (simp add: w start_def)
  have nm: "SLASH \<notin> set nm" "length nm < 512" using dir(1) by (simp_all add: dir_step_def)
  have w1: "walk_ok base ?m0 fn st1 bs F name (nm @ SLASH # nm') tname" using name(2) by (simp add: w)
  obtain m where m: "find_file_name name tname st1 = Some (?name, set_fmem m st1)" "str_at m tname nm"
    "walk_ok base ?m0 fn (set_fmem m st1) bs F ?name nm' tname" using walk_name_comp [OF w1 nm] by auto
  obtain fn1 m1 where s: "search_dir lmfs (fn_sb fn) tname (data_buffer fn) DT_DIR (bs ! 0) fn (set_fmem m st1) = Some (0, True, fn1, set_fmem m1 st1)"
    "walk_ok base ?m0 fn1 (set_fmem m1 st1) dbs F ?name nm' tname" "filled fn ?en fn1"
    using walk_search [OF m(3) _ dir(1), of dbs DT_DIR] m(2) dir(2,3) sb [of m] by auto
  have f1: "fn_sb fn1 = fn_sb fn" "data_buffer fn1 = data_buffer fn" using s(3) by (simp_all add: filled_def)
  obtain m2 where m2: "find_file_name ?name tname (set_fmem m1 st1) = Some (?fin, set_fmem m2 st1)" "str_at m2 tname nm'"
    "walk_ok base ?m0 fn1 (set_fmem m2 st1) dbs F ?fin [] tname" using walk_name_last [OF s(2) nm'] by auto
  let ?ty = "if flg AND O_DIRECTORY = O_DIRECTORY then DT_DIR else DT_ANY"
  obtain p m3 where m3: "search_dir lmfs (fn_sb fn1) tname (data_buffer fn1) ?ty (dbs ! 0) fn1 (set_fmem m2 st1)
      = Some (0, False, fn1\<lparr>private_data := p\<rparr>, set_fmem m3 st1)" "m3 ?fin = 0"
    using walk_miss [OF m2(3) _ nm'(3) missing, of ?ty] m2(2) by (auto simp del: if_split)
  have "find_file_name ?fin tname (set_fmem m3 st1) = Some (0, set_fmem m3 st1)" using m3(2) by (simp add: find_file_name_def)
  then have "walk_path lmfs (fn_sb fn) (data_buffer fn) flg ?fin True tname (fn1\<lparr>private_data := p\<rparr>) (set_fmem m3 st1)
      = Some (0, False, 0, fn1\<lparr>private_data := p\<rparr>, set_fmem m3 st1)" by (subst walk_path.simps) simp
  moreover have "m2 ?fin = 0" using m2(3) by (simp add: walk_ok_def)
  ultimately have "walk_path lmfs (fn_sb fn) (data_buffer fn) flg ?name True tname fn1 (set_fmem m1 st1)
      = Some (0, False, 0, fn1\<lparr>private_data := p\<rparr>, set_fmem m3 st1)"
    using m2(1) walk_start [OF m2(3)] m3(1) f1 by (subst walk_path.simps) (simp add: lmfs_sel)
  moreover have "m ?name \<noteq> 0" using m(3) nm'(1) by (cases nm') (auto simp: walk_ok_def)
  ultimately have "walk_path lmfs (fn_sb fn) (data_buffer fn) flg name False tname fn st1
      = Some (0, False, 0, fn1\<lparr>private_data := p\<rparr>, set_fmem m3 st1)"
    using m(1) walk_start [OF m(3)] s(1) by (subst walk_path.simps) (simp add: lmfs_sel)
  then show ?thesis using name(1) t s(3)
    by (intro exI [of _ "fn1\<lparr>private_data := p\<rparr>"]) (simp add: get_file_fnode_loop_def filled_def)
qed

theorem lmfs_missing_is_found_witness:
  "\<exists>fn' st'. get_file_fnode_loop lmfs 0x3100 0 demo_dir demo_fs = Some (0, fn', st') \<and> fn_type fn' = DT_DIR"
proof -
  obtain w where w: "get_iname_buffer demo_fs = (0x4000, demo_fs\<lparr>bit_words := w\<rparr>)" using demo_iname by blast
  have sb: "fnode_start_block (lsb (fn_sb demo_dir) demo_fs) = 1" by (simp add: demo_fs_def)
  have walk: "walk_ok 0x100000 (fmem demo_fs) demo_dir demo_fs [4] demo_free 0x3100 (path_string [[100], [120]]) 0x4000"
    using demo_walk_dir by simp
  have "dir_hit [disk_block 0x100000 demo_mem 4] [100] 0 0 1" using demo_dir_block(3) by (simp add: dir_hit_def)
  then have "dir_hit (map (disk_block 0x100000 demo_mem) [4]) [100] 0 0 1 \<and> 2 = entry_fnode 0x100000 demo_mem ([4] ! 0) 1"
    using demo_entry(7) by simp
  then have step: "dir_step 0x100000 (fmem demo_fs) [4] [100] 2" using demo_dir_block(1) by (fastforce simp: dir_step_def)
  have dir: "stored_file 0x100000 (fmem demo_fs) (fnode_start_block (lsb (fn_sb demo_dir) demo_fs)) 2 [6]"
    "type_ok (stored_entry 0x100000 (fmem demo_fs) (fnode_start_block (lsb (fn_sb demo_dir) demo_fs)) 2) DT_DIR"
    using demo_stored(2) demo_entry(5) sb by (simp_all add: type_ok_def)
  have "\<forall>b \<in> set [6]. slots_ok (disk_block 0x100000 (fmem demo_fs) b) \<and> dir_find (disk_block 0x100000 (fmem demo_fs) b) [120] = None"
    using demo_empty_dir by simp
  from lmfs_missing_is_found [OF w walk step dir this, of 0] show ?thesis using demo_entry(5) sb by auto
qed

text \<open>
  C35.  A read that ends exactly at the end of a block, without having started at its
  beginning, leaves the old block in the buffer: the file offset is at the next block, but
  the next read returns the beginning of the old block again.
\<close>

theorem vfs_read_boundary_stale:
  assumes "buffer_size (file_fnode f) = 4096" "rw_pos (file_fnode f) = int pos" "0 < pos" "pos < 4096"
    and "read_size f sz = 4096 - int pos" "0 < k" "k < 4096" "offset f + 4096 - int pos + int k \<le> data_size (file_fnode f)"
    and "region buf (4096 - pos) \<inter> region (data_buffer (file_fnode f)) 4096 = {}"
    and "region buf' k \<inter> region (data_buffer (file_fnode f)) 4096 = {}"
  shows "\<exists>f1 st1 f2 st2. vfs_read fs f buf sz st = Some (4096 - int pos, f1, st1) \<and> offset f1 = offset f + 4096 - int pos
    \<and> vfs_read fs f1 buf' (int k) st1 = Some (int k, f2, st2)
    \<and> bytes_at (fmem st2) buf' k = take k (bytes_at (fmem st) (data_buffer (file_fnode f)) 4096)"
proof -
  let ?dbuf = "data_buffer (file_fnode f)" and ?d = "bytes_at (fmem st) (data_buffer (file_fnode f)) 4096"
  let ?f = "f\<lparr>offset := offset f + int (4096 - pos), file_fnode := (file_fnode f)\<lparr>rw_pos := 0\<rparr>\<rparr>"
  from vfs_read_buffered [OF assms(1,2), of "4096 - pos" sz st ?d buf fs] assms obtain m where
    1: "vfs_read fs f buf sz st = Some (int (4096 - pos), ?f, set_fmem m st)" "same_outside (region buf (4096 - pos)) (fmem st) m"
    by (auto simp: of_nat_diff)
  have d: "bytes_at (fmem (set_fmem m st)) (data_buffer (file_fnode ?f)) 4096 = ?d" using bytes_at_outside [OF 1(2) assms(9)] by simp
  from vfs_read_buffered [of ?f 0 k "int k" "set_fmem m st", OF _ _ _ _ _ _ d, of buf' fs] assms obtain f2 m2 where
    2: "vfs_read fs ?f buf' (int k) (set_fmem m st) = Some (int k, f2, set_fmem m2 st)" "bytes_at m2 buf' k = take k ?d"
    by (auto simp: read_size_def of_nat_diff)
  show ?thesis using 1(1) 2 assms(4)
    by (intro exI [of _ ?f] exI [of _ "set_fmem m st"] exI [of _ f2] exI [of _ "set_fmem m2 st"]) (simp add: of_nat_diff)
qed

text \<open>An open file of one block, with the first block loaded; its bytes are all zero.\<close>

definition demo_file :: "int \<Rightarrow> lmfs_fnode file_struct" where
  "demo_file pos = opened 0xa000 0 ((new_fnode 0x9000 (zero_lmfs_fnode\<lparr>lvl1 := 0x1000, lm_current_block := 3\<rparr>))
     \<lparr>data_buffer := 0x2000, buffer_size := 4096, data_size := 4096, rw_pos := pos\<rparr>)\<lparr>offset := pos\<rparr>"

definition demo_open :: lmfs_state where
  "demo_open = set_fmem ((\<lambda>_. 0)(0x1000 := 3)) demo_fs"

lemma demo_open_zero: "0x1000 \<notin> region p n \<Longrightarrow> bytes_at (fmem demo_open) p n = replicate n 0"
  by (intro nth_equalityI) (auto simp: demo_open_def region_def)

lemma demo_file_ok:
  assumes "0 \<le> pos" "pos < 4096"
  shows "file_ok (lmfs_repr 0x100000) (demo_file pos) demo_open [3] 0 [replicate 4096 0] demo_free"
proof -
  have a: "demo_free \<inter> region 0x1000 4096 = {}" "demo_free \<inter> ramdisk 0x100000 = {}" "region 0x1000 4096 \<inter> ramdisk 0x100000 = {}"
    by (rule regions_apart; simp)+
  have "region 0x2000 4096 \<subseteq> demo_free" by (rule region_sub; simp)
  moreover have "0x1000 \<notin> region 0x2000 4096" "0x1000 \<notin> region 0x103000 4096" by (simp_all add: region_unat)
  then have "bytes_at (fmem demo_open) 0x2000 4096 = replicate 4096 0" "bytes_at (fmem demo_open) 0x103000 4096 = replicate 4096 0"
    using demo_open_zero by blast+
  moreover have "lmfs_disk 0x100000 0 demo_open" by (simp add: lmfs_disk_def demo_fs_def demo_open_def demo_bdev_def demo_disk_def set_fmem_def)
  moreover have "words_at (fmem demo_open) 0x1000 (Suc (Suc 0)) = [3, 0]" by (simp add: words_at_def word_at_def demo_open_def)
  ultimately show ?thesis using a assms
    by (simp add: file_ok_def Let_def lmfs_repr_def demo_file_def opened_def new_fnode_def zero_lmfs_fnode_def)
qed

text \<open>
  C10.  Positioning and reading.  Setting the position of an open lmfs file to any offset in
  it and reading delivers the bytes of the file at this offset, across the blocks of the file,
  from wherever the file was positioned before.  The end of the bytes is not at the end of a block.
\<close>

theorem lmfs_seek_read:
  assumes ok: "file_ok (lmfs_repr base) f st bs i D F" and off: "0 \<le> off" "off < data_size (file_fnode f)" "off \<noteq> offset f"
    and r: "r = nat (min sz (data_size (file_fnode f) - off))" "0 < sz" "(off + int r) mod 4096 \<noteq> 0" "r < 2 ^ 32"
    and buf: "region buf r \<subseteq> F" "region buf r \<inter> region (data_buffer (file_fnode f)) 4096 = {}"
  shows "\<exists>f1 st1 f2 st2. vfs_seek lmfs f off SEEK_SET st = Some (off, f1, st1) \<and> vfs_read lmfs f1 buf sz st1 = Some (int r, f2, st2)
    \<and> offset f2 = off + int r \<and> bytes_at (fmem st2) buf r = take r (drop (nat off) (concat D))"
proof -
  have ds: "data_size (file_fnode f) \<le> 4096 * int (length bs)" "length bs < 1024" using ok by (auto simp: file_ok_def lmfs_repr_def Let_def)
  then have "off < 4096 * int (length bs)" "4096 * length bs < 2 ^ 31" using off by simp_all
  then obtain f1 st1 where s: "vfs_seek lmfs f off SEEK_SET st = Some (off, f1, st1)" "offset f1 = off"
    "file_ok (lmfs_repr base) f1 st1 bs (nat off div 4096) D F"
    "file_fnode f1 = (file_fnode f)\<lparr>private_data := private_data (file_fnode f1), rw_pos := off mod 4096\<rparr>"
    using lm.vfs_seek_set [OF ok, of off] off by (auto simp: lmfs_sel)
  have d: "data_size (file_fnode f1) = data_size (file_fnode f)" "data_buffer (file_fnode f1) = data_buffer (file_fnode f)" by (subst s(4); simp)+
  have len: "nat (min sz (data_size (file_fnode f1) - offset f1)) = r" using r(1) d(1) s(2) by simp
  have lt: "offset f1 < data_size (file_fnode f1)" using off s(2) d(1) by simp
  show ?thesis using lm.vfs_read_data [OF s(3) r(2) lt, of buf, unfolded len] r(3,4) buf d(2) s(1,2) by auto
qed

theorem lmfs_seek_read_witness:
  "\<exists>f1 st1 f2 st2. vfs_seek lmfs (demo_file 7) 100 SEEK_SET demo_open = Some (100, f1, st1) \<and> vfs_read lmfs f1 0x5000 9 st1 = Some (9, f2, st2)
    \<and> bytes_at (fmem st2) 0x5000 9 = replicate 9 0"
proof -
  have "region 0x5000 9 \<subseteq> demo_free" by (rule region_sub; simp)
  moreover have "region 0x5000 9 \<inter> region 0x2000 4096 = {}" by (rule regions_apart; simp)
  ultimately show ?thesis
    using lmfs_seek_read [OF demo_file_ok [of 7], of 100 9 9 "0x5000"] by (fastforce simp: demo_file_def opened_def new_fnode_def)
qed



text \<open>
  C34.  A read to the end of the blocks fails.  A read that starts at the beginning of a block
  and takes every byte up to the end of the last block copies the data, then asks for the block
  behind it, and returns \<open>-ENOSPC\<close> without moving the offset.
\<close>

theorem lmfs_read_to_end_fails:
  assumes ok: "file_ok (lmfs_repr base) f st bs i D F" and pos: "rw_pos (file_fnode f) = 0" and n: "length bs = Suc i + n"
    and size: "data_size (file_fnode f) = 4096 * int (length bs)" "int (4096 * Suc n) \<le> sz" and buf: "region buf (4096 * Suc n) \<subseteq> F"
  shows "\<exists>f' st'. vfs_read lmfs f buf sz st = Some (- ENOSPC, f', st') \<and> offset f' = offset f"
proof -
  have "length bs < 1024" "offset f = 4096 * int i" using ok pos by (auto simp: file_ok_def lmfs_repr_def Let_def)
  then have "read_size f sz = int (4096 * Suc n)" "4096 * Suc n < 2 ^ 32" using size n by (auto simp: read_size_def)
  then show ?thesis using lm.vfs_read_to_end_fails [OF ok pos n _ _ buf] by blast
qed

theorem lmfs_read_to_end_fails_witness:
  "\<exists>f' st'. vfs_read lmfs (demo_file 0) 0x5000 4096 demo_open = Some (- ENOSPC, f', st') \<and> offset f' = 0"
proof -
  have "region 0x5000 4096 \<subseteq> demo_free" by (rule region_sub; simp)
  then show ?thesis using lmfs_read_to_end_fails [OF demo_file_ok [of 0], of 0 4096 "0x5000"] by (simp add: demo_file_def opened_def new_fnode_def)
qed

theorem vfs_read_boundary_stale_witness:
  "\<exists>f1 st1 f2 st2. vfs_read lmfs (demo_file 4000 \<lparr>file_fnode := (file_fnode (demo_file 4000))\<lparr>data_size := 8192\<rparr>\<rparr>) 0x5000 96 demo_open = Some (96, f1, st1)
    \<and> offset f1 = 4096 \<and> vfs_read lmfs f1 0x5100 8 st1 = Some (8, f2, st2) \<and> bytes_at (fmem st2) 0x5100 8 = replicate 8 0"
proof -
  have "region 0x5000 96 \<inter> region 0x2000 4096 = {}" "region 0x5100 8 \<inter> region 0x2000 4096 = {}" by (rule regions_apart; simp)+
  moreover have "0x1000 \<notin> region 0x2000 4096" by (simp add: region_unat)
  then have "bytes_at (fmem demo_open) 0x2000 4096 = replicate 4096 0" by (rule demo_open_zero)
  ultimately show ?thesis
    using vfs_read_boundary_stale [of "demo_file 4000 \<lparr>file_fnode := (file_fnode (demo_file 4000))\<lparr>data_size := 8192\<rparr>\<rparr>" 4000 96 8 "0x5000" "0x5100" lmfs demo_open]
    by (simp add: demo_file_def opened_def new_fnode_def read_size_def)
qed

end
