(* ===== verification/Lmfs_Pool.thy ===== *)
theory Lmfs_Pool
  imports Lmfs
begin

text \<open>
  The pool of free blocks of lmfs is a stack.  Its top block is in memory, the others are on
  the disk; a push that fills the block in memory writes it out, a pop that empties it reads
  the previous one.
\<close>

section \<open>Stacks\<close>

fun push_all :: "(u32 \<Rightarrow> 's \<Rightarrow> (int \<times> 's) option) \<Rightarrow> u32 list \<Rightarrow> 's \<Rightarrow> 's option" where
  "push_all push [] s = Some s"
| "push_all push (x # xs) s = do { (err, s) \<leftarrow> push x s; if err = 0 then push_all push xs s else None }"

fun pop_n :: "('s \<Rightarrow> (u32 \<times> 's) option) \<Rightarrow> nat \<Rightarrow> 's \<Rightarrow> (u32 list \<times> 's) option" where
  "pop_n pop 0 s = Some ([], s)"
| "pop_n pop (Suc n) s = do { (x, s) \<leftarrow> pop s; (xs, s) \<leftarrow> pop_n pop n s; Some (x # xs, s) }"

locale block_stack =
  fixes push :: "u32 \<Rightarrow> 's \<Rightarrow> (int \<times> 's) option" and pop :: "'s \<Rightarrow> (u32 \<times> 's) option"
    and stack :: "'s \<Rightarrow> u32 list \<Rightarrow> bool" and capacity :: nat
  assumes push_law: "stack s xs \<Longrightarrow> length xs < capacity \<Longrightarrow> x \<noteq> 0 \<Longrightarrow> \<exists>s'. push x s = Some (0, s') \<and> stack s' (x # xs)"
    and pop_law: "stack s (x # xs) \<Longrightarrow> xs \<noteq> [] \<Longrightarrow> \<exists>s'. pop s = Some (x, s') \<and> stack s' xs"
begin

lemma push_all_stack:
  "stack s xs \<Longrightarrow> length xs + length ys \<le> capacity \<Longrightarrow> 0 \<notin> set ys \<Longrightarrow> \<exists>s'. push_all push ys s = Some s' \<and> stack s' (rev ys @ xs)"
proof (induction ys arbitrary: s xs)
  case (Cons y ys)
  obtain s1 where s1: "push y s = Some (0, s1)" "stack s1 (y # xs)" using push_law [OF Cons.prems(1), of y] Cons.prems(2,3) by auto
  then show ?case using Cons.IH [OF s1(2)] Cons.prems(2,3) by simp
qed simp

lemma pop_n_stack: "stack s (ys @ xs) \<Longrightarrow> xs \<noteq> [] \<Longrightarrow> \<exists>s'. pop_n pop (length ys) s = Some (ys, s') \<and> stack s' xs"
proof (induction ys arbitrary: s)
  case (Cons y ys)
  obtain s1 where s1: "pop s = Some (y, s1)" "stack s1 (ys @ xs)" using pop_law [of s y "ys @ xs"] Cons.prems by auto
  then show ?case using Cons.IH [OF s1(2) Cons.prems(2)] by auto
qed simp

lemma push_pop_all:
  assumes "stack s xs" "xs \<noteq> []" "length xs + length ys \<le> capacity" "0 \<notin> set ys"
  shows "\<exists>s1 s2. push_all push ys s = Some s1 \<and> pop_n pop (length ys) s1 = Some (rev ys, s2) \<and> stack s2 xs"
proof -
  obtain s1 where s1: "push_all push ys s = Some s1" "stack s1 (rev ys @ xs)" using push_all_stack [OF assms(1,3,4)] by blast
  from pop_n_stack [OF s1(2) assms(2)] show ?thesis using s1(1) by auto
qed

end

section \<open>The pool\<close>

text \<open>
  \<open>nr\<close> blocks of the disk, from \<open>db_pool_start_block\<close>, hold the pool.  The stack from the
  bottom is the full blocks on the disk and then the block in memory up to the position.
\<close>

abbreviation disk_words :: "addr \<Rightarrow> byte_mem \<Rightarrow> nat \<Rightarrow> u32 list" where
  "disk_words base m b \<equiv> words_at m (base + 4096 * word_of_nat b) 1024"

definition pool_stack :: "addr \<Rightarrow> addr \<Rightarrow> nat \<Rightarrow> lmfs_state \<Rightarrow> u32 list \<Rightarrow> bool" where
  "pool_stack base sb nr st xs \<longleftrightarrow>
     (let l = lsb sb st; s = unat (db_pool_start_block l); c = unat (db_pool_current_block l); p = unat (db_pool_pos l) in
      lmfs_disk base sb st \<and> data_free_blocks l \<noteq> 0 \<and> region (db_pool l) 4096 \<inter> ramdisk base = {}
      \<and> s \<le> c \<and> c < s + nr \<and> s + nr \<le> 256 \<and> p < 1024
      \<and> rev xs = concat (map (\<lambda>b. disk_words base (fmem st) b) [s..<c]) @ take (Suc p) (words_at (fmem st) (db_pool l) 1024))"

lemma upd_lsb_simps [simp]: "lsb sb (upd_lsb sb f st) = f (lsb sb st)" "fmem (upd_lsb sb f st) = fmem st" "sbs (set_fmem m st) = sbs st"
  by (simp_all add: upd_lsb_def upd_sb_def set_fmem_def)

lemma disk_words_frame:
  assumes "same_outside A m m'" "A \<inter> ramdisk base = {}" "b < 256"
  shows "disk_words base m' b = disk_words base m b"
proof (rule words_at_outside [OF assms(1)])
  have "region (base + 4096 * word_of_nat b) 4096 \<subseteq> ramdisk base"
    using assms(3) by (intro block_region) (simp add: word_less_nat_alt unat_word_of_nat)
  then show "A \<inter> region (base + 4096 * word_of_nat b) (4 * 1024) = {}" using assms(2) by auto
qed

lemma concat_disk_words:
  assumes "\<forall>b. s \<le> b \<and> b < c \<longrightarrow> disk_words base m' b = disk_words base m b"
  shows "concat (map (disk_words base m') [s..<c]) = concat (map (disk_words base m) [s..<c])"
  by (rule arg_cong [of _ _ concat], rule map_cong [OF refl]) (use assms in simp)

lemma blocks_push:
  assumes st: "pool_stack base sb nr st xs" and n: "length xs < 1024 * nr" and x: "x \<noteq> 0"
  shows "\<exists>st'. lmfs_push_block sb x st = Some (0, st') \<and> pool_stack base sb nr st' (x # xs)"
proof -
  define l where "l = lsb sb st"
  define s c p where "s = unat (db_pool_start_block l)" and "c = unat (db_pool_current_block l)" and "p = unat (db_pool_pos l)"
  let ?pg = "db_pool l"
  have d: "lmfs_disk base sb st" "data_free_blocks l \<noteq> 0" "region ?pg 4096 \<inter> ramdisk base = {}" "s \<le> c" "c < s + nr" "s + nr \<le> 256" "p < 1024"
    and rev: "rev xs = concat (map (disk_words base (fmem st)) [s..<c]) @ take (Suc p) (words_at (fmem st) ?pg 1024)"
    using st by (simp_all add: pool_stack_def Let_def l_def s_def c_def p_def)
  have frame: "disk_words base (put_word m (?pg + word_of_nat (4 * i)) x) b = disk_words base m b" if "i < 1024" "b < 256" for m i b
  proof (rule disk_words_frame [OF put_word_outside _ that(2)])
    have "region (?pg + word_of_nat (4 * i)) 4 \<subseteq> region ?pg 4096" using that(1) by (intro region_part) simp
    then show "region (?pg + word_of_nat (4 * i)) 4 \<inter> ramdisk base = {}" using d(3) by auto
  qed
  show ?thesis
  proof (cases "p = 1023")
    case False
    then have pos: "db_pool_pos l + 1 \<noteq> 1024" "unat (db_pool_pos l + 1) = Suc p" using d(7)
      by (auto simp: p_def unat_word_ariths dest: arg_cong [where f = unat])
    let ?m = "put_word (fmem st) (?pg + word_of_nat (4 * Suc p)) x"
    have a: "4 * (db_pool_pos l + 1) = word_of_nat (4 * Suc p)" unfolding pos(2) [symmetric] by simp
    let ?st = "upd_lsb sb (\<lambda>l. l\<lparr>db_pool_current_block := db_pool_current_block l, db_pool_pos := db_pool_pos l + 1\<rparr>) (set_fmem ?m st)"
    have "words_at ?m ?pg 1024 = (words_at (fmem st) ?pg 1024)[Suc p := x]" using False d(7) by (intro words_at_put_word) simp_all
    then have "take (Suc (Suc p)) (words_at ?m ?pg 1024) = take (Suc p) (words_at (fmem st) ?pg 1024) @ [x]"
      using False d(7) by (simp add: take_Suc_conv_app_nth)
    moreover have "concat (map (disk_words base ?m) [s..<c]) = concat (map (disk_words base (fmem st)) [s..<c])"
      by (rule concat_disk_words) (use frame [where i = "Suc p" and m = "fmem st"] False d in simp)
    ultimately have "pool_stack base sb nr ?st (x # xs)" using d rev pos False
      by (simp add: pool_stack_def Let_def flip: l_def s_def c_def)
    moreover have "lmfs_push_block sb x st = Some (0, ?st)" using x pos(1) a
      by (simp add: lmfs_push_block_def Let_def upd_lsb_def upd_sb_def add.commute [of 4] flip: l_def)
    ultimately show ?thesis by blast
  next
    case True
    then have "(word_of_nat (unat (db_pool_pos l)) :: u32) = word_of_nat 1023" by (simp add: p_def)
    then have pos: "db_pool_pos l + 1 = 1024" by simp
    have c: "db_pool_current_block l < 256" "unat (db_pool_current_block l + 1) = Suc c" using d(5,6)
      by (auto simp: c_def word_less_nat_alt unat_word_ariths)
    have w: "base + 4096 * db_pool_current_block l = base + 4096 * word_of_nat c" by (simp add: c_def)
    obtain m where m: "lmfs_write_block sb ?pg (db_pool_current_block l) st = Some (0, set_fmem m st)"
      "disk_block base m (db_pool_current_block l) = bytes_at (fmem st) ?pg 4096"
      "same_outside (region (base + 4096 * db_pool_current_block l) 4096) (fmem st) m" using lmfs_write [OF d(1) c(1) d(3)] by blast
    let ?m = "put_word m (?pg + word_of_nat (4 * 0)) x"
    let ?st = "upd_lsb sb (\<lambda>l. l\<lparr>db_pool_current_block := db_pool_current_block l + 1, db_pool_pos := 0\<rparr>) (set_fmem ?m st)"
    have full: "disk_words base m c = words_at (fmem st) ?pg 1024" using words_at_bytes [of m _ 1024 "fmem st" ?pg] m(2) w by simp
    have others: "disk_words base m b = disk_words base (fmem st) b" if "b < c" for b
    proof (rule words_at_outside [OF m(3)])
      have "unat (word_of_nat b :: u32) = b" using that d(5,6) by (intro unat_word_of_nat) simp
      then have "word_of_nat b < (256 :: u32)" "db_pool_current_block l \<noteq> word_of_nat b"
        using that d(5,6) by (auto simp: word_less_nat_alt c_def)
      then show "region (base + 4096 * db_pool_current_block l) 4096 \<inter> region (base + 4096 * word_of_nat b) (4 * 1024) = {}"
        using disk_blocks_apart [OF c(1), of "word_of_nat b" base] by simp
    qed
    have "length xs = 1024 * (c - s) + 1024" using arg_cong [OF rev, of length] True d(4) by (simp add: length_concat comp_def sum_list_triv)
    then have room: "Suc c < s + nr" using n d(4) by (cases nr) auto
    have "concat (map (disk_words base ?m) [s..<Suc c]) = concat (map (disk_words base m) [s..<Suc c])"
      by (rule concat_disk_words) (use frame [where i = 0 and m = m] d in simp)
    also have "\<dots> = concat (map (disk_words base (fmem st)) [s..<c]) @ words_at (fmem st) ?pg 1024"
      using concat_disk_words [of s c m base "fmem st"] others full d(4) by simp
    finally have "concat (map (disk_words base ?m) [s..<Suc c]) = rev xs" using rev True by simp
    moreover have "take (Suc 0) (words_at ?m ?pg 1024) = [x]"
      using words_at_put_word [of 1024 0 m ?pg x] by (simp add: take_Suc_conv_app_nth)
    ultimately have "pool_stack base sb nr ?st (x # xs)" using d rev c(2) room
      by (simp add: pool_stack_def Let_def flip: l_def s_def c_def)
    moreover have "lmfs_push_block sb x st = Some (0, ?st)" using x pos m(1)
      by (simp add: lmfs_push_block_def Let_def upd_lsb_def upd_sb_def flip: l_def)
    ultimately show ?thesis by blast
  qed
qed

lemma blocks_pop:
  assumes st: "pool_stack base sb nr st (x # xs)" and xs: "xs \<noteq> []"
  shows "\<exists>st'. lmfs_pop_block sb st = Some (x, st') \<and> pool_stack base sb nr st' xs"
proof -
  define l where "l = lsb sb st"
  define s c p where "s = unat (db_pool_start_block l)" and "c = unat (db_pool_current_block l)" and "p = unat (db_pool_pos l)"
  let ?pg = "db_pool l" and ?pool = "words_at (fmem st) (db_pool l) 1024"
  have d: "lmfs_disk base sb st" "data_free_blocks l \<noteq> 0" "region ?pg 4096 \<inter> ramdisk base = {}" "s \<le> c" "c < s + nr" "s + nr \<le> 256" "p < 1024"
    and rev: "rev xs @ [x] = concat (map (disk_words base (fmem st)) [s..<c]) @ take (Suc p) ?pool"
    using st by (simp_all add: pool_stack_def Let_def l_def s_def c_def p_def)
  have tk: "take (Suc p) ?pool = take p ?pool @ [?pool ! p]" using d(7) by (simp add: take_Suc_conv_app_nth)
  then have x: "x = ?pool ! p" and xs': "rev xs = concat (map (disk_words base (fmem st)) [s..<c]) @ take p ?pool"
    using rev by simp_all
  have val: "word_at (fmem st) (?pg + 4 * db_pool_pos l) = x" using x d(7) by (simp add: p_def)
  show ?thesis
  proof (cases "p = 0")
    case False
    then have ne: "db_pool_pos l \<noteq> 0" by (auto simp: p_def)
    then have pos: "db_pool_pos l \<noteq> 0" "unat (db_pool_pos l - 1) = p - 1" using unat_minus_one [OF ne] by (auto simp: p_def)
    let ?st = "upd_lsb sb (\<lambda>l. l\<lparr>db_pool_current_block := db_pool_current_block l, db_pool_pos := db_pool_pos l - 1\<rparr>) st"
    have "pool_stack base sb nr ?st xs" using d xs' pos False by (simp add: pool_stack_def Let_def flip: l_def s_def c_def)
    moreover have "lmfs_pop_block sb st = Some (x, ?st)" using pos(1) val d(2)
      by (simp add: lmfs_pop_block_def Let_def upd_lsb_def upd_sb_def flip: l_def)
    ultimately show ?thesis by blast
  next
    case True
    then have pos: "db_pool_pos l = 0" by (simp add: p_def unat_eq_0)
    have c: "s < c" using xs' xs True d(4) by (cases "s = c") auto
    then have c0: "db_pool_current_block l \<noteq> 0" by (auto simp: c_def)
    then have cb: "unat (db_pool_current_block l - 1) = c - 1" by (simp add: c_def unat_minus_one)
    then have b: "db_pool_current_block l - 1 < 256" "db_pool_start_block l \<le> db_pool_current_block l - 1"
      using d(5,6) c by (auto simp: word_less_nat_alt word_le_nat_alt s_def)
    obtain m where m: "lmfs_read_block sb ?pg (db_pool_current_block l - 1) st = Some (0, set_fmem m st)"
      "bytes_at m ?pg 4096 = disk_block base (fmem st) (db_pool_current_block l - 1)"
      "same_outside (region ?pg 4096) (fmem st) m" using lmfs_read [OF d(1) b(1) d(3)] by blast
    let ?st = "upd_lsb sb (\<lambda>l. l\<lparr>db_pool_current_block := db_pool_current_block l - 1, db_pool_pos := 1023\<rparr>) (set_fmem m st)"
    have w: "db_pool_current_block l - 1 = word_of_nat (c - 1)" unfolding cb [symmetric] by simp
    have pg: "words_at m ?pg 1024 = disk_words base (fmem st) (c - 1)" using words_at_bytes [of m ?pg 1024 "fmem st"] m(2) w by simp
    have "concat (map (disk_words base m) [s..<c - 1]) = concat (map (disk_words base (fmem st)) [s..<c - 1])"
      by (rule concat_disk_words) (use disk_words_frame [OF m(3) d(3)] d in auto)
    moreover have "[s..<c] = [s..<c - 1] @ [c - 1]" using c upt_Suc_append [of s "c - 1"] by simp
    ultimately have "rev xs = concat (map (disk_words base m) [s..<c - 1]) @ words_at m ?pg 1024" using xs' True pg by simp
    moreover have "s \<le> c - 1" "c - 1 < s + nr" using c d(5) by simp_all
    ultimately have "pool_stack base sb nr ?st xs" using d cb by (simp add: pool_stack_def Let_def flip: l_def s_def)
    moreover have "lmfs_pop_block sb st = Some (x, ?st)" using pos val d(2) m(1) b(2)
      by (simp add: lmfs_pop_block_def Let_def upd_lsb_def upd_sb_def flip: l_def)
    ultimately show ?thesis by blast
  qed
qed

interpretation pool: block_stack "lmfs_push_block sb" "lmfs_pop_block sb" "pool_stack base sb nr" "1024 * nr" for sb base nr
  by unfold_locales (use blocks_push blocks_pop in blast)+

section \<open>Properties\<close>

text \<open>
  C17.  Free blocks are kept in a stack.  After any number of blocks has been freed, taking as
  many blocks gives them back in the opposite order and restores the pool, also when the pool
  crosses from one block of the disk to another on the way.
\<close>

theorem lmfs_pool_lifo:
  assumes "pool_stack base sb nr st xs" "xs \<noteq> []" "length xs + length ys \<le> 1024 * nr" "0 \<notin> set ys"
  shows "\<exists>st1 st2. push_all (lmfs_push_block sb) ys st = Some st1 \<and> pop_n (lmfs_pop_block sb) (length ys) st1 = Some (rev ys, st2)
    \<and> pool_stack base sb nr st2 xs"
  by (rule pool.push_pop_all [OF assms])

text \<open>A pool whose block in memory is full: the next push crosses to the second block.\<close>

definition demo_pool :: "u32 \<Rightarrow> lmfs_state" where
  "demo_pool pos = \<lparr>fdisk = set_dmem (\<lambda>_. 0) demo_disk,
     sbs = (\<lambda>_. \<lparr>sb_dev = 0, sb_dir = 0, block_size_bits = 12, sb_block_size = 4096, max_file = 8, sb_flags = 0, sb_magic = 0,
       sb_bdev = Some demo_bdev, sb_private = (super_of (\<lambda>_. 0) 0)\<lparr>db_pool_start_block := 2, db_pool_current_block := 2, db_pool_pos := pos,
         data_free_blocks := 9, db_pool := 0x1000\<rparr>\<rparr>),
     bit_words = (\<lambda>_. 0), iname_buffer = 0, iname_buffer_base = 0, dbuffer = 0\<rparr>"

lemma demo_pool_disk: "lmfs_disk 0x100000 0 (demo_pool pos)" "region 0x1000 4096 \<inter> ramdisk 0x100000 = {}"
  using apart_unat(1) [of "0x1000" 4096 "0x100000" "4096 * 256"]
  by (simp_all add: lmfs_disk_def demo_pool_def demo_bdev_def demo_disk_def apart_region)

lemma demo_pool_stack: "pool_stack 0x100000 0 2 (demo_pool 1023) (replicate 1024 0)"
proof -
  have "words_at (fmem (demo_pool 1023)) 0x1000 1024 = replicate 1024 0"
    by (intro nth_equalityI) (simp_all add: demo_pool_def word_at_def)
  then show ?thesis using demo_pool_disk
    by (simp add: pool_stack_def Let_def demo_pool_def)
qed

theorem lmfs_pool_lifo_witness:
  "\<exists>st1 st2. push_all (lmfs_push_block 0) [7, 8, 9] (demo_pool 1023) = Some st1 \<and> pop_n (lmfs_pop_block 0) 3 st1 = Some ([9, 8, 7], st2)
    \<and> pool_stack 0x100000 0 2 st2 (replicate 1024 0)"
  using lmfs_pool_lifo [OF demo_pool_stack, of "[7, 8, 9]"] by (simp add: numeral_3_eq_3)

text \<open>
  The pool does not survive being emptied.  Taking the last block moves the pool to the
  block in front of its area; the next block that is freed writes the page in memory over this
  block of the disk, which belongs to something else.
\<close>

theorem lmfs_pool_underflow:
  fixes st :: lmfs_state and sb :: addr
  defines "l \<equiv> lsb sb st"
  assumes d: "lmfs_disk base sb st" "data_free_blocks l \<noteq> 0" "region (db_pool l) 4096 \<inter> ramdisk base = {}"
    and e: "db_pool_pos l = 0" "db_pool_current_block l = db_pool_start_block l" "0 < db_pool_start_block l" "db_pool_start_block l < 256"
    and x: "x \<noteq> 0"
  shows "\<exists>y st1 st2. lmfs_pop_block sb st = Some (y, st1) \<and> lmfs_push_block sb x st1 = Some (0, st2)
    \<and> disk_block base (fmem st2) (db_pool_start_block l - 1) = bytes_at (fmem st) (db_pool l) 4096"
proof -
  let ?b = "db_pool_start_block l - 1" and ?pg = "db_pool l"
  have ne: "db_pool_start_block l \<noteq> 0" using e(3) by auto
  then have "0 < unat (db_pool_start_block l)" by (simp add: unat_gt_0)
  then have b: "\<not> db_pool_start_block l \<le> ?b" "?b < 256"
    using e(4) unat_minus_one [OF ne] by (auto simp: word_le_nat_alt word_less_nat_alt)
  let ?st = "upd_lsb sb (\<lambda>l. l\<lparr>db_pool_current_block := db_pool_start_block l - 1, db_pool_pos := 1023\<rparr>) st"
  have pop: "lmfs_pop_block sb st = Some (word_at (fmem st) ?pg, ?st)" using e d(2) b(1)
    by (simp add: lmfs_pop_block_def Let_def upd_lsb_def upd_sb_def flip: l_def)
  have "lmfs_disk base sb ?st" using d(1) by simp
  from lmfs_write [OF this b(2) d(3)] obtain m where m: "lmfs_write_block sb ?pg ?b ?st = Some (0, set_fmem m ?st)"
    "disk_block base m ?b = bytes_at (fmem st) ?pg 4096" by auto
  have l1: "lsb sb ?st = l\<lparr>db_pool_current_block := ?b, db_pool_pos := 1023\<rparr>" by (simp add: l_def)
  let ?st2 = "upd_lsb sb (\<lambda>l. l\<lparr>db_pool_current_block := ?b + 1, db_pool_pos := 0\<rparr>) (set_fmem (put_word m ?pg x) ?st)"
  have push: "lmfs_push_block sb x ?st = Some (0, ?st2)" using x m(1) unfolding lmfs_push_block_def l1 by simp
  have "region ?pg 4 \<subseteq> region ?pg 4096" by (rule region_mono) simp
  then have "region ?pg 4 \<inter> region (base + 4096 * ?b) 4096 = {}" using d(3) block_region [OF b(2), of base] by blast
  from bytes_at_outside [OF put_word_outside this] have "disk_block base (put_word m ?pg x) ?b = disk_block base m ?b" .
  then show ?thesis using pop push m(2) by auto
qed

theorem lmfs_pool_underflow_witness:
  "\<exists>y st1 st2. lmfs_pop_block 0 (demo_pool 0) = Some (y, st1) \<and> lmfs_push_block 0 7 st1 = Some (0, st2)
    \<and> disk_block 0x100000 (fmem st2) 1 = bytes_at (fmem (demo_pool 0)) 0x1000 4096"
  using lmfs_pool_underflow [of "0x100000" 0 "demo_pool 0" 7] demo_pool_disk(1) [where pos = 0] demo_pool_disk(2) by (simp add: demo_pool_def)

end
