(* ===== verification/File.thy ===== *)
theory File
  imports Fnode
begin

text \<open>
  fs/file.c: the descriptors of a process and the calls on them, with the table of device
  classes of drivers/device.c, from which the operations of a character device come.  An open
  file is a record in a store indexed by its address; a descriptor holds such an address or
  null.  A table that is accessed outside its bounds has no result.
\<close>

section \<open>Structures\<close>

record ('p, 'q) file_operations =
  fo_read :: "('p file_struct \<Rightarrow> addr \<Rightarrow> int \<Rightarrow> 'q fs_state \<Rightarrow> (int \<times> 'p file_struct \<times> 'q fs_state) option) option"
  fo_write :: "('p file_struct \<Rightarrow> addr \<Rightarrow> int \<Rightarrow> 'q fs_state \<Rightarrow> (int \<times> 'p file_struct \<times> 'q fs_state) option) option"
  fo_seek :: "('p file_struct \<Rightarrow> int \<Rightarrow> int \<Rightarrow> 'q fs_state \<Rightarrow> (int \<times> 'p file_struct \<times> 'q fs_state) option) option"
  fo_ioctl :: "('p file_struct \<Rightarrow> u32 \<Rightarrow> addr \<Rightarrow> 'q fs_state \<Rightarrow> (int \<times> 'p file_struct \<times> 'q fs_state) option) option"
  fo_open :: "('p file_struct \<Rightarrow> u32 \<Rightarrow> 'q fs_state \<Rightarrow> (int \<times> 'p file_struct \<times> 'q fs_state) option) option"
  fo_close :: "('p file_struct \<Rightarrow> 'q fs_state \<Rightarrow> (int \<times> 'q fs_state) option) option"
  fo_mmap :: "('p file_struct \<Rightarrow> addr \<Rightarrow> int \<Rightarrow> int \<Rightarrow> 'q fs_state \<Rightarrow> (int \<times> 'p file_struct \<times> 'q fs_state) option) option"
  fo_msync :: "('p file_struct \<Rightarrow> addr \<Rightarrow> int \<Rightarrow> int \<Rightarrow> 'q fs_state \<Rightarrow> (int \<times> 'p file_struct \<times> 'q fs_state) option) option"
  fo_stat :: "('p file_struct \<Rightarrow> addr \<Rightarrow> 'q fs_state \<Rightarrow> (int \<times> 'q fs_state) option) option"

definition vfs_ops :: "('p, 'q) filesystem \<Rightarrow> ('p, 'q) file_operations" where
  "vfs_ops fs = \<lparr>fo_read = Some (vfs_read fs), fo_write = Some (vfs_write fs), fo_seek = Some (vfs_seek fs),
     fo_ioctl = Some (\<lambda>f cmd arg st. Some (vfs_ioctl f cmd arg, f, st)), fo_open = Some (\<lambda>f flg st. vfs_open fs f st),
     fo_close = Some (vfs_close fs), fo_mmap = Some (vfs_mmap fs), fo_msync = Some (vfs_msync fs),
     fo_stat = Some (\<lambda>f stat st. Some (vfs_stat f stat, st))\<rparr>"

record ('p, 'q) device_class =
  class_at :: addr
  class_major :: int
  is_char :: bool
  class_fops :: "('p, 'q) file_operations option"
  device_nr :: int

record ('p, 'q) open_file =
  of_file :: "'p file_struct"
  of_fops :: "('p, 'q) file_operations option"

record ('p, 'q) file_state =
  fstate :: "'q fs_state"
  files :: "addr \<Rightarrow> ('p, 'q) open_file"
  ctable :: "('p, 'q) device_class option list"
  mounts :: "('p, 'q) mount_point list"
  zero_private :: 'p

record 'p file_desc =
  desc_at :: addr
  open_nr :: int
  file_open :: "addr list"
  cdir :: "'p fnode option"
  cdir_name :: addr

abbreviation (input) FILE_OPENS :: int where "FILE_OPENS \<equiv> 64"
abbreviation (input) MAX_MAJOR :: int where "MAX_MAJOR \<equiv> 256"
abbreviation (input) O_RDONLY :: u32 where "O_RDONLY \<equiv> 0"
abbreviation (input) O_RDWR :: u32 where "O_RDWR \<equiv> 2"

section \<open>Device classes\<close>

definition MAJOR :: "u32 \<Rightarrow> u32" where "MAJOR dev = drop_bit 16 dev"

text \<open>A device without a class is a null pointer that is followed.\<close>

definition get_device_fops :: "'p file_struct \<Rightarrow> ('p, 'q) file_state \<Rightarrow> ('p, 'q) file_operations option option" where
  "get_device_fops f st =
     (let major = unat (MAJOR (fn_dev (file_fnode f))) in
      if major < length (ctable st) then map_option class_fops (ctable st ! major) else None)"

definition allocate_device_class :: "int \<Rightarrow> ('p, 'q) file_state \<Rightarrow> (('p, 'q) device_class option \<times> ('p, 'q) file_state) option" where
  "allocate_device_class major st =
     (if major > MAX_MAJOR - 1 \<or> major < 0 then Some (None, st)
      else do {
        (a, s) \<leftarrow> fkzalloc 76 (fstate st);
        let st = st\<lparr>fstate := s\<rparr>;
        Some (if a = 0 then None
              else Some \<lparr>class_at = a, class_major = major, is_char = False, class_fops = None, device_nr = 0\<rparr>, st)
      })"

definition register_device_class :: "('p, 'q) device_class \<Rightarrow> ('p, 'q) file_state \<Rightarrow> (int \<times> ('p, 'q) file_state) option" where
  "register_device_class c st =
     (if \<not> (0 \<le> class_major c \<and> nat (class_major c) < length (ctable st)) then None
      else if ctable st ! nat (class_major c) \<noteq> None then Some (- EINVAL, st)
      else Some (0, st\<lparr>ctable := (ctable st)[nat (class_major c) := Some c]\<rparr>))"

definition register_chardev_class :: "('p, 'q) device_class \<Rightarrow> ('p, 'q) file_state \<Rightarrow> (int \<times> ('p, 'q) file_state) option" where
  "register_chardev_class c st = register_device_class (c\<lparr>is_char := True\<rparr>) st"

definition register_blockdev_class :: "('p, 'q) device_class \<Rightarrow> ('p, 'q) file_state \<Rightarrow> (int \<times> ('p, 'q) file_state) option" where
  "register_blockdev_class c st = register_device_class (c\<lparr>is_char := False\<rparr>) st"

definition unregister_device_class :: "('p, 'q) device_class option \<Rightarrow> ('p, 'q) file_state \<Rightarrow> (int \<times> ('p, 'q) file_state) option" where
  "unregister_device_class cl st =
     (case cl of
        None \<Rightarrow> Some (- EINVAL, st)
      | Some c \<Rightarrow>
          if \<not> (0 \<le> class_major c \<and> nat (class_major c) < length (ctable st)) then None
          else if ctable st ! nat (class_major c) = None then Some (- ENODEV, st)
          else do {
            s \<leftarrow> ffree (class_at c) (fstate st);
            Some (0, st\<lparr>fstate := s, ctable := (ctable st)[nat (class_major c) := None]\<rparr>)
          })"

section \<open>Opening and closing\<close>

definition release_file :: "addr \<Rightarrow> ('p, 'q) file_state \<Rightarrow> ('p, 'q) file_state option" where
  "release_file a st =
     (if a = 0 then Some st
      else (case of_fops (files st a) of
        None \<Rightarrow> Some st
      | Some ops \<Rightarrow> (case fo_close ops of
          None \<Rightarrow> Some st
        | Some close \<Rightarrow> do { (_, s) \<leftarrow> close (of_file (files st a)) (fstate st); Some (st\<lparr>fstate := s\<rparr>) })))"

text \<open>The file system of an fnode is the one that its super block was mounted with.\<close>

definition fnode_fs :: "'p fnode \<Rightarrow> ('p, 'q) file_state \<Rightarrow> ('p, 'q) filesystem option" where
  "fnode_fs fn st = map_option mnt_fs (List.find (\<lambda>m. mnt_sb m = fn_sb fn) (mounts st))"

definition open_file_at :: "addr \<Rightarrow> u32 \<Rightarrow> ('p, 'q) file_state \<Rightarrow> (addr \<times> ('p, 'q) file_state) option" where
  "open_file_at name flg st = do {
     (fn, s) \<leftarrow> get_file_fnode (mounts st) (zero_private st) name flg (fstate st);
     let st = st\<lparr>fstate := s\<rparr>;
     (case fn of
        None \<Rightarrow> Some (0, st)
      | Some fn \<Rightarrow> do {
          (a, s) \<leftarrow> fkzalloc 24 (fstate st);
          if a = 0 then do { s \<leftarrow> release_fnode fn s; Some (0, st\<lparr>fstate := s\<rparr>) }
          else do {
            let f = \<lparr>file_at = a, f_type = fn_type fn, f_flag = flg, file_fnode = fn, offset = 0\<rparr>;
            ops \<leftarrow> (if f_type f = DT_CHR then get_device_fops f st else map_option (\<lambda>fs. Some (vfs_ops fs)) (fnode_fs fn st));
            (err, f, s) \<leftarrow> (case Option.bind ops fo_open of None \<Rightarrow> Some (0, f, s) | Some open_op \<Rightarrow> open_op f flg s);
            let st = st\<lparr>fstate := s, files := (files st)(a := \<lparr>of_file = f, of_fops = ops\<rparr>)\<rparr>;
            if err \<noteq> 0 then do { st \<leftarrow> release_file a st; Some (0, st) } else Some (a, st)
          }
        })
   }"

fun first_free :: "addr list \<Rightarrow> nat" where
  "first_free [] = 0"
| "first_free (a # as) = (if a = 0 then 0 else Suc (first_free as))"

definition sys_open :: "addr \<Rightarrow> u32 \<Rightarrow> 'p file_desc \<Rightarrow> ('p, 'q) file_state \<Rightarrow> (int \<times> 'p file_desc \<times> ('p, 'q) file_state) option" where
  "sys_open name flg fdes st =
     (let fd = first_free (file_open fdes) in
      if int fd = FILE_OPENS then Some (- EMFILE, fdes, st)
      else do {
        (a, st) \<leftarrow> open_file_at name flg st;
        Some (if a = 0 then (- ENOENT, fdes, st)
              else (int fd, fdes\<lparr>file_open := (file_open fdes)[fd := a], open_nr := open_nr fdes + 1\<rparr>, st))
      })"

definition fd_to_file :: "int \<Rightarrow> 'p file_desc \<Rightarrow> addr option" where
  "fd_to_file fd fdes =
     (if fd > FILE_OPENS then Some 0
      else if 0 \<le> fd \<and> nat fd < length (file_open fdes) then Some (file_open fdes ! nat fd)
      else None)"

definition sys_close :: "int \<Rightarrow> 'p file_desc \<Rightarrow> ('p, 'q) file_state \<Rightarrow> (int \<times> 'p file_desc \<times> ('p, 'q) file_state) option" where
  "sys_close fd fdes st = do {
     a \<leftarrow> fd_to_file fd fdes;
     if a = 0 then Some (- ENOENT, fdes, st)
     else do {
       st \<leftarrow> release_file a st;
       Some (0, fdes\<lparr>file_open := (file_open fdes)[nat fd := 0], open_nr := open_nr fdes - 1\<rparr>, st)
     }
   }"

section \<open>Calls on an open file\<close>

text \<open>A call through \<open>file->fops\<close>; without the operation it follows a null pointer.\<close>

definition call_file :: "(('p, 'q) file_operations \<Rightarrow> ('p file_struct \<Rightarrow> 'q fs_state \<Rightarrow> (int \<times> 'p file_struct \<times> 'q fs_state) option) option)
    \<Rightarrow> addr \<Rightarrow> ('p, 'q) file_state \<Rightarrow> (int \<times> ('p, 'q) file_state) option" where
  "call_file sel a st = do {
     ops \<leftarrow> of_fops (files st a);
     operation \<leftarrow> sel ops;
     (ret, f, s) \<leftarrow> operation (of_file (files st a)) (fstate st);
     Some (ret, st\<lparr>fstate := s, files := (files st)(a := (files st a)\<lparr>of_file := f\<rparr>)\<rparr>)
   }"

definition kernel_read :: "addr \<Rightarrow> addr \<Rightarrow> int \<Rightarrow> ('p, 'q) file_state \<Rightarrow> (int \<times> ('p, 'q) file_state) option" where
  "kernel_read a buffer sz = call_file (\<lambda>ops. map_option (\<lambda>r f. r f buffer sz) (fo_read ops)) a"

definition kernel_write :: "addr \<Rightarrow> addr \<Rightarrow> int \<Rightarrow> ('p, 'q) file_state \<Rightarrow> (int \<times> ('p, 'q) file_state) option" where
  "kernel_write a buffer sz = call_file (\<lambda>ops. map_option (\<lambda>r f. r f buffer sz) (fo_write ops)) a"

definition kernel_ioctl :: "addr \<Rightarrow> u32 \<Rightarrow> addr \<Rightarrow> ('p, 'q) file_state \<Rightarrow> (int \<times> ('p, 'q) file_state) option" where
  "kernel_ioctl a cmd arg = call_file (\<lambda>ops. map_option (\<lambda>r f. r f cmd arg) (fo_ioctl ops)) a"

definition kernel_seek :: "addr \<Rightarrow> int \<Rightarrow> int \<Rightarrow> ('p, 'q) file_state \<Rightarrow> (int \<times> ('p, 'q) file_state) option" where
  "kernel_seek a off whence = call_file (\<lambda>ops. map_option (\<lambda>r f. r f off whence) (fo_seek ops)) a"

definition kernel_close :: "addr \<Rightarrow> ('p, 'q) file_state \<Rightarrow> (int \<times> ('p, 'q) file_state) option" where
  "kernel_close a = call_file (\<lambda>ops. map_option (\<lambda>c f s. map_option (\<lambda>(r, s). (r, f, s)) (c f s)) (fo_close ops)) a"

definition sys_write :: "int \<Rightarrow> addr \<Rightarrow> int \<Rightarrow> 'p file_desc \<Rightarrow> ('p, 'q) file_state \<Rightarrow> (int \<times> ('p, 'q) file_state) option" where
  "sys_write fd buffer sz fdes st = do {
     a \<leftarrow> fd_to_file fd fdes;
     if sz \<le> 0 \<or> a = 0 then Some (- EINVAL, st) else kernel_write a buffer sz st
   }"

definition sys_read :: "int \<Rightarrow> addr \<Rightarrow> int \<Rightarrow> 'p file_desc \<Rightarrow> ('p, 'q) file_state \<Rightarrow> (int \<times> ('p, 'q) file_state) option" where
  "sys_read fd buffer sz fdes st = do {
     a \<leftarrow> fd_to_file fd fdes;
     if sz \<le> 0 \<or> a = 0 then Some (- EINVAL, st) else kernel_read a buffer sz st
   }"

definition sys_seek :: "int \<Rightarrow> int \<Rightarrow> int \<Rightarrow> 'p file_desc \<Rightarrow> ('p, 'q) file_state \<Rightarrow> (int \<times> ('p, 'q) file_state) option" where
  "sys_seek fd off whence fdes st = do {
     a \<leftarrow> fd_to_file fd fdes;
     if off < 0 \<or> a = 0 then Some (- EINVAL, st) else kernel_seek a off whence st
   }"

definition sys_ioctl :: "int \<Rightarrow> u32 \<Rightarrow> addr \<Rightarrow> 'p file_desc \<Rightarrow> ('p, 'q) file_state \<Rightarrow> (int \<times> ('p, 'q) file_state) option" where
  "sys_ioctl fd cmd arg fdes st = do {
     a \<leftarrow> fd_to_file fd fdes;
     if a = 0 then Some (- ENOENT, st) else kernel_ioctl a cmd arg st
   }"

definition sys_getdents :: "int \<Rightarrow> addr \<Rightarrow> int \<Rightarrow> 'p file_desc \<Rightarrow> ('p, 'q) file_state \<Rightarrow> (int \<times> ('p, 'q) file_state) option" where
  "sys_getdents fd buf cnt fdes st = do {
     a \<leftarrow> fd_to_file fd fdes;
     if a = 0 then Some (- ENOENT, st)
     else do {
       fs \<leftarrow> fnode_fs (file_fnode (of_file (files st a))) st;
       (ret, f, s) \<leftarrow> vfs_getdents fs (of_file (files st a)) buf cnt (fstate st);
       Some (ret, st\<lparr>fstate := s, files := (files st)(a := (files st a)\<lparr>of_file := f\<rparr>)\<rparr>)
     }
   }"

definition fmmap :: "int \<Rightarrow> addr \<Rightarrow> int \<Rightarrow> int \<Rightarrow> 'p file_desc \<Rightarrow> ('p, 'q) file_state \<Rightarrow> (int \<times> ('p, 'q) file_state) option" where
  "fmmap fd buffer sz off fdes st = do {
     a \<leftarrow> fd_to_file fd fdes;
     if a = 0 then Some (- ENOENT, st) else call_file (\<lambda>ops. map_option (\<lambda>r f. r f buffer sz off) (fo_mmap ops)) a st
   }"

definition fmsync :: "int \<Rightarrow> addr \<Rightarrow> int \<Rightarrow> int \<Rightarrow> 'p file_desc \<Rightarrow> ('p, 'q) file_state \<Rightarrow> (int \<times> ('p, 'q) file_state) option" where
  "fmsync fd buffer sz off fdes st = do {
     a \<leftarrow> fd_to_file fd fdes;
     if a = 0 then Some (- ENOENT, st) else call_file (\<lambda>ops. map_option (\<lambda>r f. r f buffer sz off) (fo_msync ops)) a st
   }"

section \<open>Descriptors of a process\<close>

text \<open>\<open>tty\<close> and \<open>home\<close> are the addresses of the strings \<open>/dev/ttyS0\<close> and \<open>/home/root\<close>.\<close>

definition alloc_and_init_file_desc :: "addr \<Rightarrow> addr \<Rightarrow> 'p file_desc option \<Rightarrow> ('p, 'q) file_state
    \<Rightarrow> ('p file_desc option \<times> ('p, 'q) file_state) option" where
  "alloc_and_init_file_desc tty home p st = do {
     (a, s) \<leftarrow> fkzalloc 524 (fstate st);
     let st = st\<lparr>fstate := s\<rparr>;
     if a = 0 then Some (None, st)
     else do {
       (f0, st) \<leftarrow> open_file_at tty O_RDWR st;
       (f1, st) \<leftarrow> open_file_at tty O_RDWR st;
       (f2, st) \<leftarrow> open_file_at tty O_RDWR st;
       (_, m) \<leftarrow> strcpy (fmem (fstate st)) (a + 268) (case p of None \<Rightarrow> home | Some p \<Rightarrow> cdir_name p);
       let st = st\<lparr>fstate := set_fmem m (fstate st)\<rparr>;
       (fn, s) \<leftarrow> get_file_fnode (mounts st) (zero_private st) (a + 268) (O_RDWR OR O_DIRECTORY) (fstate st);
       Some (Some \<lparr>desc_at = a, open_nr = 3, file_open = [f0, f1, f2] @ replicate 61 0, cdir = fn, cdir_name = a + 268\<rparr>, st\<lparr>fstate := s\<rparr>)
     }
   }"

text \<open>The name of the current directory is an array in the structure, and is freed as well.\<close>

definition release_task_file_desc :: "'p file_desc option \<Rightarrow> ('p, 'q) file_state \<Rightarrow> ('p, 'q) file_state option" where
  "release_task_file_desc fd st =
     (case fd of
        None \<Rightarrow> Some st
      | Some fd \<Rightarrow> do {
          st \<leftarrow> fold (\<lambda>a st. Option.bind st (release_file a)) (file_open fd) (Some st);
          s \<leftarrow> ffree (cdir_name fd) (fstate st);
          s \<leftarrow> ffree (desc_at fd) s;
          Some (st\<lparr>fstate := s\<rparr>)
        })"

definition sys_access :: "addr \<Rightarrow> u32 \<Rightarrow> ('p, 'q) file_state \<Rightarrow> (int \<times> ('p, 'q) file_state) option" where
  "sys_access name flg st = do {
     (fn, s) \<leftarrow> get_file_fnode (mounts st) (zero_private st) name flg (fstate st);
     (case fn of
        None \<Rightarrow> Some (- ENODEV, st\<lparr>fstate := s\<rparr>)
      | Some fn \<Rightarrow> do { s \<leftarrow> release_fnode fn s; Some (0, st\<lparr>fstate := s\<rparr>) })
   }"

definition sys_chdir :: "addr \<Rightarrow> 'p file_desc \<Rightarrow> ('p, 'q) file_state \<Rightarrow> (int \<times> 'p file_desc \<times> ('p, 'q) file_state) option" where
  "sys_chdir path fdes st =
     (if path = 0 then Some (- EINVAL, fdes, st)
      else do {
        cmp \<leftarrow> strcmp (fmem (fstate st)) path (cdir_name fdes);
        if cmp = 0 \<and> cdir fdes \<noteq> None then Some (0, fdes, st)
        else do {
          s \<leftarrow> (case cdir fdes of None \<Rightarrow> Some (fstate st) | Some fn \<Rightarrow> release_fnode fn (fstate st));
          (fn, s) \<leftarrow> get_file_fnode (mounts st) (zero_private st) path (O_RDWR OR O_DIRECTORY) s;
          let fdes = fdes\<lparr>cdir := fn\<rparr>;
          if fn = None then Some (- ENOENT, fdes, st\<lparr>fstate := s\<rparr>)
          else do {
            (_, m) \<leftarrow> strcpy (fmem s) (cdir_name fdes) path;
            Some (0, fdes, st\<lparr>fstate := set_fmem m s\<rparr>)
          }
        }
      })"

section \<open>The table of descriptors\<close>

text \<open>A table has 64 entries, and the count is the number of entries in use.\<close>

definition desc_ok :: "'p file_desc \<Rightarrow> bool" where
  "desc_ok fdes \<longleftrightarrow> int (length (file_open fdes)) = FILE_OPENS \<and> open_nr fdes = int (length (filter (\<lambda>a. a \<noteq> 0) (file_open fdes)))"

lemma first_free_le: "first_free as \<le> length as"
  by (induction as) auto

lemma first_free_least: "first_free as < length as \<Longrightarrow> as ! first_free as = 0" "i < first_free as \<Longrightarrow> as ! i \<noteq> 0"
proof (induction as arbitrary: i)
  case (Cons a as)
  { case 1 then show ?case using Cons by auto }
  { case 2 then show ?case using Cons by (cases i) (auto split: if_splits) }
qed simp_all

lemma first_free_full: "first_free as = length as \<longleftrightarrow> 0 \<notin> set as"
  by (induction as) auto

lemma used_update:
  assumes "i < length as" "a \<noteq> 0"
  shows "as ! i = 0 \<Longrightarrow> length (filter (\<lambda>a. a \<noteq> 0) (as[i := a])) = Suc (length (filter (\<lambda>a. a \<noteq> 0) as))"
    and "as ! i \<noteq> 0 \<Longrightarrow> Suc (length (filter (\<lambda>a. a \<noteq> 0) (as[i := 0]))) = length (filter (\<lambda>a. a \<noteq> 0) as)"
  using assms(1,2)
proof (induction as arbitrary: i)
  case (Cons b as)
  { case 1 then show ?case using Cons by (cases i) auto }
  { case 2 then show ?case using Cons by (cases i) auto }
qed simp_all

lemma sys_open_ok:
  assumes "desc_ok fdes" "sys_open name flg fdes st = Some (r, fdes', st')"
  shows "desc_ok fdes'"
proof (cases "fdes' = fdes")
  case False
  let ?fd = "first_free (file_open fdes)"
  obtain a where a: "a \<noteq> 0" "?fd \<noteq> 64" "fdes' = fdes\<lparr>file_open := (file_open fdes)[?fd := a], open_nr := open_nr fdes + 1\<rparr>"
    using assms(2) False by (auto simp: sys_open_def Let_def bind_eq_Some_conv split: if_splits)
  have fd: "?fd < length (file_open fdes)" using a(2) first_free_le [of "file_open fdes"] assms(1) by (simp add: desc_ok_def)
  then show ?thesis using assms(1) a(3) used_update(1) [OF fd a(1) first_free_least(1) [OF fd]] by (simp add: desc_ok_def)
qed (use assms in simp)

lemma sys_close_ok:
  assumes "desc_ok fdes" "sys_close fd fdes st = Some (r, fdes', st')"
  shows "desc_ok fdes'"
proof (cases "fdes' = fdes")
  case False
  have a: "nat fd < length (file_open fdes)" "file_open fdes ! nat fd \<noteq> 0" "fdes' = fdes\<lparr>file_open := (file_open fdes)[nat fd := 0], open_nr := open_nr fdes - 1\<rparr>"
    using assms(2) False by (auto simp: sys_close_def fd_to_file_def Let_def bind_eq_Some_conv split: if_splits)
  then show ?thesis using assms(1) used_update(2) [OF a(1) _ a(2), of 1] by (simp add: desc_ok_def)
qed (use assms in simp)

lemma sys_chdir_files: "sys_chdir path fdes st = Some (r, fdes', st') \<Longrightarrow> file_open fdes' = file_open fdes \<and> open_nr fdes' = open_nr fdes"
  by (auto simp: sys_chdir_def Let_def bind_eq_Some_conv split: if_splits)

text \<open>The calls of a process that change its table, in any order.\<close>

inductive desc_reach :: "'p file_desc \<Rightarrow> ('p, 'q) file_state \<Rightarrow> 'p file_desc \<Rightarrow> ('p, 'q) file_state \<Rightarrow> bool" for fdes0 st0 where
  start: "desc_reach fdes0 st0 fdes0 st0"
| op: "desc_reach fdes0 st0 fdes st \<Longrightarrow> sys_open name flg fdes st = Some (r, fdes', st') \<Longrightarrow> desc_reach fdes0 st0 fdes' st'"
| cl: "desc_reach fdes0 st0 fdes st \<Longrightarrow> sys_close fd fdes st = Some (r, fdes', st') \<Longrightarrow> desc_reach fdes0 st0 fdes' st'"
| cd: "desc_reach fdes0 st0 fdes st \<Longrightarrow> sys_chdir path fdes st = Some (r, fdes', st') \<Longrightarrow> desc_reach fdes0 st0 fdes' st'"
| rd: "desc_reach fdes0 st0 fdes st \<Longrightarrow> sys_read fd buffer sz fdes st = Some (r, st') \<Longrightarrow> desc_reach fdes0 st0 fdes st'"
| wr: "desc_reach fdes0 st0 fdes st \<Longrightarrow> sys_write fd buffer sz fdes st = Some (r, st') \<Longrightarrow> desc_reach fdes0 st0 fdes st'"
| sk: "desc_reach fdes0 st0 fdes st \<Longrightarrow> sys_seek fd off whence fdes st = Some (r, st') \<Longrightarrow> desc_reach fdes0 st0 fdes st'"
| io: "desc_reach fdes0 st0 fdes st \<Longrightarrow> sys_ioctl fd cmd arg fdes st = Some (r, st') \<Longrightarrow> desc_reach fdes0 st0 fdes st'"
| gd: "desc_reach fdes0 st0 fdes st \<Longrightarrow> sys_getdents fd buffer n fdes st = Some (r, st') \<Longrightarrow> desc_reach fdes0 st0 fdes st'"

text \<open>A new table is well-formed when the terminal could be opened; the count is 3 even when it could not.\<close>

lemma alloc_and_init_file_desc_ok:
  assumes "alloc_and_init_file_desc tty home p st = Some (Some fdes, st')"
  shows "length (file_open fdes) = 64 \<and> open_nr fdes = 3 \<and> (desc_ok fdes \<longleftrightarrow> 0 \<notin> set (take 3 (file_open fdes)))"
  using assms by (auto simp: alloc_and_init_file_desc_def Let_def bind_eq_Some_conv desc_ok_def split: if_splits)

section \<open>Properties\<close>


text \<open>
  C15.  Opening a file gives the smallest free descriptor.  On a well-formed table, a file that
  can be opened gets the first free entry, which then leads to the file, no other descriptor
  changes and the table stays well-formed; with all 64 in use the call returns \<open>-EMFILE\<close> and
  opens nothing.
\<close>

theorem sys_open_least:
  assumes reach: "desc_ok fdes" and a: "open_file_at name flg st = Some (a, st')" "a \<noteq> 0"
  shows "if 0 \<in> set (file_open fdes)
    then \<exists>fd fdes'. sys_open name flg fdes st = Some (int fd, fdes', st') \<and> fd < 64 \<and> file_open fdes ! fd = 0 \<and> 0 \<notin> set (take fd (file_open fdes))
      \<and> fd_to_file (int fd) fdes' = Some a \<and> (\<forall>k. k = int fd \<or> fd_to_file k fdes' = fd_to_file k fdes) \<and> desc_ok fdes'
    else sys_open name flg fdes st = Some (- EMFILE, fdes, st)"
proof (cases "0 \<in> set (file_open fdes)")
  case True
  let ?fd = "first_free (file_open fdes)"
  let ?fdes = "fdes\<lparr>file_open := (file_open fdes)[?fd := a], open_nr := open_nr fdes + 1\<rparr>"
  have ok: "desc_ok fdes" "length (file_open fdes) = 64" using reach by (simp_all add: desc_ok_def)
  have fd: "?fd < length (file_open fdes)" using True first_free_le [of "file_open fdes"] first_free_full [of "file_open fdes"] by linarith
  have s: "sys_open name flg fdes st = Some (int ?fd, ?fdes, st')" using a fd ok(2) by (simp add: sys_open_def Let_def)
  have "k = int ?fd \<or> fd_to_file k ?fdes = fd_to_file k fdes" for k by (cases "nat k = ?fd") (auto simp: fd_to_file_def)
  moreover have "fd_to_file (int ?fd) ?fdes = Some a" using fd ok(2) by (simp add: fd_to_file_def)
  moreover have "0 \<notin> set (take ?fd (file_open fdes))"
    using first_free_least(2) [where as = "file_open fdes"] by (fastforce simp: in_set_conv_nth)
  ultimately have "\<exists>fd fdes'. sys_open name flg fdes st = Some (int fd, fdes', st') \<and> fd < 64 \<and> file_open fdes ! fd = 0 \<and> 0 \<notin> set (take fd (file_open fdes))
      \<and> fd_to_file (int fd) fdes' = Some a \<and> (\<forall>k. k = int fd \<or> fd_to_file k fdes' = fd_to_file k fdes) \<and> desc_ok fdes'"
    using s fd ok(2) first_free_least(1) [OF fd] sys_open_ok [OF ok(1) s] by (intro exI [of _ ?fd] exI [of _ ?fdes]) auto
  then show ?thesis using True by simp
next
  case False
  have "length (file_open fdes) = 64" using reach by (simp add: desc_ok_def)
  then show ?thesis using False first_free_full [of "file_open fdes"] by (simp add: sys_open_def)
qed

text \<open>The bound of \<open>fd_to_file\<close> admits one number past the table: 64 reads past it, 65 is refused.\<close>

lemma fd_bound_off_by_one: "desc_ok fdes \<Longrightarrow> fd_to_file FILE_OPENS fdes = None \<and> (\<forall>fd > FILE_OPENS. fd_to_file fd fdes = Some 0)"
  by (simp add: fd_to_file_def desc_ok_def)

text \<open>A file system whose only file is the root directory, and a process with one descriptor in use.\<close>

definition null_fs :: "(unit, unit) filesystem" where
  "null_fs = \<lparr>fops = \<lparr>get_root_fnode = (\<lambda>sb st. Some (None, st)), get_data_block = (\<lambda>fn whence st. Some (1, fn, st)),
     find_file = (\<lambda>name fn buffer st. Some (- ENOENT, fn, st)), op_copy_fnode = None, get_block = None,
     read_block = (\<lambda>sb buffer block st. Some (0, st)), write_block = (\<lambda>sb buffer block st. Some (0, st)), parse_name = None,
     op_getdents = (\<lambda>fn dent data st. Some (0, st)), fill_super = (\<lambda>bd sb st. Some (0, st)), op_release_fnode = None\<rparr>, fs_flag = 0\<rparr>"

definition root_state :: "(unit, unit) file_state" where
  "root_state = \<lparr>fstate = \<lparr>fdisk = set_dmem ((\<lambda>_. 0)(0x3000 := 47, 0x3100 := 47)) demo_disk,
       sbs = (\<lambda>_. \<lparr>sb_dev = 0, sb_dir = 0, block_size_bits = 0, sb_block_size = 0, max_file = 0, sb_flags = 0, sb_magic = 0, sb_bdev = None, sb_private = ()\<rparr>),
       bit_words = (\<lambda>_. 0), iname_buffer = 0, iname_buffer_base = 0, dbuffer = 0\<rparr>,
     files = (\<lambda>_. \<lparr>of_file = \<lparr>file_at = 0, f_type = 0, f_flag = 0, file_fnode = new_fnode 0 (), offset = 0\<rparr>, of_fops = None\<rparr>),
     ctable = replicate 256 None,
     mounts = [\<lparr>mnt_path = 0x3100, mnt_sb = 0, mnt_fs = null_fs, mnt_flag = 0, root_fnode = (new_fnode 0x9000 ())\<lparr>fn_type := DT_DIR\<rparr>\<rparr>],
     zero_private = ()\<rparr>"

definition one_open :: "unit file_desc" where
  "one_open = \<lparr>desc_at = 0, open_nr = 1, file_open = 0x9100 # replicate 63 0, cdir = None, cdir_name = 0\<rparr>"

lemma two_kzallocs:
  "\<exists>s1 s2. kzalloc 92 GFP_KERNEL (kmem (fdisk (fstate root_state))) = Some (0x10008, s1) \<and> payload s1 0x3001 = 0
    \<and> kzalloc 24 GFP_KERNEL s1 = Some (slab_free (pslab s1) + 8, s2) \<and> slab_free (pslab s1) + 8 \<noteq> 0"
proof -
  let ?s = "kmem (fdisk (fstate root_state))"
  have s: "?s = (slab_at slab_pool_table 0x10000 4096 (\<lambda>_. 0) small_bank)\<lparr>payload := (\<lambda>_. 0)(0x3000 := 47, 0x3100 := 47)\<rparr>"
    by (simp add: root_state_def demo_disk_def set_dmem_def)
  obtain fl where "slab_wf fl [] (slab_at slab_pool_table 0x10000 4096 (\<lambda>_. 0) small_bank)"
    using slab_at_fresh [of 4096 "0x10000" "\<lambda>_. 0" small_bank] by (auto simp: slab_inv_def)
  then have wf: "slab_wf fl [] ?s" unfolding s by (subst slab_wf_cong(1); simp)
  have p: "pool_of 92 ?s = 0" "align 92 16 + 32 \<le> free_size (pslab ?s)" "lock_free ?s" "slab_free (pslab ?s) = 0x10000" "free_size (pslab ?s) = 4096"
    unfolding s by (simp_all add: slab_at_def pool_of_def slab_pool_table_def lock_free_def align_def slab_class_def nth_append)
  obtain s1 where s1: "kzalloc 92 GFP_KERNEL ?s = Some (slab_free (pslab ?s) + 8, s1)" "slab_wf fl [slab_free (pslab ?s)] s1" "lock_free s1"
    "pool (pslab s1) = pool (pslab ?s)" "free_size (pslab s1) = free_size (pslab ?s) - (align 92 16 + 8)"
    "same_outside (region (slab_free (pslab ?s) + 8) 92) (payload ?s) (payload s1)"
    using kzalloc_tail [OF wf p(3) _ _ p(1,2)] by auto
  have "(0x3001 :: addr) \<notin> region (slab_free (pslab ?s) + 8) 92" unfolding p(4) by (simp add: region_unat)
  then have z: "payload s1 0x3001 = 0" using s1(6) by (simp add: same_outside_def s)
  have "pool_of 24 s1 = 0" "align 24 16 + 32 \<le> free_size (pslab s1)" unfolding pool_of_def s1(4,5) p(5)
    by (simp_all add: s slab_at_def slab_pool_table_def align_def slab_class_def nth_append)
  then obtain s2 where "kzalloc 24 GFP_KERNEL s1 = Some (slab_free (pslab s1) + 8, s2)" "slab_free (pslab s1) + 8 \<noteq> 0"
    using kzalloc_tail [OF s1(2,3), of 24] by auto
  then show ?thesis using s1(1) z p(4) by auto
qed

lemma root_path: "strlen ((\<lambda>_. 0)(0x3000 := 47, 0x3100 := 47)) 0x3000 = Some 1" "strlen ((\<lambda>_. 0)(0x3000 := 47, 0x3100 := 47)) 0x3100 = Some 1"
  "strncmp ((\<lambda>_. 0)(0x3000 := 47, 0x3100 := 47)) 0x3100 0x3000 1 = Some 0" "skip_slashes ((\<lambda>_. 0)(0x3000 := 47, 0x3100 := 47)) 0x3001 = Some 0x3001"
  using strlen_str [of "(\<lambda>_. 0)(0x3000 := 47, 0x3100 := 47)" "0x3000" "[47]"] strlen_str [of "(\<lambda>_. 0)(0x3000 := 47, 0x3100 := 47)" "0x3100" "[47]"]
  by (simp_all add: strncmp_def strncmp_loop.simps [of _ _ _ 1] strncmp_loop.simps [of _ _ _ 0] skip_slashes.simps)

lemma root_fmem: "fmem (fstate root_state) = (\<lambda>_. 0)(0x3000 := 47, 0x3100 := 47)"
  by (simp add: root_state_def set_dmem_def)

lemma root_opens: "\<exists>a st'. open_file_at 0x3000 0 root_state = Some (a, st') \<and> a \<noteq> 0"
proof -
  obtain s1 s2 where k: "kzalloc 92 GFP_KERNEL (kmem (fdisk (fstate root_state))) = Some (0x10008, s1)" "payload s1 0x3001 = 0"
    "kzalloc 24 GFP_KERNEL s1 = Some (slab_free (pslab s1) + 8, s2)" "slab_free (pslab s1) + 8 \<noteq> 0"
    using two_kzallocs by blast
  let ?r = "(new_fnode 0x9000 ())\<lparr>fn_type := DT_DIR\<rparr>"
  let ?st1 = "(fstate root_state)\<lparr>fdisk := (fdisk (fstate root_state))\<lparr>kmem := s1\<rparr>\<rparr>"
  have m: "mounts root_state = [\<lparr>mnt_path = 0x3100, mnt_sb = 0, mnt_fs = null_fs, mnt_flag = 0, root_fnode = ?r\<rparr>]" by (simp add: root_state_def)
  have "get_fnode_from null_fs () 0x3001 ?r 0 (fstate root_state) = Some (Some ((new_fnode 0x10008 ())\<lparr>fn_type := DT_DIR\<rparr>), ?st1)"
    using k(1,2) by (simp add: get_fnode_from_def allocate_fnode_def fkzalloc_def copy_fnode_def new_fnode_def null_fs_def Let_def)
  then have "get_file_fnode (mounts root_state) (zero_private root_state) 0x3000 0 (fstate root_state) = Some (Some ((new_fnode 0x10008 ())\<lparr>fn_type := DT_DIR\<rparr>), ?st1)"
    by (simp add: get_file_fnode_def check_file_name_def root_fmem root_path get_mount_point_def get_file_fs_name_def m)
  moreover have "vfs_open null_fs f st = Some (0, upd_fn (fn_current_block_update (\<lambda>_. 1)) f, st)" for f :: "unit file_struct" and st :: "unit fs_state"
    by (simp add: vfs_open_def vfs_read_block_def vfs_read_block_at_def vfs_get_data_block_def null_fs_def upd_fn_def)
  ultimately show ?thesis using k(3,4)
    by (simp add: open_file_at_def fkzalloc_def fnode_fs_def m vfs_ops_def new_fnode_def Let_def)
qed

theorem sys_open_least_witness:
  "\<exists>st' fd fdes'. sys_open 0x3000 0 one_open root_state = Some (int fd, fdes', st') \<and> fd < 64 \<and> file_open one_open ! fd = 0"
proof -
  obtain a st' where a: "open_file_at 0x3000 0 root_state = Some (a, st')" "a \<noteq> 0" using root_opens by blast
  have ok: "desc_ok one_open" by (simp add: desc_ok_def one_open_def)
  show ?thesis using sys_open_least [OF ok a] by (auto simp: one_open_def)
qed


end
