(* ===== verification/Mount.thy ===== *)
theory Mount
  imports File "HOL-Library.Sublist"
begin

text \<open>
  fs/mount.c and fs/filesystem.c: the registered file systems and the mount points.  The names
  of the registered file systems are strings in memory; the string literals of the code are
  given by their addresses where the memory matters and by their bytes otherwise.  A file system
  that is registered has its operations, so that the check of \<open>register_filesystem\<close> for a missing
  \<open>fill_super\<close> never refuses it here.
\<close>

section \<open>Model\<close>

record ('p, 'q) mount_state =
  mfile :: "('p, 'q) file_state"
  registered :: "(addr \<times> ('p, 'q) filesystem) list"

fun lookup_loop :: "byte_mem \<Rightarrow> addr \<Rightarrow> (addr \<times> ('p, 'q) filesystem) list \<Rightarrow> ('p, 'q) filesystem option \<Rightarrow> ('p, 'q) filesystem option option" where
  "lookup_loop m name [] fs = Some fs"
| "lookup_loop m name ((fname, f) # rest) fs = do {
     r \<leftarrow> strcmp m name fname;
     if r = 0 then Some (Some f) else lookup_loop m name rest (Some f)
   }"

definition lookup_filesystem :: "addr \<Rightarrow> ('p, 'q) mount_state \<Rightarrow> ('p, 'q) filesystem option option" where
  "lookup_filesystem name st = lookup_loop (fmem (fstate (mfile st))) name (registered st) None"

definition register_filesystem :: "addr \<times> ('p, 'q) filesystem \<Rightarrow> ('p, 'q) mount_state \<Rightarrow> int \<times> ('p, 'q) mount_state" where
  "register_filesystem f st = (0, st\<lparr>registered := registered st @ [f]\<rparr>)"

text \<open>The addresses of the mount point, of its path and of its super block, the first 0 on failure.\<close>

definition alloc_fs_mount :: "addr \<Rightarrow> 'q fs_state \<Rightarrow> (addr \<times> addr \<times> addr \<times> 'q fs_state) option" where
  "alloc_fs_mount path st = do {
     path_len \<leftarrow> strlen (fmem st) path;
     (mnt, st) \<leftarrow> fkzalloc 20 st;
     if mnt = 0 then Some (0, 0, 0, st)
     else do {
       (p, st) \<leftarrow> fkzalloc (path_len + 1) st;
       if p = 0 then do { st \<leftarrow> ffree mnt st; Some (0, 0, 0, st) }
       else do {
         let st = set_fmem (snd (strncpy (fmem st) p path path_len)) st;
         (sb, st) \<leftarrow> fkzalloc 76 st;
         if sb = 0 then do { st \<leftarrow> ffree p st; st \<leftarrow> ffree mnt st; Some (0, 0, 0, st) }
         else Some (mnt, p, sb,
           st\<lparr>sbs := (sbs st)(sb := \<lparr>sb_dev = 0, sb_dir = 0, block_size_bits = 0, sb_block_size = 0, max_file = 0, sb_flags = 0, sb_magic = 0,
             sb_bdev = None, sb_private = sb_private (sbs st sb)\<rparr>)\<rparr>)
       }
     }
   }"

text \<open>A root fnode that cannot be made leaves the error at 0.\<close>

definition do_mount :: "bdev option \<Rightarrow> addr \<Rightarrow> ('p, 'q) filesystem \<Rightarrow> u32 \<Rightarrow> ('p, 'q) file_state \<Rightarrow> (int \<times> ('p, 'q) file_state) option" where
  "do_mount bd path fs flg st = do {
     (err, st) \<leftarrow> (if fmem (fstate st) path = SLASH \<and> fmem (fstate st) (path + 1) = 0 then Some (0, st) else sys_access path O_DIRECTORY st);
     if err \<noteq> 0 then Some (- ENOENT, st)
     else do {
       (mnt, p, sb, s) \<leftarrow> alloc_fs_mount path (fstate st);
       if mnt = 0 then Some (- ENOMEM, st\<lparr>fstate := s\<rparr>)
       else do {
         (err, s) \<leftarrow> fill_super (fops fs) bd sb s;
         if err \<noteq> 0 then do { s \<leftarrow> ffree mnt s; Some (err, st\<lparr>fstate := s\<rparr>) }
         else do {
           (fn, s) \<leftarrow> get_root_fnode (fops fs) sb s;
           (case fn of
              None \<Rightarrow> do { s \<leftarrow> ffree mnt s; Some (0, st\<lparr>fstate := s\<rparr>) }
            | Some fn \<Rightarrow>
                let point = \<lparr>mnt_path = p, mnt_sb = sb, mnt_fs = fs, mnt_flag = 0, root_fnode = fn\<rparr> in
                Some (0, st\<lparr>fstate := s, mounts := (case mounts st of [] \<Rightarrow> [point] | root # rest \<Rightarrow> root # point # rest)\<rparr>))
         }
       }
     }
   }"

text \<open>The letters of \<open>/dev/disk\<close>.\<close>

definition dev_disk :: "u8 list" where
  "dev_disk = [47, 100, 101, 118, 47, 100, 105, 115, 107]"

definition get_bdev_by_name :: "addr \<Rightarrow> 'q fs_state \<Rightarrow> bdev option" where
  "get_bdev_by_name name st =
     (let m = fmem st in
      if bytes_at m name 9 \<noteq> dev_disk \<or> m (name + 10) \<noteq> 112 then None
      else disk_get_bdev (m (name + 9) - 48) (m (name + 11) - 48) (fdisk st))"

abbreviation (input) MS_NODEV :: u32 where "MS_NODEV \<equiv> 4"

definition sys_mount :: "addr \<Rightarrow> addr \<Rightarrow> addr \<Rightarrow> u32 \<Rightarrow> ('p, 'q) mount_state \<Rightarrow> (int \<times> ('p, 'q) mount_state) option" where
  "sys_mount dev_path path fs flg st =
     (if dev_path = 0 \<or> path = 0 then Some (- EINVAL, st)
      else
        let bd = (if flg AND MS_NODEV = 0 then get_bdev_by_name dev_path (fstate (mfile st)) else None) in
        if flg AND MS_NODEV = 0 \<and> bd = None then Some (- ENODEV, st)
        else do {
          f \<leftarrow> lookup_filesystem fs st;
          (case f of
             None \<Rightarrow> Some (- ENOENT, st)
           | Some f \<Rightarrow> do { (ret, s) \<leftarrow> do_mount bd path f flg (mfile st); Some (ret, st\<lparr>mfile := s\<rparr>) })
        })"

definition mount_root :: "addr \<Rightarrow> addr \<Rightarrow> addr \<Rightarrow> u32 \<Rightarrow> ('p, 'q) mount_state \<Rightarrow> (int \<times> ('p, 'q) mount_state) option" where
  "mount_root dev_path path fs flg st = sys_mount dev_path path fs flg st"

text \<open>The arguments are the addresses of the literals \<open>/dev/disk0p0\<close>, \<open>/\<close>, \<open>lmfs\<close>, \<open>devfs\<close> and \<open>/dev\<close>.\<close>

definition mount_init :: "addr \<Rightarrow> addr \<Rightarrow> addr \<Rightarrow> addr \<Rightarrow> addr \<Rightarrow> ('p, 'q) mount_state \<Rightarrow> ('p, 'q) mount_state option" where
  "mount_init disk_s root_s lmfs_s devfs_s dev_s st = do {
     (err, st) \<leftarrow> mount_root disk_s root_s lmfs_s 0 (st\<lparr>mfile := (mfile st)\<lparr>mounts := []\<rparr>\<rparr>);
     if err = 0 then do { (_, st) \<leftarrow> sys_mount devfs_s dev_s devfs_s MS_NODEV st; Some st } else Some st
   }"

section \<open>The mount point of a path\<close>

lemma strncmp_loop_prefix:
  assumes "str_at m p ps" "str_at m q cs" "length ps \<le> length cs"
  shows "\<exists>r. strncmp_loop m p q (int (length ps)) 0 = Some r \<and> (r = 0 \<longleftrightarrow> prefix ps cs)"
  using assms
proof (induction ps arbitrary: p q cs)
  case Nil
  then show ?case by (simp add: strncmp_loop.simps)
next
  case (Cons c ps)
  then obtain d ds where cs: "cs = d # ds" by (cases cs) auto
  show ?case using Cons cs by (subst strncmp_loop.simps) (auto simp: Let_def word_uint_eq_iff)
qed

lemma strncmp_prefix:
  assumes "str_at m p ps" "str_at m q cs" "length ps \<le> length cs"
  shows "\<exists>r. strncmp m p q (int (length ps)) = Some r \<and> (r = 0 \<longleftrightarrow> prefix ps cs)"
proof -
  obtain r where "strncmp_loop m p q (int (length ps)) 0 = Some r" "r = 0 \<longleftrightarrow> prefix ps cs"
    using strncmp_loop_prefix [OF assms] by blast
  then show ?thesis by (auto simp: strncmp_def)
qed

text \<open>The mount points have the paths \<open>ps\<close>.\<close>

definition mounted_at :: "byte_mem \<Rightarrow> ('p, 'q) mount_point list \<Rightarrow> u8 list list \<Rightarrow> bool" where
  "mounted_at m mnts ps \<longleftrightarrow> list_all2 (\<lambda>mnt p. mnt_path mnt \<noteq> 0 \<and> str_at m (mnt_path mnt) p) mnts ps"

lemma mount_loop_step:
  assumes "mnt_path tmp \<noteq> 0" "str_at m (mnt_path tmp) p" "str_at m name cs"
  shows "mount_loop m name (int (length cs)) (tmp # rest) mnt (int l) =
    (if prefix p cs \<and> l < length p then mount_loop m name (int (length cs)) rest tmp (int (length p))
     else mount_loop m name (int (length cs)) rest mnt (int l))"
proof (cases "l < length p \<and> length p \<le> length cs")
  case True
  then obtain r where "strncmp m (mnt_path tmp) name (int (length p)) = Some r" "r = 0 \<longleftrightarrow> prefix p cs"
    using strncmp_prefix [OF assms(2,3)] by blast
  then show ?thesis using True strlen_str [OF assms(2,1)] by simp
next
  case False
  then show ?thesis using strlen_str [OF assms(2,1)] prefix_length_le [of p cs] by auto
qed

lemma mount_loop_longest:
  assumes "str_at m name cs" "mounted_at m rest ps"
  shows "\<exists>r. mount_loop m name (int (length cs)) rest mnt (int l) = Some r \<and>
    (r = mnt \<and> (\<forall>p \<in> set ps. prefix p cs \<longrightarrow> length p \<le> l) \<or>
     (\<exists>k < length rest. r = rest ! k \<and> prefix (ps ! k) cs \<and> l < length (ps ! k) \<and> (\<forall>p \<in> set ps. prefix p cs \<longrightarrow> length p \<le> length (ps ! k))))"
  using assms(2)
proof (induction rest arbitrary: ps mnt l)
  case Nil
  then show ?case by (simp add: mounted_at_def)
next
  case (Cons tmp rest)
  then obtain p qs where ps: "ps = p # qs" and t: "mnt_path tmp \<noteq> 0" "str_at m (mnt_path tmp) p" "mounted_at m rest qs"
    by (auto simp: mounted_at_def list_all2_Cons1)
  note step = mount_loop_step [OF t(1,2) assms(1)]
  show ?case
  proof (cases "prefix p cs \<and> l < length p")
    case True
    obtain r where r: "mount_loop m name (int (length cs)) rest tmp (int (length p)) = Some r"
      "r = tmp \<and> (\<forall>q \<in> set qs. prefix q cs \<longrightarrow> length q \<le> length p) \<or>
       (\<exists>k < length rest. r = rest ! k \<and> prefix (qs ! k) cs \<and> length p < length (qs ! k) \<and> (\<forall>q \<in> set qs. prefix q cs \<longrightarrow> length q \<le> length (qs ! k)))"
      using Cons.IH [OF t(3), of tmp "length p"] by blast
    from r(2) have "\<exists>k < length (tmp # rest). r = (tmp # rest) ! k \<and> prefix (ps ! k) cs \<and> l < length (ps ! k) \<and> (\<forall>q \<in> set ps. prefix q cs \<longrightarrow> length q \<le> length (ps ! k))"
    proof (elim disjE exE conjE)
      assume "r = tmp" "\<forall>q \<in> set qs. prefix q cs \<longrightarrow> length q \<le> length p"
      then show ?thesis using True ps by (intro exI [of _ 0]) auto
    next
      fix k assume "k < length rest" "r = rest ! k" "prefix (qs ! k) cs" "length p < length (qs ! k)" "\<forall>q \<in> set qs. prefix q cs \<longrightarrow> length q \<le> length (qs ! k)"
      then show ?thesis using True ps by (intro exI [of _ "Suc k"]) auto
    qed
    then show ?thesis using r(1) True step by auto
  next
    case False
    obtain r where r: "mount_loop m name (int (length cs)) rest mnt (int l) = Some r"
      "r = mnt \<and> (\<forall>q \<in> set qs. prefix q cs \<longrightarrow> length q \<le> l) \<or>
       (\<exists>k < length rest. r = rest ! k \<and> prefix (qs ! k) cs \<and> l < length (qs ! k) \<and> (\<forall>q \<in> set qs. prefix q cs \<longrightarrow> length q \<le> length (qs ! k)))"
      using Cons.IH [OF t(3), of mnt l] by blast
    from r(2) have "r = mnt \<and> (\<forall>q \<in> set ps. prefix q cs \<longrightarrow> length q \<le> l) \<or>
      (\<exists>k < length (tmp # rest). r = (tmp # rest) ! k \<and> prefix (ps ! k) cs \<and> l < length (ps ! k) \<and> (\<forall>q \<in> set ps. prefix q cs \<longrightarrow> length q \<le> length (ps ! k)))"
    proof (elim disjE exE conjE)
      fix k assume "k < length rest" "r = rest ! k" "prefix (qs ! k) cs" "l < length (qs ! k)" "\<forall>q \<in> set qs. prefix q cs \<longrightarrow> length q \<le> length (qs ! k)"
      then show ?thesis using False ps by (intro disjI2 exI [of _ "Suc k"]) auto
    qed (use False ps in auto)
    then show ?thesis using r(1) False step by auto
  qed
qed

text \<open>
  C16.  For a path whose bytes are \<open>cs\<close>, \<open>get_mount_point\<close> returns a mount point: one other than
  the root only if its path is a prefix of \<open>cs\<close>, and then the longest such prefix among all mount
  points; the root only if no other mount point has a non-empty path that is a prefix of \<open>cs\<close>.
\<close>

theorem get_mount_point_longest:
  assumes "name \<noteq> 0" "str_at m name cs" "mounted_at m mnts ps" "mnts \<noteq> []"
  shows "\<exists>k < length mnts. get_mount_point m name mnts = Some (mnts ! k) \<and> (k = 0 \<or> prefix (ps ! k) cs)
    \<and> (\<forall>p \<in> set (tl ps). prefix p cs \<longrightarrow> length p \<le> (if k = 0 then 0 else length (ps ! k)))"
proof -
  obtain root rest p qs where r: "mnts = root # rest" "ps = p # qs" "mounted_at m rest qs"
    using assms(3,4) by (cases mnts) (auto simp: mounted_at_def list_all2_Cons1)
  obtain x where x: "mount_loop m name (int (length cs)) rest root (int 0) = Some x"
    "x = root \<and> (\<forall>p \<in> set qs. prefix p cs \<longrightarrow> length p \<le> 0) \<or>
     (\<exists>k < length rest. x = rest ! k \<and> prefix (qs ! k) cs \<and> 0 < length (qs ! k) \<and> (\<forall>p \<in> set qs. prefix p cs \<longrightarrow> length p \<le> length (qs ! k)))"
    using mount_loop_longest [OF assms(2) r(3), of root 0] by blast
  have g: "get_mount_point m name mnts = Some x" using x(1) r(1) strlen_str [OF assms(2,1)] by (simp add: get_mount_point_def)
  from x(2) show ?thesis
  proof (elim disjE exE conjE)
    assume "x = root" "\<forall>p \<in> set qs. prefix p cs \<longrightarrow> length p \<le> 0"
    then show ?thesis using g r by (intro exI [of _ 0]) auto
  next
    fix k assume "k < length rest" "x = rest ! k" "prefix (qs ! k) cs" "\<forall>p \<in> set qs. prefix p cs \<longrightarrow> length p \<le> length (qs ! k)"
    then show ?thesis using g r by (intro exI [of _ "Suc k"]) auto
  qed
qed

text \<open>The mount points \<open>/\<close> and \<open>/d\<close>, and the path \<open>/dx\<close>: the second is chosen, although no component ends after \<open>d\<close>.\<close>

definition mount_mem :: byte_mem where
  "mount_mem = put_bytes (put_bytes (put_bytes (\<lambda>_. 0) 0x100 [47]) 0x200 [47, 100]) 0x300 [47, 100, 120]"

definition two_mounts :: "(unit, unit) mount_point list" where
  "two_mounts = map (\<lambda>a. \<lparr>mnt_path = a, mnt_sb = 0, mnt_fs = null_fs, mnt_flag = 0, root_fnode = new_fnode a ()\<rparr>) [0x100, 0x200]"

theorem get_mount_point_longest_witness:
  "get_mount_point mount_mem 0x300 two_mounts = Some (two_mounts ! 1)"
proof -
  have s: "str_at mount_mem 0x300 [47, 100, 120]" "mounted_at mount_mem two_mounts [[47], [47, 100]]" "two_mounts \<noteq> []" "length two_mounts = 2"
    by (simp_all add: mounted_at_def two_mounts_def mount_mem_def)
  then show ?thesis using get_mount_point_longest [of "0x300" mount_mem "[47, 100, 120]" two_mounts "[[47], [47, 100]]"]
    by (auto simp: less_2_cases_iff)
qed

end
