(* ===== verification/Spec2Isabelle.thy ===== *)
theory Spec2Isabelle
  imports Mm_Boot Printk Mutex Lmfs_File Lmfs_Pool Mount
begin

text \<open>
  A verification library for the Chunos kernel, a small operating system for i386 and ARM.

  The kernel boots with a list of memory regions, divides them into zones of sections and hands
  out pages (mm/mm.c) that it maps with the page directory (kernel/mmu.c).  On the pages lives the
  allocator for small blocks (mm/slab.c).  Tasks are kept in lists by state and priority and
  switched by a timer (kernel/sched.c); mutexes put tasks to sleep and wake them
  (kernel/mutex.c).  Files are reached in layers: a descriptor of a process (fs/file.c), the
  mount point and the path (fs/mount.c, fs/fnode.c), the generic file (fs/vfs.c), the disk format
  (fs/lmfs.c), blocks of sectors (kernel/disk.c) and a RAM disk (kernel/memdisk.c).

  \<^bold>\<open>Conventions.\<close>  A u32, an unsigned long or a pointer is a \<open>32 word\<close> and wraps; the signed int,
  long, size\_t and offset\_t are \<open>int\<close>, with the conversion written out where the code
  converts.  An error is a negative number, as in the code.  A function that may not return
  (an endless loop, a null pointer that is followed, an index outside a table) has an option
  result, and \<open>None\<close> is that it does not return.  State is a record that is passed through:
  bytes and words of memory are functions from addresses.  Code outside the sources is a parameter
  (file systems are records of operations, as in the code).

  \<^bold>\<open>Theories and sources.\<close>
  \<^item> \<open>Prelude\<close>: integers of C, error numbers, the alignment macros of include/os/bound.h, and the
    collections of simplification rules.
  \<^item> \<open>Bitops\<close>: kernel/bitops.c, include/os/bitops.h: bits in word arrays and the search for a run.
  \<^item> \<open>Klist\<close>: include/os/list.h: intrusive doubly linked lists; the locale \<open>linked_list\<close> gives the
    sequence that a list represents, and the clients use its laws.
  \<^item> \<open>Kstring\<close>: kernel/string.c, and words and strings in byte memory.
  \<^item> \<open>Printk\<close>: kernel/printk.c: formatted output and the ring buffer of the log.
  \<^item> \<open>Mmu\<close>: kernel/mmu.c, arch/x86/kernel/x86\_mmu.c, mm/io.c: the page directory of the kernel.
  \<^item> \<open>Mm\<close>, \<open>Mm_Boot\<close>: mm/mm.c: allocation of pages, and the boot sequence that builds the zones.
  \<^item> \<open>Slab\<close>: mm/slab.c: kmalloc and kfree, on the pages of \<open>Mm\<close>.
  \<^item> \<open>Sched\<close>: kernel/sched.c: the lists of tasks, the choice of the next task, time, identifiers.
  \<^item> \<open>Mutex\<close>: kernel/mutex.c, on the lists of \<open>Sched\<close>.
  \<^item> \<open>Disk\<close>: kernel/disk.c, kernel/memdisk.c; the locale \<open>sector_store\<close> is what a disk promises, and
    the RAM disk is its interpretation.
  \<^item> \<open>Vfs\<close>: fs/vfs.c with the file structures.  \<open>Vfs_File\<close>: the locale \<open>block_file\<close>, what a file
    system promises of the blocks of a file, and the theory of reading, writing and positioning
    proved from it.
  \<^item> \<open>Fnode\<close>: fs/fnode.c and the search for a mount point of fs/mount.c.
  \<^item> \<open>Lmfs\<close>: fs/lmfs.c and the interpretation of \<open>block_file\<close>.  \<open>Lmfs_File\<close>: files of lmfs through all
    layers.  \<open>Lmfs_Pool\<close>: the pool of free blocks; the locale \<open>block_stack\<close> is its contract.
  \<^item> \<open>File\<close>: fs/file.c and the device classes of drivers/device.c.
  \<^item> \<open>Mount\<close>: fs/mount.c and fs/filesystem.c.

  \<^bold>\<open>What is shown.\<close>  Page allocation returns, and gives a run of pages that were free from the first
  zone in the fallback order, or there is none that the search can see; releasing restores the
  bits.  A block of kmalloc is large enough and disjoint from all others; a freed block is the one
  that the next request gets.  A change of state moves a task between the lists and keeps them
  well-formed; the scheduler runs the first task of the best priority; a sleeper wakes after
  its time.  At most one task holds a mutex.  A path is resolved to the file it names and reading
  delivers its bytes on the disk; what is written is read back; the free blocks are a stack.
  Descriptors are the least free ones, and the mount point of a path has the longest prefix.  Boot sorts the regions,
  takes whole pages, and loses none between the zones; the page directory maps exactly the region
  asked for.  Printing agrees with a reference renderer.  Some theorems show that the code does not do what it means
  to: a search that never ends, a block that is too small, a lock that stays taken, waiters
  that are lost, stale data after a read, a missing file that is found.

  \<^bold>\<open>Bounds.\<close>  No fuel is used: loops that end are recursive functions with their termination proof,
  other loops are partial functions, and the theorems state that they return.  The
  search theorems assume sections of fewer than \<open>2^20\<close> pages, which is the whole address space.  The files of
  lmfs in the theorems have fewer than 1024 blocks, one index block; beyond that the code takes the
  number of the next index block from the wrong table.

  \<^bold>\<open>Interleaving.\<close>  A step is a call of the code up to the point where the task gives up the processor;
  mutexes of the allocators are locks that a second request finds taken.  Interrupts
  happen between calls.

  \<^bold>\<open>Not modelled.\<close>  Assembly (boot, entry, context switch), the drivers of the boards
  (arch/, drivers/tty.c) and the interrupt controllers are hardware access.  The memory of a process (mm/pgt.c,
  kernel/task\_mm.c), its creation (kernel/task.c, kernel/elf.c), the FAT file system (fs/fat.c),
  the device file system (fs/devfs.c) and the tables of interrupts and system calls
  (kernel/irq.c, kernel/syscall.c) are left for later.  userspace/ holds a foreign C library and
  programs that run on the kernel, tools/ programs that run on the host.
\<close>

end
